(* ===== verification/Prelude.thy ===== *)
theory Prelude
  imports Complex_Main "HOL-Library.Word" "HOL-Library.Char_ord" "HOL-Library.List_Lexorder"
    "HOL-Library.AList"
begin

text \<open>
  What every component shares: Go's error values with \<open>errors.Is\<close>, \<open>errors.As\<close> and
  \<open>errors.Join\<close>; operations that read and change a state and return an error or a value;
  time, durations and 64-bit integers at their width; \<open>float64\<close> with its comparisons; and
  the collections of facts the component proofs are built on.
\<close>

named_theorems go_consts \<open>the program's string constants, unfolded\<close>
named_theorems keeps_rules \<open>which operations keep which predicate of the state\<close>

section \<open>Errors as values\<close>

text \<open>
  A package-level \<open>errors.New\<close> is compared by identity, so each one the source declares is
  a constructor of its own. \<open>foreign\<close> are the ones of the standard library and of
  third-party packages that the source compares against.
\<close>

datatype sentinel =
    ErrUnauthorized | ErrWalletNotOwned | ErrWalletAlreadyLinked | ErrWrongChain
  | PostgresErrNotFound | ChainErrNotFound
  | ErrMissingHash | ErrInvalidSignature | ErrExpired | ErrFutureAuthDate
  | ErrMissingAuthDate | ErrMissingUser | ErrReplayed | ErrMalformed

datatype foreign =
    EthereumNotFound | PgxErrNoRows | AsynqSkipRetry | AsynqErrTaskIDConflict
  | ContextCanceled | ContextDeadlineExceeded

text \<open>
  \<open>New\<close> is an error without a wrapped one, \<open>Wrap p e q\<close> is \<open>fmt.Errorf\<close> with one
  \<open>%w\<close> between the texts \<open>p\<close> and \<open>q\<close>, \<open>Wrap2\<close> one with two of them, \<open>Join\<close> is
  \<open>errors.Join\<close>. \<open>PgError\<close> carries an SQLSTATE code and \<open>RpcError\<close> a JSON-RPC code. \<open>Panic\<close> is a
  run-time panic that unwinds the call.
\<close>

datatype error =
    Sentinel sentinel
  | Foreign foreign
  | New string
  | PgError string string
  | RpcError int string
  | Wrap string error string
  | Wrap2 error string error
  | Join "error list"
  | Panic string

fun str_join :: "string \<Rightarrow> string list \<Rightarrow> string" where
  "str_join sep [] = []"
| "str_join sep [x] = x"
| "str_join sep (x # y # ys) = x @ sep @ str_join sep (y # ys)"

fun sentinel_text :: "sentinel \<Rightarrow> string" where
  "sentinel_text ErrUnauthorized = ''unauthorized''"
| "sentinel_text ErrWalletNotOwned = ''wallet not owned by user''"
| "sentinel_text ErrWalletAlreadyLinked = ''wallet already linked''"
| "sentinel_text ErrWrongChain = ''chain id mismatch''"
| "sentinel_text PostgresErrNotFound = ''not found''"
| "sentinel_text ChainErrNotFound = ''not found''"
| "sentinel_text ErrMissingHash = ''init data has no hash''"
| "sentinel_text ErrInvalidSignature = ''init data signature is invalid''"
| "sentinel_text ErrExpired = ''init data has expired''"
| "sentinel_text ErrFutureAuthDate = ''init data auth_date is in the future''"
| "sentinel_text ErrMissingAuthDate = ''init data has no auth_date''"
| "sentinel_text ErrMissingUser = ''init data has no user''"
| "sentinel_text ErrReplayed = ''init data has already been used''"
| "sentinel_text ErrMalformed = ''init data is malformed''"

fun foreign_text :: "foreign \<Rightarrow> string" where
  "foreign_text EthereumNotFound = ''not found''"
| "foreign_text PgxErrNoRows = ''no rows in result set''"
| "foreign_text AsynqSkipRetry = ''skip retry for the task''"
| "foreign_text AsynqErrTaskIDConflict = ''task ID conflicts with another task''"
| "foreign_text ContextCanceled = ''context canceled''"
| "foreign_text ContextDeadlineExceeded = ''context deadline exceeded''"

fun Error :: "error \<Rightarrow> string" where
  "Error (Sentinel s) = sentinel_text s"
| "Error (Foreign f) = foreign_text f"
| "Error (New m) = m"
| "Error (PgError code m) = m"
| "Error (RpcError code m) = m"
| "Error (Wrap p e q) = p @ Error e @ q"
| "Error (Wrap2 e1 m e2) = Error e1 @ m @ Error e2"
| "Error (Join es) = str_join [CHR 0x0A] (map Error es)"
| "Error (Panic m) = m"

fun errors_Is :: "error \<Rightarrow> error \<Rightarrow> bool" where
  "errors_Is (Wrap p e q) t \<longleftrightarrow> Wrap p e q = t \<or> errors_Is e t"
| "errors_Is (Wrap2 e1 m e2) t \<longleftrightarrow> Wrap2 e1 m e2 = t \<or> errors_Is e1 t \<or> errors_Is e2 t"
| "errors_Is (Join es) t \<longleftrightarrow> Join es = t \<or> list_ex (\<lambda>e. errors_Is e t) es"
| "errors_Is e t \<longleftrightarrow> e = t"

text \<open>\<open>errors.As\<close> walks the tree depth first and stops at the first error of the type.\<close>

fun first_some :: "('a \<Rightarrow> 'b option) \<Rightarrow> 'a list \<Rightarrow> 'b option" where
  "first_some f [] = None"
| "first_some f (x # xs) = (case f x of None \<Rightarrow> first_some f xs | Some y \<Rightarrow> Some y)"

lemma first_some_cong [fundef_cong]:
  "xs = ys \<Longrightarrow> (\<And>x. x \<in> set ys \<Longrightarrow> f x = g x) \<Longrightarrow> first_some f xs = first_some g ys"
  by (induction ys arbitrary: xs) (auto split: option.splits)

fun as_pg_code :: "error \<Rightarrow> string option" where
  "as_pg_code (PgError code m) = Some code"
| "as_pg_code (Wrap p e q) = as_pg_code e"
| "as_pg_code (Wrap2 e1 m e2) = (case as_pg_code e1 of None \<Rightarrow> as_pg_code e2 | Some c \<Rightarrow> Some c)"
| "as_pg_code (Join es) = first_some as_pg_code es"
| "as_pg_code _ = None"

fun as_rpc_code :: "error \<Rightarrow> int option" where
  "as_rpc_code (RpcError code m) = Some code"
| "as_rpc_code (Wrap p e q) = as_rpc_code e"
| "as_rpc_code (Wrap2 e1 m e2) = (case as_rpc_code e1 of None \<Rightarrow> as_rpc_code e2 | Some c \<Rightarrow> Some c)"
| "as_rpc_code (Join es) = first_some as_rpc_code es"
| "as_rpc_code _ = None"

text \<open>\<open>errors.Join\<close> of no error is \<open>nil\<close>.\<close>

definition errors_Join :: "error list \<Rightarrow> error option" where
  "errors_Join es = (if es = [] then None else Some (Join es))"

lemma errors_Join_None [simp]: "errors_Join es = None \<longleftrightarrow> es = []"
  by (simp add: errors_Join_def)

section \<open>Operations that may fail and change the state\<close>

text \<open>
  \<open>('s, 'a) op\<close> is a Go call with a result \<open>(T, error)\<close>: it takes the state and gives
  back the error or the value, and the state it leaves. \<open>attempt m h k\<close> is
  \<open>x, err := m(); if err != nil { h }; k\<close>.
\<close>

type_synonym ('s, 'a) op = "'s \<Rightarrow> (error + 'a) \<times> 's"

definition ok :: "'a \<Rightarrow> ('s, 'a) op" where
  "ok a s = (Inr a, s)"

definition throw :: "error \<Rightarrow> ('s, 'a) op" where
  "throw e s = (Inl e, s)"

definition attempt :: "('s, 'a) op \<Rightarrow> (error \<Rightarrow> ('s, 'b) op) \<Rightarrow> ('a \<Rightarrow> ('s, 'b) op) \<Rightarrow> ('s, 'b) op" where
  "attempt m h k s = (case m s of (r, s') \<Rightarrow> (case r of Inl e \<Rightarrow> h e s' | Inr a \<Rightarrow> k a s'))"

text \<open>\<open>after f k\<close>: a call without a result, then the rest.\<close>

definition after :: "('s \<Rightarrow> 's) \<Rightarrow> ('s, 'a) op \<Rightarrow> ('s, 'a) op" where
  "after f k s = k (f s)"

lemmas op_defs = ok_def throw_def attempt_def after_def

lemma fst_ok [simp]: "fst (ok a s) = Inr a" and snd_ok [simp]: "snd (ok a s) = s"
  and fst_throw [simp]: "fst (throw e s) = Inl e" and snd_throw [simp]: "snd (throw e s) = s"
  by (simp_all add: op_defs)

lemma ok_eq [simp]: "ok a s = (r, t) \<longleftrightarrow> r = Inr a \<and> t = s"
  by (auto simp: op_defs)

lemma throw_eq [simp]: "throw e s = (r, t) \<longleftrightarrow> r = Inl e \<and> t = s"
  by (auto simp: op_defs)

lemma attempt_Inr [simp]: "m s = (Inr a, s1) \<Longrightarrow> attempt m h k s = k a s1"
  by (simp add: attempt_def)

lemma attempt_Inl [simp]: "m s = (Inl e, s1) \<Longrightarrow> attempt m h k s = h e s1"
  by (simp add: attempt_def)

text \<open>A result of an \<open>attempt\<close> came from the handler or from the continuation.\<close>

lemma attempt_cases:
  assumes "attempt m h k s = (r, t)"
  obtains (err) e s1 where "m s = (Inl e, s1)" "h e s1 = (r, t)"
    | (val) a s1 where "m s = (Inr a, s1)" "k a s1 = (r, t)"
  using assms by (auto simp: attempt_def split: prod.splits sum.splits)

lemma attempt_throw_InrE:
  assumes "attempt m (\<lambda>e. throw (w e)) k s = (Inr b, t)"
  obtains a s1 where "m s = (Inr a, s1)" "k a s1 = (Inr b, t)"
  using assms by (rule attempt_cases) auto

text \<open>\<open>keeps P m\<close>: whatever \<open>m\<close> returns, it leaves \<open>P\<close> true.\<close>

definition keeps :: "('s \<Rightarrow> bool) \<Rightarrow> ('s, 'a) op \<Rightarrow> bool" where
  "keeps P m \<longleftrightarrow> (\<forall>s. P s \<longrightarrow> P (snd (m s)))"

definition keeps_fun :: "('s \<Rightarrow> bool) \<Rightarrow> ('s \<Rightarrow> 's) \<Rightarrow> bool" where
  "keeps_fun P f \<longleftrightarrow> (\<forall>s. P s \<longrightarrow> P (f s))"

lemma keepsD: "keeps P m \<Longrightarrow> P s \<Longrightarrow> m s = (r, t) \<Longrightarrow> P t"
  by (metis keeps_def snd_conv)

lemma keepsI: "(\<And>s r t. P s \<Longrightarrow> m s = (r, t) \<Longrightarrow> P t) \<Longrightarrow> keeps P m"
  by (metis keeps_def prod.collapse)

lemma keeps_ok [keeps_rules, intro]: "keeps P (ok a)"
  by (simp add: keeps_def)

lemma keeps_throw [keeps_rules, intro]: "keeps P (throw e)"
  by (simp add: keeps_def)

lemma keeps_attempt [keeps_rules]:
  "keeps P m \<Longrightarrow> (\<And>e. keeps P (h e)) \<Longrightarrow> (\<And>a. keeps P (k a)) \<Longrightarrow> keeps P (attempt m h k)"
  by (fastforce simp: keeps_def attempt_def split: prod.splits sum.splits)

lemma keeps_after [keeps_rules]: "keeps_fun P f \<Longrightarrow> keeps P k \<Longrightarrow> keeps P (after f k)"
  by (simp add: keeps_def keeps_fun_def after_def)

lemma keeps_If [keeps_rules]: "keeps P m \<Longrightarrow> keeps P m' \<Longrightarrow> keeps P (if b then m else m')"
  by simp

section \<open>Integers, time and floating point\<close>

type_synonym u64 = "64 word"
type_synonym i64 = "64 word"

text \<open>
  A \<open>time.Time\<close> is the number of nanoseconds since the zero time (January 1, year 1, UTC), a
  \<open>time.Duration\<close> a number of nanoseconds. \<open>time.Unix\<close> adds the offset of the Unix epoch
  in 64-bit arithmetic, and \<open>Sub\<close> saturates at the ends of the duration range.
\<close>

type_synonym time = int
type_synonym duration = int

abbreviation (input) zero_time :: time where
  "zero_time \<equiv> 0"

definition nanosecond :: duration where
  "nanosecond = 1"

definition millisecond :: duration where
  "millisecond = 1000000"

definition second :: duration where
  "second = 1000000000"

definition minute :: duration where
  "minute = 60000000000"

definition hour :: duration where
  "hour = 3600000000000"

lemmas duration_defs = nanosecond_def millisecond_def second_def minute_def hour_def

definition min_duration :: duration where
  "min_duration = - (2 ^ 63)"

definition max_duration :: duration where
  "max_duration = 2 ^ 63 - 1"

definition time_sub :: "time \<Rightarrow> time \<Rightarrow> duration" where
  "time_sub t u = max min_duration (min max_duration (t - u))"

definition time_unix :: "i64 \<Rightarrow> time" where
  "time_unix sec = sint (sec + 62135596800) * second"

lemma time_sub_le_iff: "min_duration \<le> d \<Longrightarrow> d < max_duration \<Longrightarrow> time_sub t u \<le> d \<longleftrightarrow> t - u \<le> d"
  by (auto simp: time_sub_def)

text \<open>
  A \<open>float64\<close> is a finite value, an infinity or a NaN; the code only compares them. A NaN
  makes every comparison false.
\<close>

datatype float64 = Fin rat | PosInf | NegInf | NaN

fun float_less :: "float64 \<Rightarrow> float64 \<Rightarrow> bool" where
  "float_less NaN _ = False"
| "float_less _ NaN = False"
| "float_less (Fin x) (Fin y) = (x < y)"
| "float_less NegInf y = (y \<noteq> NegInf)"
| "float_less PosInf _ = False"
| "float_less (Fin x) y = (y = PosInf)"

fun float_le :: "float64 \<Rightarrow> float64 \<Rightarrow> bool" where
  "float_le NaN _ = False"
| "float_le _ NaN = False"
| "float_le (Fin x) (Fin y) = (x \<le> y)"
| "float_le NegInf _ = True"
| "float_le PosInf y = (y = PosInf)"
| "float_le (Fin x) y = (y = PosInf)"

end
