(* ===== verification/GoStrings.thy ===== *)
theory GoStrings
  imports Prelude
begin

text \<open>
  The parts of Go's \<open>strings\<close>, \<open>strconv\<close>, \<open>fmt\<close> and \<open>encoding/hex\<close> the program
  calls. A Go string is a sequence of bytes and so is a \<open>string\<close> here. White space is
  Unicode white space in UTF-8: every encoding of it starts with a byte that occurs nowhere
  inside another encoding, so matching byte prefixes (suffixes, from the right) is what
  decoding rune by rune does. Four results depend on Unicode tables when a string has a
  byte above 127 (the lower and upper case forms, the quoted form, the number of runes);
  those are the parameter \<open>unicode\<close>, and everything on ASCII strings is computed here.
\<close>

section \<open>Characters\<close>

definition is_digit :: "char \<Rightarrow> bool" where
  "is_digit c \<longleftrightarrow> 48 \<le> (of_char c :: nat) \<and> (of_char c :: nat) \<le> 57"

definition is_hex_char :: "char \<Rightarrow> bool" where
  "is_hex_char c \<longleftrightarrow> (48 \<le> (of_char c :: nat) \<and> (of_char c :: nat) \<le> 57)
     \<or> (97 \<le> (of_char c :: nat) \<and> (of_char c :: nat) \<le> 102)
     \<or> (65 \<le> (of_char c :: nat) \<and> (of_char c :: nat) \<le> 70)"

definition ascii_lower :: "char \<Rightarrow> char" where
  "ascii_lower c = (if 65 \<le> (of_char c :: nat) \<and> (of_char c :: nat) \<le> 90
     then char_of ((of_char c :: nat) + 32) else c)"

definition ascii_upper :: "char \<Rightarrow> char" where
  "ascii_upper c = (if 97 \<le> (of_char c :: nat) \<and> (of_char c :: nat) \<le> 122
     then char_of ((of_char c :: nat) - 32) else c)"

definition is_ascii :: "string \<Rightarrow> bool" where
  "is_ascii s \<longleftrightarrow> list_all (\<lambda>c. (of_char c :: nat) < 128) s"

section \<open>White space, prefixes and pieces\<close>

text \<open>The length of the white-space rune at the head of a string, 0 when there is none.\<close>

definition space_len :: "string \<Rightarrow> nat" where
  "space_len s = (case s of [] \<Rightarrow> 0
     | a # s1 \<Rightarrow> (let x = (of_char a :: nat) in
         if (9 \<le> x \<and> x \<le> 13) \<or> x = 32 then 1
         else (case s1 of [] \<Rightarrow> 0
           | b # s2 \<Rightarrow> (let y = (of_char b :: nat) in
               if x = 194 \<and> (y = 133 \<or> y = 160) then 2
               else (case s2 of [] \<Rightarrow> 0
                 | c # _ \<Rightarrow> (let z = (of_char c :: nat) in
                     if (x = 225 \<and> y = 154 \<and> z = 128)
                       \<or> (x = 226 \<and> y = 128 \<and> ((128 \<le> z \<and> z \<le> 138) \<or> z = 168 \<or> z = 169 \<or> z = 175))
                       \<or> (x = 226 \<and> y = 129 \<and> z = 159)
                       \<or> (x = 227 \<and> y = 128 \<and> z = 128)
                     then 3 else 0))))))"

text \<open>The same at the end, on the reversed string.\<close>

definition space_len_rev :: "string \<Rightarrow> nat" where
  "space_len_rev r =
     (if 1 \<le> length r \<and> space_len (rev (take 1 r)) = 1 then 1
      else if 2 \<le> length r \<and> space_len (rev (take 2 r)) = 2 then 2
      else if 3 \<le> length r \<and> space_len (rev (take 3 r)) = 3 then 3 else 0)"

lemma space_len_Nil [simp]: "space_len [] = 0"
  by (simp add: space_len_def)

lemma space_len_rev_Nil [simp]: "space_len_rev [] = 0"
  by (simp add: space_len_rev_def)

lemma drop_space_less: "space_len s \<noteq> 0 \<Longrightarrow> length (drop (space_len s) s) < length s"
  by (cases s) auto

lemma drop_space_rev_less: "space_len_rev s \<noteq> 0 \<Longrightarrow> length (drop (space_len_rev s) s) < length s"
  by (cases s) auto

function trim_left :: "string \<Rightarrow> string" where
  "trim_left s = (if space_len s = 0 then s else trim_left (drop (space_len s) s))"
  by pat_completeness auto
termination
  by (relation "measure length") (simp_all add: drop_space_less del: length_drop)

function trim_left_rev :: "string \<Rightarrow> string" where
  "trim_left_rev r = (if space_len_rev r = 0 then r else trim_left_rev (drop (space_len_rev r) r))"
  by pat_completeness auto
termination
  by (relation "measure length") (simp_all add: drop_space_rev_less del: length_drop)

declare trim_left.simps [simp del] trim_left_rev.simps [simp del]

definition TrimSpace :: "string \<Rightarrow> string" where
  "TrimSpace s = rev (trim_left_rev (rev (trim_left s)))"

function fields_from :: "string \<Rightarrow> string \<Rightarrow> string list" where
  "fields_from acc s =
     (if s = [] then (if acc = [] then [] else [acc])
      else if space_len s = 0 then fields_from (acc @ [hd s]) (tl s)
      else (if acc = [] then [] else [acc]) @ fields_from [] (drop (space_len s) s))"
  by pat_completeness auto
termination
  by (relation "measure (\<lambda>(acc, s). length s)") (simp_all add: drop_space_less del: length_drop)

declare fields_from.simps [simp del]

definition Fields :: "string \<Rightarrow> string list" where
  "Fields s = fields_from [] s"

definition HasPrefix :: "string \<Rightarrow> string \<Rightarrow> bool" where
  "HasPrefix s p \<longleftrightarrow> take (length p) s = p"

definition TrimPrefix :: "string \<Rightarrow> string \<Rightarrow> string" where
  "TrimPrefix s p = (if HasPrefix s p then drop (length p) s else s)"

definition HasSuffix :: "string \<Rightarrow> string \<Rightarrow> bool" where
  "HasSuffix s p \<longleftrightarrow> HasPrefix (rev s) (rev p)"

definition TrimSuffix :: "string \<Rightarrow> string \<Rightarrow> string" where
  "TrimSuffix s p = (if HasSuffix s p then take (length s - length p) s else s)"

text \<open>\<open>strings.TrimRight(s, "0")\<close>, the only cut set the source uses.\<close>

definition TrimRightZeros :: "string \<Rightarrow> string" where
  "TrimRightZeros s = rev (dropWhile (\<lambda>c. c = CHR ''0'') (rev s))"

fun Contains :: "string \<Rightarrow> string \<Rightarrow> bool" where
  "Contains [] p \<longleftrightarrow> p = []"
| "Contains (c # s) p \<longleftrightarrow> HasPrefix (c # s) p \<or> Contains s p"

fun split_on :: "char \<Rightarrow> string \<Rightarrow> string list" where
  "split_on sep [] = [[]]"
| "split_on sep (c # s) =
     (if c = sep then [] # split_on sep s
      else (case split_on sep s of [] \<Rightarrow> [[c]] | p # ps \<Rightarrow> (c # p) # ps))"

section \<open>Unicode-dependent results\<close>

record unicode =
  uni_lower :: "string \<Rightarrow> string"
  uni_quote :: "string \<Rightarrow> string"
  uni_upper :: "string \<Rightarrow> string"
  uni_runes :: "string \<Rightarrow> nat"

text \<open>One concrete choice of the tables, for evaluating examples.\<close>

definition ascii_tables :: unicode where
  "ascii_tables = \<lparr>uni_lower = (\<lambda>s. s), uni_quote = (\<lambda>s. s), uni_upper = (\<lambda>s. s), uni_runes = length\<rparr>"

definition ToLower :: "unicode \<Rightarrow> string \<Rightarrow> string" where
  "ToLower U s = (if is_ascii s then map ascii_lower s else uni_lower U s)"

definition ToUpper :: "unicode \<Rightarrow> string \<Rightarrow> string" where
  "ToUpper U s = (if is_ascii s then map ascii_upper s else uni_upper U s)"

text \<open>The verb \<open>%-ns\<close>: spaces on the right up to \<open>n\<close> runes.\<close>

definition pad_right :: "unicode \<Rightarrow> nat \<Rightarrow> string \<Rightarrow> string" where
  "pad_right U n s = s @ replicate (n - (if is_ascii s then length s else uni_runes U s)) (CHR '' '')"

definition hex_digit :: "nat \<Rightarrow> char" where
  "hex_digit n = (if n < 10 then char_of (48 + n) else char_of (87 + n))"

definition quote_char :: "char \<Rightarrow> string" where
  "quote_char c = (let n = (of_char c :: nat) in
     if n = 34 \<or> n = 92 then [CHR 0x5C, c]
     else if n = 7 then [CHR 0x5C, CHR ''a'']
     else if n = 8 then [CHR 0x5C, CHR ''b'']
     else if n = 9 then [CHR 0x5C, CHR ''t'']
     else if n = 10 then [CHR 0x5C, CHR ''n'']
     else if n = 11 then [CHR 0x5C, CHR ''v'']
     else if n = 12 then [CHR 0x5C, CHR ''f'']
     else if n = 13 then [CHR 0x5C, CHR ''r'']
     else if n < 32 \<or> n = 127 then [CHR 0x5C, CHR ''x'', hex_digit (n div 16), hex_digit (n mod 16)]
     else [c])"

text \<open>\<open>strconv.Quote\<close>, what \<open>%q\<close> prints of a string.\<close>

definition Quote :: "unicode \<Rightarrow> string \<Rightarrow> string" where
  "Quote U s = (if is_ascii s then [CHR 0x22] @ concat (map quote_char s) @ [CHR 0x22] else uni_quote U s)"

section \<open>Decimal and hexadecimal\<close>

definition digit_char :: "nat \<Rightarrow> char" where
  "digit_char d = char_of (48 + d)"

definition digit_val :: "char \<Rightarrow> nat" where
  "digit_val c = of_char c - 48"

fun dec_nat :: "nat \<Rightarrow> string" where
  "dec_nat n = (if n < 10 then [digit_char n] else dec_nat (n div 10) @ [digit_char (n mod 10)])"

declare dec_nat.simps [simp del]

text \<open>\<open>%d\<close> of an integer, and \<open>big.Int.String\<close>.\<close>

definition dec_int :: "int \<Rightarrow> string" where
  "dec_int z = (if z < 0 then CHR ''-'' # dec_nat (nat (- z)) else dec_nat (nat z))"

definition digits_val :: "string \<Rightarrow> nat" where
  "digits_val s = foldl (\<lambda>n c. 10 * n + digit_val c) 0 s"

definition all_digits :: "string \<Rightarrow> bool" where
  "all_digits s \<longleftrightarrow> s \<noteq> [] \<and> list_all is_digit s"

text \<open>\<open>strconv.ParseInt(s, 10, 64)\<close>: an optional sign, decimal digits, a range check.\<close>

definition ParseInt64 :: "string \<Rightarrow> int option" where
  "ParseInt64 s =
     (let neg = (case s of c # _ \<Rightarrow> c = CHR ''-'' | [] \<Rightarrow> False);
          body = (case s of c # t \<Rightarrow> if c = CHR ''-'' \<or> c = CHR ''+'' then t else s | [] \<Rightarrow> [])
      in if \<not> all_digits body then None
         else (let n = int (digits_val body); z = (if neg then - n else n)
               in if - (2 ^ 63) \<le> z \<and> z < 2 ^ 63 then Some z else None))"

text \<open>\<open>strconv.ParseUint(s, 10, 64)\<close>: no sign.\<close>

definition ParseUint64 :: "string \<Rightarrow> nat option" where
  "ParseUint64 s = (if \<not> all_digits s then None
     else if digits_val s < 2 ^ 64 then Some (digits_val s) else None)"

definition hex_val :: "char \<Rightarrow> nat option" where
  "hex_val c = (let n = (of_char c :: nat) in
     if 48 \<le> n \<and> n \<le> 57 then Some (n - 48)
     else if 97 \<le> n \<and> n \<le> 102 then Some (n - 87)
     else if 65 \<le> n \<and> n \<le> 70 then Some (n - 55)
     else None)"

fun hex_DecodeString :: "string \<Rightarrow> string option" where
  "hex_DecodeString [] = Some []"
| "hex_DecodeString [_] = None"
| "hex_DecodeString (a # b # s) =
     (case (hex_val a, hex_val b, hex_DecodeString s) of
        (Some x, Some y, Some t) \<Rightarrow> Some (char_of (16 * x + y) # t)
      | _ \<Rightarrow> None)"

section \<open>Facts\<close>

lemma of_char_inj [simp]: "(of_char c :: nat) = of_char d \<longleftrightarrow> c = d"
  by (metis char_of_char)

lemma of_char_lt_256 [simp]: "(of_char c :: nat) < 256"
  by (metis of_char_of char_of_char mod_less_divisor zero_less_numeral)

lemma hex_char_range: "is_hex_char c \<Longrightarrow> (of_char c :: nat) < 128 \<and> 48 \<le> (of_char c :: nat)"
  by (auto simp: is_hex_char_def)

lemma digit_is_hex: "is_digit c \<Longrightarrow> is_hex_char c"
  by (auto simp: is_digit_def is_hex_char_def)

lemma ascii_lower_hex: "is_hex_char c \<Longrightarrow> is_hex_char (ascii_lower c)"
  by (auto simp: is_hex_char_def ascii_lower_def of_char_of)

lemma ascii_lower_idem [simp]: "ascii_lower (ascii_lower c) = ascii_lower c"
  by (auto simp: ascii_lower_def of_char_of)

lemma ascii_lower_not_upper: "\<not> (65 \<le> (of_char (ascii_lower c) :: nat) \<and> (of_char (ascii_lower c) :: nat) \<le> 90)"
  by (auto simp: ascii_lower_def of_char_of)

lemma ascii_lower_ascii: "(of_char c :: nat) < 128 \<Longrightarrow> (of_char (ascii_lower c) :: nat) < 128"
  by (auto simp: ascii_lower_def of_char_of)

lemma ToLower_ascii: "is_ascii s \<Longrightarrow> ToLower U s = map ascii_lower s"
  by (simp add: ToLower_def)

lemma is_ascii_map_lower: "is_ascii s \<Longrightarrow> is_ascii (map ascii_lower s)"
  by (auto simp: is_ascii_def list_all_iff ascii_lower_ascii)

text \<open>A visible ASCII character at an end of the string stops the trimming there.\<close>

lemma space_len_visible: "33 \<le> (of_char c :: nat) \<Longrightarrow> (of_char c :: nat) < 128 \<Longrightarrow> space_len (c # s) = 0"
  by (auto simp: space_len_def Let_def split: list.splits)

lemma space_len_suffix_visible:
  assumes "33 \<le> (of_char c :: nat)" "(of_char c :: nat) < 128"
  shows "space_len_rev (c # r) = 0"
proof -
  have "space_len [b, c] \<noteq> 2" for b
    using assms by (auto simp: space_len_def Let_def)
  moreover have "space_len [a, b, c] \<noteq> 3" for a b
    using assms by (auto simp: space_len_def Let_def)
  moreover have "space_len [c] \<noteq> 1"
    using assms by (simp add: space_len_visible)
  ultimately show ?thesis
    by (cases r; cases "tl r") (auto simp: space_len_rev_def numeral_2_eq_2 numeral_3_eq_3)
qed

lemma TrimSpace_visible:
  assumes "s \<noteq> []" "33 \<le> (of_char (hd s) :: nat)" "(of_char (hd s) :: nat) < 128"
    "33 \<le> (of_char (last s) :: nat)" "(of_char (last s) :: nat) < 128"
  shows "TrimSpace s = s"
proof -
  have "space_len s = 0"
    using assms by (cases s) (auto simp: space_len_visible)
  then have l: "trim_left s = s" by (simp add: trim_left.simps)
  have r: "rev s = last s # rev (butlast s)"
    using assms(1) by (metis append_butlast_last_id rev_eq_Cons_iff rev_rev_ident)
  have "space_len_rev (rev s) = 0"
    unfolding r using assms by (simp add: space_len_suffix_visible)
  with l show ?thesis by (simp add: TrimSpace_def trim_left_rev.simps)
qed

text \<open>Trimming drops no visible ASCII character.\<close>

lemma space_len_invisible:
  "c \<in> set (take (space_len s) s) \<Longrightarrow> (of_char c :: nat) < 33 \<or> 128 \<le> (of_char c :: nat)"
  by (auto simp: space_len_def Let_def numeral_2_eq_2 numeral_3_eq_3 split: list.splits if_splits)

lemma space_len_rev_invisible:
  "c \<in> set (take (space_len_rev r) r) \<Longrightarrow> (of_char c :: nat) < 33 \<or> 128 \<le> (of_char c :: nat)"
  using space_len_invisible [of c "rev (take 1 r)"] space_len_invisible [of c "rev (take 2 r)"]
    space_len_invisible [of c "rev (take 3 r)"]
  by (auto simp: space_len_rev_def split: if_splits)

lemma trim_left_keeps:
  assumes "c \<in> set s" "33 \<le> (of_char c :: nat)" "(of_char c :: nat) < 128"
  shows "c \<in> set (trim_left s)"
  using assms(1)
proof (induction s rule: trim_left.induct)
  case (1 s)
  have "c \<in> set (take (space_len s) s @ drop (space_len s) s)" using "1.prems" by simp
  then have "c \<in> set (drop (space_len s) s)"
    unfolding set_append using space_len_invisible [of c s] assms(2,3) by force
  with "1.IH" "1.prems" show ?case by (cases "space_len s = 0") (simp_all add: trim_left.simps [of s])
qed

lemma trim_left_rev_keeps:
  assumes "c \<in> set r" "33 \<le> (of_char c :: nat)" "(of_char c :: nat) < 128"
  shows "c \<in> set (trim_left_rev r)"
  using assms(1)
proof (induction r rule: trim_left_rev.induct)
  case (1 r)
  have "c \<in> set (take (space_len_rev r) r @ drop (space_len_rev r) r)" using "1.prems" by simp
  then have "c \<in> set (drop (space_len_rev r) r)"
    unfolding set_append using space_len_rev_invisible [of c r] assms(2,3) by force
  with "1.IH" "1.prems" show ?case by (cases "space_len_rev r = 0") (simp_all add: trim_left_rev.simps [of r])
qed

lemma TrimSpace_keeps_visible:
  "c \<in> set s \<Longrightarrow> 33 \<le> (of_char c :: nat) \<Longrightarrow> (of_char c :: nat) < 128 \<Longrightarrow> c \<in> set (TrimSpace s)"
  by (simp add: TrimSpace_def trim_left_keeps trim_left_rev_keeps)

lemma HasPrefix_append [simp]: "HasPrefix (p @ s) p"
  by (simp add: HasPrefix_def)

lemma HasPrefix_iff: "HasPrefix s p \<longleftrightarrow> (\<exists>t. s = p @ t)"
  by (metis HasPrefix_append HasPrefix_def append_take_drop_id)

lemma TrimPrefix_append [simp]: "TrimPrefix (p @ s) p = s"
  by (simp add: TrimPrefix_def)

lemma TrimSuffix_append [simp]: "TrimSuffix (s @ p) p = s"
  by (simp add: TrimSuffix_def HasSuffix_def)

lemma Contains_append: "Contains (a @ p @ b) p"
proof (induction a)
  case Nil
  have "HasPrefix (p @ b) p" by simp
  then show ?case by (cases "p @ b") auto
qed simp

lemma Contains_HasPrefix: "HasPrefix s p \<Longrightarrow> Contains s p"
  using Contains_append [of "[]" p] by (auto simp: HasPrefix_iff)

lemma split_on_nonempty [simp]: "split_on sep s \<noteq> []"
  by (induction s) (auto split: list.splits)

lemma str_join_split_on: "str_join [sep] (split_on sep s) = s"
proof (induction s)
  case (Cons c s)
  then show ?case by (cases "split_on sep s"; cases "tl (split_on sep s)") auto
qed simp

lemma split_on_no_sep: "p \<in> set (split_on sep s) \<Longrightarrow> sep \<notin> set p"
proof (induction s arbitrary: p)
  case (Cons c s)
  then show ?case by (cases "split_on sep s") (auto split: if_splits)
qed simp

lemma split_on_append:
  "sep \<notin> set p \<Longrightarrow> split_on sep (p @ sep # s) = p # split_on sep s"
  by (induction p) auto

lemma split_on_single: "sep \<notin> set p \<Longrightarrow> split_on sep p = [p]"
  by (induction p) auto

lemma split_on_str_join:
  "ps \<noteq> [] \<Longrightarrow> \<forall>p \<in> set ps. sep \<notin> set p \<Longrightarrow> split_on sep (str_join [sep] ps) = ps"
proof (induction ps rule: induct_list012)
  case (3 p q ps)
  then show ?case by (simp add: split_on_append)
qed (simp_all add: split_on_single)

lemma digit_char_digit: "d < 10 \<Longrightarrow> is_digit (digit_char d)"
  by (simp add: is_digit_def digit_char_def of_char_of)

lemma digit_val_char: "d < 10 \<Longrightarrow> digit_val (digit_char d) = d"
  by (simp add: digit_val_def digit_char_def of_char_of)

lemma dec_nat_all_digits: "all_digits (dec_nat n)"
proof (induction n rule: dec_nat.induct)
  case (1 n)
  then show ?case
    by (subst dec_nat.simps) (auto simp: all_digits_def digit_char_digit)
qed

lemma dec_nat_nonempty [simp]: "dec_nat n \<noteq> []"
  using dec_nat_all_digits by (auto simp: all_digits_def)

lemma digits_val_append: "digits_val (s @ [c]) = 10 * digits_val s + digit_val c"
  by (simp add: digits_val_def)

lemma digits_val_dec_nat [simp]: "digits_val (dec_nat n) = n"
proof (induction n rule: dec_nat.induct)
  case (1 n)
  show ?case
  proof (cases "n < 10")
    case True
    then show ?thesis by (subst dec_nat.simps) (simp add: digits_val_def digit_val_char)
  next
    case False
    with 1 show ?thesis by (subst dec_nat.simps) (simp add: digits_val_append digit_val_char)
  qed
qed

lemma dec_nat_inj [simp]: "dec_nat m = dec_nat n \<longleftrightarrow> m = n"
  by (metis digits_val_dec_nat)

lemma dec_nat_head_digit: "\<exists>c s. dec_nat n = c # s \<and> is_digit c"
  using dec_nat_all_digits [of n] by (cases "dec_nat n") (auto simp: all_digits_def)

lemma ParseInt64_dec_int:
  assumes "- (2 ^ 63) \<le> z" "z < 2 ^ 63"
  shows "ParseInt64 (dec_int z) = Some z"
proof (cases "z < 0")
  case True
  with assms show ?thesis
    by (simp add: ParseInt64_def dec_int_def dec_nat_all_digits Let_def)
next
  case False
  obtain c s where c: "dec_nat (nat z) = c # s" "is_digit c"
    using dec_nat_head_digit by blast
  then have "c \<noteq> CHR ''-''" "c \<noteq> CHR ''+''"
    by (auto simp: is_digit_def)
  with False assms c show ?thesis
    using dec_nat_all_digits [of "nat z"] digits_val_dec_nat [of "nat z"]
    by (simp add: ParseInt64_def dec_int_def Let_def)
qed

lemma ParseInt64_range: "ParseInt64 s = Some z \<Longrightarrow> - (2 ^ 63) \<le> z \<and> z < 2 ^ 63"
  by (auto simp: ParseInt64_def Let_def split: if_splits)

lemma ParseUint64_dec_nat: "n < 2 ^ 64 \<Longrightarrow> ParseUint64 (dec_nat n) = Some n"
  by (simp add: ParseUint64_def dec_nat_all_digits)

end
