(* ===== verification/DomainChain.thy ===== *)
theory DomainChain
  imports GoStrings
begin

text \<open>
  \<open>internal/domain/chain.go\<close>: chain names, EVM addresses and hashes in their canonical
  lower-case form, block references and their staleness, and native-token amounts (\<open>Wei\<close>)
  with their decimal rendering in ether.
\<close>

section \<open>Chains\<close>

definition ChainIDMainnet :: u64 where
  "ChainIDMainnet = 4663"

definition ChainIDTestnet :: u64 where
  "ChainIDTestnet = 46630"

definition ChainName :: "u64 \<Rightarrow> string" where
  "ChainName i =
     (if i = ChainIDMainnet then ''robinhood-mainnet''
      else if i = ChainIDTestnet then ''robinhood-testnet''
      else ''chain-'' @ dec_nat (unat i))"

section \<open>Addresses and hashes\<close>

type_synonym Address = string
type_synonym Hash = string

text \<open>The regular expression \<open>^0x[0-9a-fA-F]{n}$\<close>.\<close>

definition hex_re :: "nat \<Rightarrow> string \<Rightarrow> bool" where
  "hex_re n s \<longleftrightarrow> HasPrefix s ''0x'' \<and> length s = n + 2 \<and> list_all is_hex_char (drop 2 s)"

definition addressRe :: "string \<Rightarrow> bool" where
  "addressRe s \<longleftrightarrow> hex_re 40 s"

definition hashRe :: "string \<Rightarrow> bool" where
  "hashRe s \<longleftrightarrow> hex_re 64 s"

definition ParseAddress :: "unicode \<Rightarrow> string \<Rightarrow> error + Address" where
  "ParseAddress U s =
     (let s = TrimSpace s in
      if \<not> addressRe s then Inl (New (''invalid evm address '' @ Quote U s))
      else Inr (ToLower U s))"

definition zero_address :: Address where
  "zero_address = ''0x'' @ replicate 40 (CHR ''0'')"

definition Address_IsZero :: "Address \<Rightarrow> bool" where
  "Address_IsZero a \<longleftrightarrow> a = zero_address"

definition ParseHash :: "unicode \<Rightarrow> string \<Rightarrow> error + Hash" where
  "ParseHash U s =
     (let s = TrimSpace s in
      if \<not> hashRe s then Inl (New (''invalid hash '' @ Quote U s))
      else Inr (ToLower U s))"

section \<open>Blocks\<close>

record BlockRef =
  Block_Number :: u64
  Block_Hash :: Hash
  Block_ParentHash :: Hash
  Block_Time :: time

definition zero_BlockRef :: BlockRef where
  "zero_BlockRef = \<lparr>Block_Number = 0, Block_Hash = [], Block_ParentHash = [], Block_Time = zero_time\<rparr>"

definition IsStale :: "BlockRef \<Rightarrow> time \<Rightarrow> duration \<Rightarrow> bool" where
  "IsStale b now maxAge =
     (if Block_Time b = zero_time then True else time_sub now (Block_Time b) > maxAge)"

section \<open>Native amounts\<close>

text \<open>The struct holds a pointer to a \<open>big.Int\<close>; its zero value holds nil.\<close>

datatype Wei = Wei "int option"

definition NewWei :: "int option \<Rightarrow> Wei" where
  "NewWei i = (case i of None \<Rightarrow> Wei (Some 0) | Some v \<Rightarrow> if v < 0 then Wei (Some 0) else Wei (Some v))"

fun BigInt :: "Wei \<Rightarrow> int" where
  "BigInt (Wei None) = 0"
| "BigInt (Wei (Some v)) = v"

fun Wei_IsZero :: "Wei \<Rightarrow> bool" where
  "Wei_IsZero (Wei None) = True"
| "Wei_IsZero (Wei (Some v)) = (v = 0)"

definition Wei_String :: "Wei \<Rightarrow> string" where
  "Wei_String w = dec_int (BigInt w)"

text \<open>\<open>big.Int.QuoRem\<close> truncates towards zero; \<open>%018s\<close> pads on the left with zeros.\<close>

definition quo_rem :: "int \<Rightarrow> int \<Rightarrow> int \<times> int" where
  "quo_rem a b = (let q = sgn a * sgn b * (\<bar>a\<bar> div \<bar>b\<bar>) in (q, a - q * b))"

definition pad_zeros :: "nat \<Rightarrow> string \<Rightarrow> string" where
  "pad_zeros n s = replicate (n - length s) (CHR ''0'') @ s"

definition Ether :: "Wei \<Rightarrow> string" where
  "Ether w =
     (let (whole, frac) = quo_rem (BigInt w) (10 ^ 18);
          s = dec_int whole @ ''.'' @ pad_zeros 18 (dec_int frac);
          s = TrimRightZeros s
      in TrimSuffix s ''.'')"

section \<open>Facts\<close>

subsection \<open>Canonical hexadecimal\<close>

text \<open>The form the schema's CHECK constraints ask for: \<open>^0x[0-9a-f]{n}$\<close>.\<close>

definition lower_hex_re :: "nat \<Rightarrow> string \<Rightarrow> bool" where
  "lower_hex_re n s \<longleftrightarrow> hex_re n s \<and> map ascii_lower s = s"

lemma hex_re_parts: "hex_re n s \<longleftrightarrow> (\<exists>t. s = ''0x'' @ t \<and> length t = n \<and> list_all is_hex_char t)"
  by (auto simp: hex_re_def HasPrefix_iff)

lemma hex_re_ascii: "hex_re n s \<Longrightarrow> is_ascii s"
  using hex_char_range by (fastforce simp: hex_re_parts is_ascii_def list_all_iff)

lemma hex_re_TrimSpace:
  assumes "hex_re n s"
  shows "TrimSpace s = s"
proof -
  obtain t where t: "s = ''0x'' @ t" "list_all is_hex_char t"
    using assms by (auto simp: hex_re_parts)
  then have "33 \<le> (of_char (last s) :: nat) \<and> (of_char (last s) :: nat) < 128"
    using hex_char_range [of "last t"] by (cases "t = []") (auto simp: list_all_iff)
  with t show ?thesis by (intro TrimSpace_visible) auto
qed

lemma lower_hex_map: "hex_re n s \<Longrightarrow> lower_hex_re n (map ascii_lower s)"
proof -
  assume "hex_re n s"
  then obtain t where "s = ''0x'' @ t" "length t = n" "list_all is_hex_char t"
    by (auto simp: hex_re_parts)
  moreover have "map ascii_lower ''0x'' = ''0x''" by (simp add: ascii_lower_def)
  ultimately show ?thesis
    by (auto simp: lower_hex_re_def hex_re_parts ascii_lower_hex list_all_iff)
qed

lemma lower_hex_ToLower: "lower_hex_re n s \<Longrightarrow> ToLower U s = s"
  using hex_re_ascii by (auto simp: lower_hex_re_def ToLower_def)

lemma ParseAddress_Inr:
  "ParseAddress U s = Inr a \<longleftrightarrow> addressRe (TrimSpace s) \<and> a = map ascii_lower (TrimSpace s)"
  by (auto simp: ParseAddress_def addressRe_def ToLower_def hex_re_ascii Let_def)

lemma ParseHash_Inr:
  "ParseHash U s = Inr a \<longleftrightarrow> hashRe (TrimSpace s) \<and> a = map ascii_lower (TrimSpace s)"
  by (auto simp: ParseHash_def hashRe_def ToLower_def hex_re_ascii Let_def)

lemma ParseAddress_lower: "ParseAddress U s = Inr a \<Longrightarrow> lower_hex_re 40 a"
  by (simp add: ParseAddress_Inr addressRe_def lower_hex_map)

lemma ParseHash_lower: "ParseHash U s = Inr a \<Longrightarrow> lower_hex_re 64 a"
  by (simp add: ParseHash_Inr hashRe_def lower_hex_map)

lemma ParseAddress_canonical: "lower_hex_re 40 a \<Longrightarrow> ParseAddress U a = Inr a"
  by (auto simp: ParseAddress_Inr addressRe_def lower_hex_re_def hex_re_TrimSpace)

lemma ParseHash_canonical: "lower_hex_re 64 a \<Longrightarrow> ParseHash U a = Inr a"
  by (auto simp: ParseHash_Inr hashRe_def lower_hex_re_def hex_re_TrimSpace)

text \<open>
  C37. An address is accepted exactly when, without surrounding white space, it is
  \<open>0x\<close> and forty hexadecimal digits. The result is its lower-case form, which the
  database's format constraint accepts and which parses to itself; and two accepted
  spellings give one address exactly when they differ at most in letter case.
\<close>

theorem ParseAddress_canonical_form:
  assumes "ParseAddress U s = Inr a"
  shows "addressRe (TrimSpace s) \<and> lower_hex_re 40 a \<and> ParseAddress U a = Inr a
    \<and> (\<forall>s'. addressRe (TrimSpace s') \<longrightarrow>
         (ParseAddress U s' = Inr a \<longleftrightarrow>
          map ascii_lower (TrimSpace s') = map ascii_lower (TrimSpace s)))"
  using assms ParseAddress_lower [OF assms] ParseAddress_canonical
  by (auto simp: ParseAddress_Inr)

theorem ParseAddress_canonical_form_witness:
  "ParseAddress ascii_tables (''0x'' @ replicate 40 (CHR ''a'')) = Inr (''0x'' @ replicate 40 (CHR ''a''))"
proof -
  have "ParseAddress ascii_tables (''  0x'' @ replicate 40 (CHR ''A'') @ [CHR 0x0A])
      = Inr (''0x'' @ replicate 40 (CHR ''a''))"
    by code_simp
  from ParseAddress_canonical_form [OF this] show ?thesis by blast
qed

subsection \<open>Amounts\<close>

lemma digits_val_zeros: "digits_val (s @ replicate k (CHR ''0'')) = digits_val s * 10 ^ k"
proof (induction k)
  case (Suc k)
  have "replicate (Suc k) (CHR ''0'') = replicate k (CHR ''0'') @ [CHR ''0'']"
    by (simp add: replicate_append_same)
  then have "digits_val (s @ replicate (Suc k) (CHR ''0'')) = 10 * digits_val (s @ replicate k (CHR ''0''))"
    by (simp only: append_assoc [symmetric] digits_val_append) (simp add: digit_val_def)
  with Suc show ?case by simp
qed simp

lemma digits_val_pad: "digits_val (replicate k (CHR ''0'') @ s) = digits_val s"
proof (induction s rule: rev_induct)
  case Nil
  show ?case using digits_val_zeros [of "[]" k] by (simp add: digits_val_def)
next
  case (snoc c s)
  then show ?case by (simp only: append_assoc [symmetric] digits_val_append)
qed

lemma trailing_zeros:
  obtains t k where "s = t @ replicate k (CHR ''0'')" "TrimRightZeros s = t"
    "t = [] \<or> last t \<noteq> CHR ''0''"
proof
  let ?d = "dropWhile (\<lambda>c. c = CHR ''0'') (rev s)"
  let ?z = "takeWhile (\<lambda>c. c = CHR ''0'') (rev s)"
  have z: "?z = replicate (length ?z) (CHR ''0'')"
    by (rule replicate_eqI) (auto dest: set_takeWhileD)
  have "s = rev (?z @ ?d)" by simp
  also have "\<dots> = rev ?d @ rev ?z" by (rule rev_append)
  also have "rev ?z = rev (replicate (length ?z) (CHR ''0''))" using z by (rule arg_cong)
  also have "\<dots> = replicate (length ?z) (CHR ''0'')" by (rule rev_replicate)
  finally show "s = rev ?d @ replicate (length ?z) (CHR ''0'')" .
  show "TrimRightZeros s = rev ?d" by (simp add: TrimRightZeros_def)
  show "rev ?d = [] \<or> last (rev ?d) \<noteq> CHR ''0''"
    using hd_dropWhile [of "\<lambda>c. c = CHR ''0''" "rev s"] by (auto simp: last_rev)
qed

text \<open>
  What a decimal text in ether denotes, in wei: the digits before the point count
  \<open>10 ^ 18\<close> each, the ones after it the remaining powers of ten.
\<close>

definition ether_value :: "string \<Rightarrow> nat" where
  "ether_value s =
     (let w = takeWhile (\<lambda>c. c \<noteq> CHR ''.'') s; f = drop 1 (dropWhile (\<lambda>c. c \<noteq> CHR ''.'') s)
      in digits_val w * 10 ^ 18 + digits_val f * 10 ^ (18 - length f))"

lemma dec_nat_length: "n < 10 ^ Suc k \<Longrightarrow> length (dec_nat n) \<le> Suc k"
proof (induction k arbitrary: n)
  case 0
  then show ?case by (simp add: dec_nat.simps)
next
  case (Suc k)
  then have "n div 10 < 10 ^ Suc k" by auto
  with Suc.IH have "length (dec_nat (n div 10)) \<le> Suc k" by blast
  then show ?case by (subst dec_nat.simps) simp
qed

lemma digits_not_point: "list_all is_digit s \<Longrightarrow> CHR ''.'' \<notin> set s"
  by (auto simp: list_all_iff is_digit_def)

lemma ether_value_parts:
  assumes "list_all is_digit a"
  shows "ether_value (a @ CHR ''.'' # f) = digits_val a * 10 ^ 18 + digits_val f * 10 ^ (18 - length f)"
    and "ether_value a = digits_val a * 10 ^ 18"
proof -
  have "\<forall>c \<in> set a. c \<noteq> CHR ''.''" using digits_not_point [OF assms] by blast
  then have "takeWhile (\<lambda>c. c \<noteq> CHR ''.'') (a @ CHR ''.'' # f) = a"
    "dropWhile (\<lambda>c. c \<noteq> CHR ''.'') (a @ CHR ''.'' # f) = CHR ''.'' # f"
    "takeWhile (\<lambda>c. c \<noteq> CHR ''.'') a = a" "dropWhile (\<lambda>c. c \<noteq> CHR ''.'') a = []"
    by (simp_all add: takeWhile_append2 dropWhile_append2 dropWhile_eq_Nil_conv takeWhile_eq_all_conv)
  then show "ether_value (a @ CHR ''.'' # f) = digits_val a * 10 ^ 18 + digits_val f * 10 ^ (18 - length f)"
    and "ether_value a = digits_val a * 10 ^ 18"
    by (simp_all only: ether_value_def Let_def) (simp_all add: digits_val_def)
qed

lemma TrimRightZeros_point:
  assumes "TrimRightZeros f = t"
  shows "TrimRightZeros (a @ CHR ''.'' # f) = a @ CHR ''.'' # t"
proof -
  have "dropWhile (\<lambda>c. c = CHR ''0'') (rev f @ CHR ''.'' # rev a)
      = dropWhile (\<lambda>c. c = CHR ''0'') (rev f) @ CHR ''.'' # rev a"
    by (simp add: dropWhile_append)
  with assms show ?thesis by (auto simp: TrimRightZeros_def)
qed

lemma TrimSuffix_point:
  "TrimSuffix (a @ CHR ''.'' # t) ''.'' =
     (if t = [] then a else if last t = CHR ''.'' then a @ CHR ''.'' # butlast t else a @ CHR ''.'' # t)"
proof (cases "t = []")
  case True
  then show ?thesis using TrimSuffix_append [of a "''.''"] by simp
next
  case False
  then obtain u c where t: "t = u @ [c]" by (metis append_butlast_last_id)
  then show ?thesis
    using TrimSuffix_append [of "a @ CHR ''.'' # u" "''.''"]
    by (auto simp: TrimSuffix_def HasSuffix_def HasPrefix_def)
qed

lemma ether_value_fixed:
  assumes a: "list_all is_digit a" and f: "list_all is_digit f" "length f = 18"
  shows "ether_value (TrimSuffix (TrimRightZeros (a @ CHR ''.'' # f)) ''.'')
    = digits_val a * 10 ^ 18 + digits_val f"
proof -
  obtain t k where t: "f = t @ replicate k (CHR ''0'')" "TrimRightZeros f = t"
    by (rule trailing_zeros [of f])
  have len: "length t + k = 18" using f t by simp
  have val: "digits_val f = digits_val t * 10 ^ (18 - length t)"
    using t(1) len digits_val_zeros [of t k] by (metis diff_add_inverse)
  have "last t \<noteq> CHR ''.''" if "t \<noteq> []"
    using that f(1) t(1) digits_not_point by (metis Un_iff last_in_set set_append)
  then have "TrimSuffix (TrimRightZeros (a @ CHR ''.'' # f)) ''.'' = (if t = [] then a else a @ CHR ''.'' # t)"
    by (simp add: TrimRightZeros_point [OF t(2)] TrimSuffix_point)
  with val show ?thesis
    by (auto simp: ether_value_parts [OF a] digits_val_def)
qed

text \<open>
  C38. The rendering in ether loses nothing: read back as a decimal number it denotes
  exactly the amount in wei, for every amount (a nil or negative input counts as zero).
\<close>

theorem Ether_exact: "int (ether_value (Ether (NewWei i))) = max 0 (case i of None \<Rightarrow> 0 | Some v \<Rightarrow> v)"
proof -
  define v where "v = BigInt (NewWei i)"
  have v: "v = max 0 (case i of None \<Rightarrow> 0 | Some x \<Rightarrow> x)"
    by (auto simp: v_def NewWei_def split: option.splits)
  define n where "n = nat v"
  have n: "v = int n" using v by (simp add: n_def)
  have "quo_rem v (10 ^ 18) = (int (n div 10 ^ 18), int (n mod 10 ^ 18))"
    by (cases "n = 0") (simp_all add: quo_rem_def n zdiv_int minus_div_mult_eq_mod of_nat_mod sgn_if Let_def)
  then have "Ether (NewWei i) = TrimSuffix (TrimRightZeros
      (dec_nat (n div 10 ^ 18) @ CHR ''.'' # pad_zeros 18 (dec_nat (n mod 10 ^ 18)))) ''.''"
    by (simp add: Ether_def v_def [symmetric] dec_int_def)
  moreover have "list_all is_digit (pad_zeros 18 (dec_nat (n mod 10 ^ 18)))"
    using dec_nat_all_digits by (auto simp: pad_zeros_def all_digits_def list_all_iff is_digit_def)
  moreover have "length (pad_zeros 18 (dec_nat (n mod 10 ^ 18))) = 18"
    using dec_nat_length [of "n mod 10 ^ 18" 17] by (simp add: pad_zeros_def)
  moreover have "digits_val (pad_zeros 18 (dec_nat (n mod 10 ^ 18))) = n mod 10 ^ 18"
    by (simp only: pad_zeros_def digits_val_pad digits_val_dec_nat)
  moreover have "list_all is_digit (dec_nat (n div 10 ^ 18))"
    using dec_nat_all_digits by (auto simp: all_digits_def)
  ultimately have "ether_value (Ether (NewWei i)) = n"
    by (simp add: ether_value_fixed)
  then show ?thesis using v n by simp
qed

subsection \<open>Chain names and staleness\<close>

text \<open>C3. Chain names are unambiguous: two chain IDs with one name are one chain ID.\<close>

theorem ChainName_inj: "ChainName i = ChainName j \<longleftrightarrow> i = j"
  by (auto simp: ChainName_def word_unat_eq_iff)

text \<open>
  A block is stale exactly when its time is unset or it is older than the limit, for
  every limit below the range of durations: the saturation of \<open>Sub\<close> changes nothing.
\<close>

theorem IsStale_iff:
  assumes "0 \<le> maxAge" "maxAge < max_duration"
  shows "IsStale b now maxAge \<longleftrightarrow> Block_Time b = zero_time \<or> now - Block_Time b > maxAge"
  using assms time_sub_le_iff [of maxAge now "Block_Time b"]
  by (auto simp: IsStale_def min_duration_def)

theorem IsStale_iff_witness:
  "(0::int) \<le> 2 * minute \<and> 2 * minute < max_duration
   \<and> IsStale (zero_BlockRef\<lparr>Block_Time := 5\<rparr>) (5 + 2 * minute + 1) (2 * minute)"
  using IsStale_iff [of "2 * minute" "zero_BlockRef\<lparr>Block_Time := 5\<rparr>" "5 + 2 * minute + 1"]
  by (simp add: minute_def max_duration_def)

end
