(* ===== verification/DomainUser.thy ===== *)
theory DomainUser
  imports GoStrings
begin

text \<open>
  \<open>internal/domain/user.go\<close>: accounts, Telegram identities and the closed allowlist of
  Telegram user IDs.
\<close>

type_synonym UserID = string
type_synonym TelegramUserID = i64
type_synonym UserStatus = string

definition TelegramUserID_Valid :: "TelegramUserID \<Rightarrow> bool" where
  "TelegramUserID_Valid t \<longleftrightarrow> 0 < sint t"

definition UserActive :: UserStatus where
  [go_consts]: "UserActive = ''active''"

definition UserSuspended :: UserStatus where
  [go_consts]: "UserSuspended = ''suspended''"

definition UserStatus_Valid :: "UserStatus \<Rightarrow> bool" where
  "UserStatus_Valid s \<longleftrightarrow> s = UserActive \<or> s = UserSuspended"

record User =
  User_ID :: UserID
  User_Status :: UserStatus
  User_CreatedAt :: time
  User_UpdatedAt :: time

record TelegramUser =
  TU_TelegramID :: TelegramUserID
  TU_UserID :: UserID
  TU_Username :: string
  TU_FirstName :: string
  TU_LastName :: string
  TU_LanguageCode :: string
  TU_ChatID :: i64
  TU_CreatedAt :: time
  TU_UpdatedAt :: time
  TU_LastSeenAt :: time

definition DisplayName :: "TelegramUser \<Rightarrow> string" where
  "DisplayName t =
     (if TU_Username t \<noteq> '''' then ''@'' @ TU_Username t
      else (let name = TrimSpace (TU_FirstName t @ '' '' @ TU_LastName t) in
        if name \<noteq> '''' then name else ''user '' @ dec_int (sint (TU_TelegramID t))))"

text \<open>The map of IDs is used as a set.\<close>

datatype Allowlist = Allowlist (allow_ids: "TelegramUserID set")

definition NewAllowlist :: "TelegramUserID list \<Rightarrow> Allowlist" where
  "NewAllowlist ids = Allowlist (fold (\<lambda>i S. if TelegramUserID_Valid i then insert i S else S) ids {})"

definition Allows :: "Allowlist \<Rightarrow> TelegramUserID \<Rightarrow> bool" where
  "Allows a i = (if card (allow_ids a) = 0 then False else i \<in> allow_ids a)"

definition Allowlist_Empty :: "Allowlist \<Rightarrow> bool" where
  "Allowlist_Empty a \<longleftrightarrow> card (allow_ids a) = 0"

definition Allowlist_Size :: "Allowlist \<Rightarrow> nat" where
  "Allowlist_Size a = card (allow_ids a)"

lemma fold_insert_valid:
  "fold (\<lambda>i S. if TelegramUserID_Valid i then insert i S else S) ids S
   = S \<union> {i \<in> set ids. TelegramUserID_Valid i}"
  by (induction ids arbitrary: S) auto

lemma allow_ids_NewAllowlist: "allow_ids (NewAllowlist ids) = {i \<in> set ids. TelegramUserID_Valid i}"
  by (simp add: NewAllowlist_def fold_insert_valid)

lemma DisplayName_nonempty: "DisplayName t \<noteq> []"
  by (simp add: DisplayName_def Let_def)

text \<open>
  The allowlist admits exactly the configured IDs that are positive: an empty
  configuration admits nobody, and a zero or negative entry admits nobody either.
\<close>

theorem Allows_iff: "Allows (NewAllowlist ids) i \<longleftrightarrow> i \<in> set ids \<and> TelegramUserID_Valid i"
proof -
  have "finite {i \<in> set ids. TelegramUserID_Valid i}" by simp
  then show ?thesis by (auto simp: Allows_def allow_ids_NewAllowlist)
qed

end
