(* ===== verification/DomainWallet.thy ===== *)
theory DomainWallet
  imports DomainChain DomainUser
begin

text \<open>
  \<open>internal/domain/wallet.go\<close>: roles, the status machine of a wallet, its construction in
  the pending state, and the per-wallet policy with its absolute bounds.
\<close>

section \<open>Roles and statuses\<close>

type_synonym WalletRole = string
type_synonym WalletStatus = string

definition WalletRoleOwner :: WalletRole where [go_consts]: "WalletRoleOwner = ''owner''"

definition WalletRoleBot :: WalletRole where [go_consts]: "WalletRoleBot = ''bot''"

definition WalletRole_Valid :: "WalletRole \<Rightarrow> bool" where
  "WalletRole_Valid r \<longleftrightarrow> r = WalletRoleOwner \<or> r = WalletRoleBot"

definition WalletPending :: WalletStatus where [go_consts]: "WalletPending = ''pending''"

definition WalletActive :: WalletStatus where [go_consts]: "WalletActive = ''active''"

definition WalletDisabled :: WalletStatus where [go_consts]: "WalletDisabled = ''disabled''"

definition WalletStatus_Valid :: "WalletStatus \<Rightarrow> bool" where
  "WalletStatus_Valid s \<longleftrightarrow> s = WalletPending \<or> s = WalletActive \<or> s = WalletDisabled"

definition CanTransitionTo :: "WalletStatus \<Rightarrow> WalletStatus \<Rightarrow> bool" where
  "CanTransitionTo s nxt =
     (if s = WalletPending then nxt = WalletActive \<or> nxt = WalletDisabled
      else if s = WalletActive then nxt = WalletDisabled
      else if s = WalletDisabled then nxt = WalletPending
      else False)"

section \<open>Wallets\<close>

record Wallet =
  Wallet_ID :: string
  Wallet_UserID :: UserID
  Wallet_Address :: Address
  Wallet_ChainID :: u64
  Wallet_Role :: WalletRole
  Wallet_Status :: WalletStatus
  Wallet_Label :: string
  Wallet_VerifiedAt :: "time option"
  Wallet_CreatedAt :: time
  Wallet_UpdatedAt :: time

definition NewWallet :: "unicode \<Rightarrow> UserID \<Rightarrow> string \<Rightarrow> u64 \<Rightarrow> WalletRole \<Rightarrow> string \<Rightarrow> error + Wallet" where
  "NewWallet U userID address chainID role label =
     (case ParseAddress U address of
        Inl err \<Rightarrow> Inl err
      | Inr addr \<Rightarrow>
          if Address_IsZero addr then Inl (New ''refusing to link the zero address'')
          else if userID = [] then Inl (New ''user id is required'')
          else if chainID = 0 then Inl (New ''chain id is required'')
          else if \<not> WalletRole_Valid role then Inl (New (''invalid wallet role '' @ Quote U role))
          else Inr \<lparr>Wallet_ID = [], Wallet_UserID = userID, Wallet_Address = addr,
                    Wallet_ChainID = chainID, Wallet_Role = role, Wallet_Status = WalletPending,
                    Wallet_Label = label, Wallet_VerifiedAt = None,
                    Wallet_CreatedAt = zero_time, Wallet_UpdatedAt = zero_time\<rparr>)"

definition IsUsable :: "Wallet \<Rightarrow> bool" where
  "IsUsable w \<longleftrightarrow> Wallet_Status w = WalletActive"

section \<open>Policies\<close>

record WalletPolicy =
  Pol_ID :: string
  Pol_WalletID :: string
  Pol_MaxPositionPercent :: float64
  Pol_MaxOpenPositions :: int
  Pol_DailyLossLimitPercent :: float64
  Pol_StopLossPercent :: float64
  Pol_CapitalRecoveryPercent :: float64
  Pol_MaxSlippageBPS :: int
  Pol_MinLiquidityUSD :: float64
  Pol_TradingEnabled :: bool
  Pol_CreatedAt :: time
  Pol_UpdatedAt :: time

definition zero_WalletPolicy :: WalletPolicy where
  "zero_WalletPolicy =
     \<lparr>Pol_ID = [], Pol_WalletID = [], Pol_MaxPositionPercent = Fin 0, Pol_MaxOpenPositions = 0,
      Pol_DailyLossLimitPercent = Fin 0, Pol_StopLossPercent = Fin 0, Pol_CapitalRecoveryPercent = Fin 0,
      Pol_MaxSlippageBPS = 0, Pol_MinLiquidityUSD = Fin 0, Pol_TradingEnabled = False,
      Pol_CreatedAt = zero_time, Pol_UpdatedAt = zero_time\<rparr>"

text \<open>\<open>if cond { errs = append(errs, err) }\<close>\<close>

definition err_if :: "bool \<Rightarrow> string \<Rightarrow> error list" where
  "err_if b m = (if b then [New m] else [])"

definition Validate :: "WalletPolicy \<Rightarrow> error option" where
  "Validate p = errors_Join
     (err_if (float_le (Pol_MaxPositionPercent p) (Fin 0) \<or> float_less (Fin 100) (Pol_MaxPositionPercent p))
        ''max_position_percent must be in (0,100]''
      @ err_if (Pol_MaxOpenPositions p < 1) ''max_open_positions must be >= 1''
      @ err_if (float_le (Pol_DailyLossLimitPercent p) (Fin 0) \<or> float_less (Fin 100) (Pol_DailyLossLimitPercent p))
        ''daily_loss_limit_percent must be in (0,100]''
      @ err_if (float_le (Pol_StopLossPercent p) (Fin 0) \<or> float_le (Fin 100) (Pol_StopLossPercent p))
        ''stop_loss_percent must be in (0,100)''
      @ err_if (float_le (Pol_CapitalRecoveryPercent p) (Fin 0)) ''capital_recovery_percent must be > 0''
      @ err_if (Pol_MaxSlippageBPS p < 0 \<or> Pol_MaxSlippageBPS p > 10000)
        ''max_slippage_bps must be in [0,10000]''
      @ err_if (float_less (Pol_MinLiquidityUSD p) (Fin 0)) ''min_liquidity_usd must be >= 0'')"

section \<open>Facts\<close>

lemma err_if_Nil [simp]: "err_if b m = [] \<longleftrightarrow> \<not> b"
  by (simp add: err_if_def)

lemma wallet_status_distinct [simp]:
  "WalletPending \<noteq> WalletActive" "WalletActive \<noteq> WalletPending" "WalletPending \<noteq> WalletDisabled"
  "WalletDisabled \<noteq> WalletPending" "WalletActive \<noteq> WalletDisabled" "WalletDisabled \<noteq> WalletActive"
  by (simp_all add: go_consts)

lemma NewWallet_Inr:
  "NewWallet U userID address chainID role label = Inr w \<longleftrightarrow>
     ParseAddress U address = Inr (Wallet_Address w) \<and> Wallet_Address w \<noteq> zero_address
   \<and> userID \<noteq> [] \<and> chainID \<noteq> 0 \<and> WalletRole_Valid role
   \<and> w = \<lparr>Wallet_ID = [], Wallet_UserID = userID, Wallet_Address = Wallet_Address w,
          Wallet_ChainID = chainID, Wallet_Role = role, Wallet_Status = WalletPending,
          Wallet_Label = label, Wallet_VerifiedAt = None,
          Wallet_CreatedAt = zero_time, Wallet_UpdatedAt = zero_time\<rparr>"
  by (cases "ParseAddress U address") (auto simp: NewWallet_def Address_IsZero_def)

lemma NewWallet_fields:
  assumes "NewWallet U userID address chainID role label = Inr w"
  shows "Wallet_UserID w = userID" "Wallet_ChainID w = chainID" "Wallet_Role w = role" "Wallet_Status w = WalletPending"
  using assms by (simp_all add: NewWallet_def split: sum.splits if_splits) auto

text \<open>A legal sequence of status changes.\<close>

fun legal_path :: "WalletStatus list \<Rightarrow> bool" where
  "legal_path (s # t # ss) \<longleftrightarrow> CanTransitionTo s t \<and> legal_path (t # ss)"
| "legal_path _ \<longleftrightarrow> True"

lemma legal_path_to_active:
  "legal_path (s # ss) \<Longrightarrow> s \<noteq> WalletActive \<Longrightarrow> WalletActive \<in> set ss \<Longrightarrow>
   WalletPending \<in> set (s # takeWhile (\<lambda>t. t \<noteq> WalletActive) ss)"
proof (induction ss arbitrary: s)
  case (Cons t ss)
  show ?case
  proof (cases "t = WalletActive")
    case True
    with Cons.prems show ?thesis by (auto simp: CanTransitionTo_def split: if_splits)
  next
    case False
    with Cons show ?thesis by fastforce
  qed
qed simp

text \<open>
  A legal path of statuses that starts outside the active state and reaches it went
  through pending before: no wallet becomes usable without a (new) verification.
\<close>

theorem active_only_through_pending:
  assumes "legal_path (s # ss)" "s \<noteq> WalletActive" "WalletActive \<in> set ss"
  shows "WalletPending \<in> set (s # takeWhile (\<lambda>t. t \<noteq> WalletActive) ss)"
  using assms by (rule legal_path_to_active)

theorem active_only_through_pending_witness:
  "WalletPending \<in> set (WalletDisabled # takeWhile (\<lambda>t. t \<noteq> WalletActive) [WalletPending, WalletActive])"
  using active_only_through_pending [of WalletDisabled "[WalletPending, WalletActive]"]
  by (simp add: CanTransitionTo_def)

text \<open>The bounds a policy with finite limits must satisfy.\<close>

definition in_bounds :: "WalletPolicy \<Rightarrow> bool" where
  "in_bounds p \<longleftrightarrow> (\<exists>mp dl sl cr ml.
      Pol_MaxPositionPercent p = Fin mp \<and> 0 < mp \<and> mp \<le> 100
    \<and> Pol_DailyLossLimitPercent p = Fin dl \<and> 0 < dl \<and> dl \<le> 100
    \<and> Pol_StopLossPercent p = Fin sl \<and> 0 < sl \<and> sl < 100
    \<and> Pol_CapitalRecoveryPercent p = Fin cr \<and> 0 < cr
    \<and> Pol_MinLiquidityUSD p = Fin ml \<and> 0 \<le> ml
    \<and> 1 \<le> Pol_MaxOpenPositions p \<and> 0 \<le> Pol_MaxSlippageBPS p \<and> Pol_MaxSlippageBPS p \<le> 10000)"

definition finite_limits :: "WalletPolicy \<Rightarrow> bool" where
  "finite_limits p \<longleftrightarrow>
     (\<forall>x \<in> {Pol_MaxPositionPercent p, Pol_DailyLossLimitPercent p, Pol_StopLossPercent p,
            Pol_CapitalRecoveryPercent p, Pol_MinLiquidityUSD p}. \<exists>r. x = Fin r)"

text \<open>
  C36. On policies whose limits are finite numbers, \<open>Validate\<close> accepts exactly those inside
  the absolute bounds.
\<close>

theorem Validate_iff_in_bounds:
  assumes "finite_limits p"
  shows "Validate p = None \<longleftrightarrow> in_bounds p"
  using assms by (auto simp: Validate_def in_bounds_def finite_limits_def not_le not_less)

definition sample_policy :: WalletPolicy where
  "sample_policy = zero_WalletPolicy
     \<lparr>Pol_MaxPositionPercent := Fin 5, Pol_MaxOpenPositions := 5, Pol_DailyLossLimitPercent := Fin 10,
      Pol_StopLossPercent := Fin 5, Pol_CapitalRecoveryPercent := Fin 100, Pol_MaxSlippageBPS := 100,
      Pol_MinLiquidityUSD := Fin 10000\<rparr>"

theorem Validate_iff_in_bounds_witness: "finite_limits sample_policy \<and> Validate sample_policy = None"
proof -
  have f: "finite_limits sample_policy"
    by (simp add: finite_limits_def sample_policy_def zero_WalletPolicy_def)
  have "in_bounds sample_policy"
    by (simp add: in_bounds_def sample_policy_def zero_WalletPolicy_def)
  with f show ?thesis using Validate_iff_in_bounds [OF f] by simp
qed

text \<open>
  A NaN passes every bound of \<open>Validate\<close>: each check asks whether the limit is
  outside its range, and every comparison with a NaN is false.
\<close>

theorem Validate_accepts_NaN:
  "Validate (sample_policy\<lparr>Pol_MaxPositionPercent := NaN, Pol_DailyLossLimitPercent := NaN,
     Pol_StopLossPercent := NaN, Pol_CapitalRecoveryPercent := NaN, Pol_MinLiquidityUSD := NaN\<rparr>) = None"
  by (simp add: Validate_def sample_policy_def zero_WalletPolicy_def)

end
