(* ===== verification/DomainAudit.thy ===== *)
theory DomainAudit
  imports GoStrings
begin

text \<open>
  \<open>internal/domain/audit.go\<close>: the vocabulary of the audit trail and the builder of its
  events. A detail map is an association list, updated by key.
\<close>

definition ActorSystem :: string where [go_consts]: "ActorSystem = ''system''"

definition ActorTelegramUser :: string where [go_consts]: "ActorTelegramUser = ''telegram_user''"

definition ActorWorker :: string where [go_consts]: "ActorWorker = ''worker''"

definition ActorOperator :: string where [go_consts]: "ActorOperator = ''operator''"

definition OutcomeOK :: string where [go_consts]: "OutcomeOK = ''ok''"

definition OutcomeRejected :: string where [go_consts]: "OutcomeRejected = ''rejected''"

definition OutcomeFailed :: string where [go_consts]: "OutcomeFailed = ''failed''"

definition ActionTelegramStart :: string where [go_consts]: "ActionTelegramStart = ''telegram:start''"

definition ActionTelegramCommand :: string where [go_consts]: "ActionTelegramCommand = ''telegram:command''"

definition ActionTelegramUnauthorized :: string where
  [go_consts]: "ActionTelegramUnauthorized = ''telegram:unauthorized''"

definition ActionTelegramRateLimited :: string where
  [go_consts]: "ActionTelegramRateLimited = ''telegram:rate_limited''"

definition ActionUserOnboarded :: string where [go_consts]: "ActionUserOnboarded = ''user:onboarded''"

definition ActionMiniAppAuth :: string where [go_consts]: "ActionMiniAppAuth = ''miniapp:auth''"

definition ActionMiniAppAuthRejected :: string where
  [go_consts]: "ActionMiniAppAuthRejected = ''miniapp:auth_rejected''"

definition ActionWalletLinked :: string where [go_consts]: "ActionWalletLinked = ''wallet:linked''"

definition ActionWalletVerified :: string where [go_consts]: "ActionWalletVerified = ''wallet:verified''"

definition ActionWalletVerifyFailed :: string where
  [go_consts]: "ActionWalletVerifyFailed = ''wallet:verify_failed''"

definition ActionWalletDisabled :: string where [go_consts]: "ActionWalletDisabled = ''wallet:disabled''"

definition ActionPolicyChanged :: string where [go_consts]: "ActionPolicyChanged = ''policy:changed''"

text \<open>The values the callers put into a detail map.\<close>

datatype detail =
    DString string
  | DUint u64
  | DInt int
  | DFloat float64
  | DBool bool
  | DMap "(string \<times> detail) list"

record AuditEvent =
  Ev_OccurredAt :: time
  Ev_ActorType :: string
  Ev_ActorID :: string
  Ev_Action :: string
  Ev_SubjectType :: string
  Ev_SubjectID :: string
  Ev_Outcome :: string
  Ev_Detail :: "(string \<times> detail) list"

definition NewAuditEvent :: "time \<Rightarrow> string \<Rightarrow> string \<Rightarrow> string \<Rightarrow> AuditEvent" where
  "NewAuditEvent now actorType actorID action =
     \<lparr>Ev_OccurredAt = now, Ev_ActorType = actorType, Ev_ActorID = actorID, Ev_Action = action,
      Ev_SubjectType = '''', Ev_SubjectID = '''', Ev_Outcome = OutcomeOK, Ev_Detail = []\<rparr>"

definition WithSubject :: "string \<Rightarrow> string \<Rightarrow> AuditEvent \<Rightarrow> AuditEvent" where
  "WithSubject subjectType subjectID e = e\<lparr>Ev_SubjectType := subjectType, Ev_SubjectID := subjectID\<rparr>"

definition WithOutcome :: "string \<Rightarrow> AuditEvent \<Rightarrow> AuditEvent" where
  "WithOutcome outcome e = e\<lparr>Ev_Outcome := outcome\<rparr>"

definition WithDetail :: "string \<Rightarrow> detail \<Rightarrow> AuditEvent \<Rightarrow> AuditEvent" where
  "WithDetail key value e = e\<lparr>Ev_Detail := AList.update key value (Ev_Detail e)\<rparr>"

lemmas event_defs = NewAuditEvent_def WithSubject_def WithOutcome_def WithDetail_def

lemma WithDetail_lookup: "map_of (Ev_Detail (WithDetail k v e)) = (map_of (Ev_Detail e))(k \<mapsto> v)"
  by (simp add: WithDetail_def update_conv')

text \<open>The CHECK constraints of the audit table, on an event's columns.\<close>

definition event_checked :: "AuditEvent \<Rightarrow> bool" where
  "event_checked e \<longleftrightarrow>
     Ev_ActorType e \<in> {''system'', ''telegram_user'', ''worker'', ''operator''}
   \<and> Ev_Outcome e \<in> {''ok'', ''rejected'', ''failed''}"

lemma event_checked_New [simp]:
  "event_checked (NewAuditEvent now ActorSystem i a)"
  "event_checked (NewAuditEvent now ActorTelegramUser i a)"
  "event_checked (NewAuditEvent now ActorWorker i a)"
  by (simp_all add: event_checked_def event_defs go_consts)

lemma event_checked_With [simp]:
  "event_checked (WithSubject st si e) = event_checked e"
  "event_checked (WithDetail k v e) = event_checked e"
  "event_checked e \<Longrightarrow> event_checked (WithOutcome OutcomeRejected e)"
  "event_checked e \<Longrightarrow> event_checked (WithOutcome OutcomeFailed e)"
  by (simp_all add: event_checked_def event_defs go_consts)

end
