(* ===== verification/Ports.thy ===== *)
theory Ports
  imports DomainWallet DomainAudit
begin

text \<open>
  \<open>internal/application/ports.go\<close>: the interfaces the use cases depend on. A Go interface
  value is a record of operations on the state \<open>'s\<close> of the world; a field that may be nil
  is an option. The contracts the use cases rely on are locales: their laws are proved for
  the PostgreSQL repositories where those are modelled, and the use cases are verified from
  the laws alone.
\<close>

section \<open>Interfaces\<close>

record 's UserStore =
  EnsureTelegramUser :: "TelegramUser \<Rightarrow> ('s, User \<times> TelegramUser \<times> bool) op"
  GetTelegramUser :: "TelegramUserID \<Rightarrow> ('s, TelegramUser) op"
  GetUser :: "UserID \<Rightarrow> ('s, User) op"

record 's WalletStore =
  Store_Link :: "Wallet \<Rightarrow> WalletPolicy \<Rightarrow> ('s, Wallet) op"
  Store_Get :: "string \<Rightarrow> ('s, Wallet) op"
  Store_ListByUser :: "UserID \<Rightarrow> ('s, Wallet list) op"
  Store_MarkVerified :: "string \<Rightarrow> time \<Rightarrow> ('s, unit) op"
  Store_SetStatus :: "string \<Rightarrow> WalletStatus \<Rightarrow> ('s, unit) op"
  Store_GetPolicy :: "string \<Rightarrow> ('s, WalletPolicy) op"
  Store_UpdatePolicy :: "string \<Rightarrow> WalletPolicy \<Rightarrow> ('s, unit) op"

record 's AuditStore =
  Audit_Record :: "AuditEvent \<Rightarrow> ('s, unit) op"

record 's TaskEnqueuer =
  EnqueueWalletVerify :: "string \<Rightarrow> ('s, unit) op"
  EnqueueNotification :: "i64 \<Rightarrow> string \<Rightarrow> ('s, unit) op"

record 's AddressProbe =
  Probe_ChainID :: "('s, u64) op"
  Probe_BalanceAt :: "Address \<Rightarrow> u64 option \<Rightarrow> ('s, Wei) op"

section \<open>The contract of a wallet store\<close>

text \<open>The columns of a wallet that no operation changes once it is linked.\<close>

definition same_wallet :: "Wallet \<Rightarrow> Wallet \<Rightarrow> bool" where
  "same_wallet v w \<longleftrightarrow>
     Wallet_ID v = Wallet_ID w \<and> Wallet_UserID v = Wallet_UserID w
   \<and> Wallet_Address v = Wallet_Address w \<and> Wallet_ChainID v = Wallet_ChainID w
   \<and> Wallet_Role v = Wallet_Role w \<and> Wallet_Label v = Wallet_Label w
   \<and> Wallet_CreatedAt v = Wallet_CreatedAt w"

lemma same_wallet_refl [simp]: "same_wallet w w"
  by (simp add: same_wallet_def)

text \<open>
  \<open>wallet_at s i\<close> and \<open>policy_at s i\<close> are the wallet with the ID \<open>i\<close> in the state and its
  policy, and \<open>user_key s u\<close> is the account a text \<open>u\<close> denotes. A failed write may still have happened (the connection can be lost after the
  commit), so the laws of the writes say what a call can have done whatever it returned,
  and what a success adds to that.
\<close>

locale wallet_store =
  fixes store :: "'s WalletStore"
    and inv :: "'s \<Rightarrow> bool"
    and wallet_at :: "'s \<Rightarrow> string \<Rightarrow> Wallet option"
    and policy_at :: "'s \<Rightarrow> string \<Rightarrow> WalletPolicy option"
    and user_key :: "'s \<Rightarrow> UserID \<Rightarrow> UserID option"
  assumes inv_link: "keeps inv (Store_Link store w p)"
    and inv_get: "keeps inv (Store_Get store i)"
    and inv_list: "keeps inv (Store_ListByUser store u)"
    and inv_mark: "keeps inv (Store_MarkVerified store i tm)"
    and inv_set: "keeps inv (Store_SetStatus store i st)"
    and inv_get_policy: "keeps inv (Store_GetPolicy store i)"
    and inv_update_policy: "keeps inv (Store_UpdatePolicy store i p)"
    and has_policy: "inv s \<Longrightarrow> wallet_at s i = Some w \<Longrightarrow> \<exists>p. policy_at s i = Some p"
    and get_frame: "Store_Get store i s = (r, t) \<Longrightarrow>
      wallet_at t = wallet_at s \<and> policy_at t = policy_at s"
    and get_value: "Store_Get store i s = (Inr w, t) \<Longrightarrow> wallet_at s i = Some w"
    and list_frame: "Store_ListByUser store u s = (rl, t) \<Longrightarrow>
      wallet_at t = wallet_at s \<and> policy_at t = policy_at s"
    and list_value: "inv s \<Longrightarrow> Store_ListByUser store u s = (Inr ws, t) \<Longrightarrow> w \<in> set ws \<Longrightarrow>
      wallet_at s (Wallet_ID w) = Some w \<and> user_key s u = Some (Wallet_UserID w)"
    and get_policy_frame: "Store_GetPolicy store i s = (rp, t) \<Longrightarrow>
      wallet_at t = wallet_at s \<and> policy_at t = policy_at s"
    and get_policy_value: "Store_GetPolicy store i s = (Inr p, t) \<Longrightarrow> policy_at s i = Some p"
    and link_old: "inv s \<Longrightarrow> Store_Link store w p s = (r, t) \<Longrightarrow> wallet_at s i = Some v \<Longrightarrow>
      wallet_at t i = Some v \<and> policy_at t i = policy_at s i"
    and link_new: "inv s \<Longrightarrow> Store_Link store w p s = (r, t) \<Longrightarrow> wallet_at s i = None \<Longrightarrow>
      wallet_at t i = Some v \<Longrightarrow>
      Wallet_Status v = WalletPending \<and> Wallet_VerifiedAt v = None
      \<and> Wallet_Address v = Wallet_Address w \<and> Wallet_ChainID v = Wallet_ChainID w
      \<and> Wallet_Role v = Wallet_Role w \<and> user_key s (Wallet_UserID w) = Some (Wallet_UserID v)
      \<and> (\<exists>q. policy_at t i = Some q \<and> Pol_TradingEnabled q = Pol_TradingEnabled p)"
    and link_value: "inv s \<Longrightarrow> Store_Link store w p s = (Inr v, t) \<Longrightarrow>
      wallet_at s (Wallet_ID v) = None \<and> wallet_at t (Wallet_ID v) = Some v \<and> Validate p = None"
    and mark_policies: "inv s \<Longrightarrow> Store_MarkVerified store i tm s = (ru, t) \<Longrightarrow> policy_at t = policy_at s"
    and mark_effect: "inv s \<Longrightarrow> Store_MarkVerified store i tm s = (ru, t) \<Longrightarrow> wallet_at s j = Some w \<Longrightarrow>
      \<exists>w'. wallet_at t j = Some w' \<and>
        (w' = w \<or> (wallet_at s i = Some w \<and> Wallet_Status w = WalletPending \<and> same_wallet w w'
                   \<and> Wallet_Status w' = WalletActive \<and> Wallet_VerifiedAt w' \<noteq> None))"
    and mark_none: "inv s \<Longrightarrow> Store_MarkVerified store i tm s = (ru, t) \<Longrightarrow> wallet_at s j = None \<Longrightarrow>
      wallet_at t j = None"
    and mark_done: "inv s \<Longrightarrow> Store_MarkVerified store i tm s = (Inr x, t) \<Longrightarrow> wallet_at t i = Some w \<Longrightarrow>
      Wallet_Status w \<noteq> WalletPending"
    and set_policies: "inv s \<Longrightarrow> Store_SetStatus store i st s = (ru, t) \<Longrightarrow> policy_at t = policy_at s"
    and set_effect: "inv s \<Longrightarrow> Store_SetStatus store i st s = (ru, t) \<Longrightarrow> wallet_at s j = Some w \<Longrightarrow>
      \<exists>w'. wallet_at t j = Some w' \<and>
        (w' = w \<or> (wallet_at s i = Some w \<and> CanTransitionTo (Wallet_Status w) st
                   \<and> same_wallet w w' \<and> Wallet_Status w' = st))"
    and set_none: "inv s \<Longrightarrow> Store_SetStatus store i st s = (ru, t) \<Longrightarrow> wallet_at s j = None \<Longrightarrow>
      wallet_at t j = None"
    and set_done: "inv s \<Longrightarrow> Store_SetStatus store i st s = (Inr x, t) \<Longrightarrow>
      \<exists>w. wallet_at t i = Some w \<and> Wallet_Status w = st"
    and update_wallets: "inv s \<Longrightarrow> Store_UpdatePolicy store i p s = (ru, t) \<Longrightarrow> wallet_at t = wallet_at s"
    and update_other: "inv s \<Longrightarrow> Store_UpdatePolicy store i p s = (ru, t) \<Longrightarrow>
      wallet_at s i = Some w \<Longrightarrow> wallet_at s j = Some v \<Longrightarrow> Wallet_ID v \<noteq> Wallet_ID w \<Longrightarrow>
      policy_at t j = policy_at s j"
    and update_effect: "inv s \<Longrightarrow> Store_UpdatePolicy store i p s = (ru, t) \<Longrightarrow> policy_at t j \<noteq> policy_at s j \<Longrightarrow>
      Validate p = None \<and> (\<exists>q. policy_at t j = Some q \<and> Pol_TradingEnabled q = Pol_TradingEnabled p)"
    and update_done: "inv s \<Longrightarrow> Store_UpdatePolicy store i p s = (Inr x, t) \<Longrightarrow>
      Validate p = None \<and> (\<exists>q. policy_at t i = Some q \<and> Pol_TradingEnabled q = Pol_TradingEnabled p)"

section \<open>The contract of a user store\<close>

text \<open>\<open>account_of s i\<close> is the account linked to the Telegram ID \<open>i\<close>.\<close>

locale user_store =
  fixes users :: "'s UserStore"
    and inv :: "'s \<Rightarrow> bool"
    and account_of :: "'s \<Rightarrow> TelegramUserID \<Rightarrow> User option"
  assumes inv_ensure: "keeps inv (EnsureTelegramUser users tu)"
    and ensure_old: "inv s \<Longrightarrow> EnsureTelegramUser users tu s = (r, t) \<Longrightarrow> account_of s i = Some u \<Longrightarrow>
      account_of t i = Some u"
    and ensure_other: "inv s \<Longrightarrow> EnsureTelegramUser users tu s = (r, t) \<Longrightarrow> i \<noteq> TU_TelegramID tu \<Longrightarrow>
      account_of t i = account_of s i"
    and ensure_value: "inv s \<Longrightarrow> EnsureTelegramUser users tu s = (Inr (u, tg, created), t) \<Longrightarrow>
      account_of t (TU_TelegramID tu) = Some u \<and> TU_TelegramID tg = TU_TelegramID tu
      \<and> TU_UserID tg = User_ID u
      \<and> (created \<longleftrightarrow> account_of s (TU_TelegramID tu) = None)
      \<and> (created \<longrightarrow> User_Status u = UserActive)"

end
