(* ===== verification/Postgres.thy ===== *)
theory Postgres
  imports Ports
begin

text \<open>
  The database the repositories of \<open>internal/persistence/postgres\<close> run on: the tables of
  \<open>migrations/*.sql\<close> as lists of rows, their CHECK, UNIQUE and foreign-key constraints, and
  how a statement and a transaction run. The SQL text of each statement is in the source
  and is translated with the repository it belongs to; what is the engine's own (generated
  UUIDs, the text forms of \<open>uuid\<close>, \<open>numeric\<close> and \<open>timestamptz\<close>, error texts) is the
  record \<open>pg_engine\<close>, a parameter held in the state.

  The network and the server may fail at any statement. \<open>pg_faults\<close> says what happens to
  the statements to come: nothing, the statement is lost before it runs, or it runs and only
  its answer is lost. Nothing is assumed of that list. The type \<open>'z\<close> of the record's
  extension is everything outside the database.
\<close>

section \<open>The engine\<close>

text \<open>\<open>numeric\<close> has a NaN, which PostgreSQL orders above every number.\<close>

datatype pgnum = PgFin rat | PgNaN

fun pg_less :: "pgnum \<Rightarrow> pgnum \<Rightarrow> bool" where
  "pg_less (PgFin x) (PgFin y) = (x < y)"
| "pg_less (PgFin x) PgNaN = True"
| "pg_less PgNaN y = False"

definition pg_le :: "pgnum \<Rightarrow> pgnum \<Rightarrow> bool" where
  "pg_le x y \<longleftrightarrow> x = y \<or> pg_less x y"

record pg_engine =
  pg_gen_uuid :: "nat \<Rightarrow> string"
  pg_uuid_in :: "string \<Rightarrow> string option"
  pg_numeric_in :: "nat \<Rightarrow> nat \<Rightarrow> float64 \<Rightarrow> pgnum option"
  pg_numeric_out :: "pgnum \<Rightarrow> float64"
  pg_timestamp_in :: "time \<Rightarrow> time"
  pg_text :: "string \<Rightarrow> string"

definition pg_err :: "pg_engine \<Rightarrow> string \<Rightarrow> error" where
  "pg_err e code = PgError code (pg_text e code)"

text \<open>A UUID's canonical text is accepted as input and denotes itself; the generator yields such texts.\<close>

definition engine_ok :: "pg_engine \<Rightarrow> bool" where
  "engine_ok e \<longleftrightarrow>
     (\<forall>n. pg_uuid_in e (pg_gen_uuid e n) = Some (pg_gen_uuid e n))
   \<and> (\<forall>x k. pg_uuid_in e x = Some k \<longrightarrow> pg_uuid_in e k = Some k)"

section \<open>Rows\<close>

record tg_row =
  tr_telegram_id :: int
  tr_user_id :: string
  tr_username :: "string option"
  tr_first_name :: "string option"
  tr_last_name :: "string option"
  tr_language_code :: "string option"
  tr_chat_id :: int
  tr_created_at :: time
  tr_updated_at :: time
  tr_last_seen_at :: time

record wallet_row =
  wr_id :: string
  wr_user_id :: string
  wr_address :: string
  wr_chain_id :: int
  wr_role :: string
  wr_status :: string
  wr_label :: "string option"
  wr_verified_at :: "time option"
  wr_created_at :: time
  wr_updated_at :: time

record policy_row =
  pr_id :: string
  pr_wallet_id :: string
  pr_max_position_percent :: pgnum
  pr_max_open_positions :: int
  pr_daily_loss_limit_percent :: pgnum
  pr_stop_loss_percent :: pgnum
  pr_capital_recovery_percent :: pgnum
  pr_max_slippage_bps :: int
  pr_min_liquidity_usd :: pgnum
  pr_trading_enabled :: bool
  pr_created_at :: time
  pr_updated_at :: time

record audit_row =
  ar_occurred_at :: time
  ar_actor_type :: string
  ar_actor_id :: "string option"
  ar_action :: string
  ar_subject_type :: "string option"
  ar_subject_id :: "string option"
  ar_outcome :: string
  ar_detail :: "(string \<times> detail) list"

record sync_row =
  sr_chain_id :: int
  sr_chain_name :: string
  sr_last_block_number :: int
  sr_last_block_hash :: string
  sr_last_block_time :: time
  sr_observed_at :: time
  sr_updated_at :: time

datatype fault = Lost_before error | Lost_after error

record pgdb =
  engine :: pg_engine
  users :: "User list"
  telegram_users :: "tg_row list"
  wallets :: "wallet_row list"
  wallet_policies :: "policy_row list"
  audit_logs :: "audit_row list"
  chain_sync_state :: "sync_row list"
  pg_clock :: time
  pg_uuid_next :: nat
  pg_faults :: "fault option list"

section \<open>Constraints of the schema\<close>

definition tg_row_checked :: "tg_row \<Rightarrow> bool" where
  "tg_row_checked r \<longleftrightarrow> 0 < tr_telegram_id r"

definition wallet_row_checked :: "wallet_row \<Rightarrow> bool" where
  "wallet_row_checked r \<longleftrightarrow>
     lower_hex_re 40 (wr_address r) \<and> wr_address r \<noteq> zero_address \<and> 0 < wr_chain_id r
   \<and> wr_role r \<in> {''owner'', ''bot''} \<and> wr_status r \<in> {''pending'', ''active'', ''disabled''}
   \<and> (wr_verified_at r = None \<or> wr_status r \<noteq> ''pending'')"

definition active_bot :: "wallet_row \<Rightarrow> bool" where
  "active_bot r \<longleftrightarrow> wr_role r = ''bot'' \<and> wr_status r = ''active''"

text \<open>
  The primary key, \<open>wallets_user_chain_address_key\<close> and the partial index
  \<open>wallets_one_active_bot_per_chain\<close>.
\<close>

definition wallets_unique :: "wallet_row list \<Rightarrow> bool" where
  "wallets_unique ws \<longleftrightarrow>
     distinct (map wr_id ws)
   \<and> distinct (map (\<lambda>r. (wr_user_id r, wr_chain_id r, wr_address r)) ws)
   \<and> distinct (map (\<lambda>r. (wr_user_id r, wr_chain_id r)) (filter active_bot ws))"

definition policy_row_checked :: "policy_row \<Rightarrow> bool" where
  "policy_row_checked r \<longleftrightarrow>
     pg_less (PgFin 0) (pr_max_position_percent r) \<and> pg_le (pr_max_position_percent r) (PgFin 100)
   \<and> 1 \<le> pr_max_open_positions r
   \<and> pg_less (PgFin 0) (pr_daily_loss_limit_percent r) \<and> pg_le (pr_daily_loss_limit_percent r) (PgFin 100)
   \<and> pg_less (PgFin 0) (pr_stop_loss_percent r) \<and> pg_less (pr_stop_loss_percent r) (PgFin 100)
   \<and> pg_less (PgFin 0) (pr_capital_recovery_percent r)
   \<and> 0 \<le> pr_max_slippage_bps r \<and> pr_max_slippage_bps r \<le> 10000
   \<and> pg_le (PgFin 0) (pr_min_liquidity_usd r)"

definition policies_unique :: "policy_row list \<Rightarrow> bool" where
  "policies_unique ps \<longleftrightarrow> distinct (map pr_id ps) \<and> distinct (map pr_wallet_id ps)"

definition audit_row_checked :: "audit_row \<Rightarrow> bool" where
  "audit_row_checked r \<longleftrightarrow>
     ar_actor_type r \<in> {''system'', ''telegram_user'', ''worker'', ''operator''}
   \<and> ar_outcome r \<in> {''ok'', ''rejected'', ''failed''}"

text \<open>The block number is a \<open>BIGINT\<close>.\<close>

definition sync_row_checked :: "sync_row \<Rightarrow> bool" where
  "sync_row_checked r \<longleftrightarrow>
     0 < sr_chain_id r \<and> 0 \<le> sr_last_block_number r \<and> sr_last_block_number r < 2 ^ 63 \<and> lower_hex_re 64 (sr_last_block_hash r)"

section \<open>Statements and transactions\<close>

definition stmt :: "('z pgdb_scheme, 'a) op \<Rightarrow> ('z pgdb_scheme, 'a) op" where
  "stmt m s = (case pg_faults s of
       [] \<Rightarrow> m s
     | f # fs \<Rightarrow> (let s' = s\<lparr>pg_faults := fs\<rparr> in
         case f of None \<Rightarrow> m s'
         | Some (Lost_before e) \<Rightarrow> (Inl e, s')
         | Some (Lost_after e) \<Rightarrow> (Inl e, snd (m s'))))"

text \<open>A statement that only reads.\<close>

definition query :: "('z pgdb_scheme \<Rightarrow> error + 'a) \<Rightarrow> ('z pgdb_scheme, 'a) op" where
  "query q = stmt (\<lambda>s. (q s, s))"

text \<open>What a rollback undoes: the tables.\<close>

definition restore :: "'z pgdb_scheme \<Rightarrow> 'z pgdb_scheme \<Rightarrow> 'z pgdb_scheme" where
  "restore s0 s = s\<lparr>users := users s0, telegram_users := telegram_users s0, wallets := wallets s0,
     wallet_policies := wallet_policies s0, audit_logs := audit_logs s0,
     chain_sync_state := chain_sync_state s0\<rparr>"

text \<open>
  \<open>pool.Begin\<close>, the body, \<open>tx.Commit\<close>, with the deferred \<open>tx.Rollback\<close> on every other
  way out. A commit whose answer is lost may or may not have happened.
\<close>

definition transaction :: "('z pgdb_scheme, 'a) op \<Rightarrow> ('z pgdb_scheme, 'a) op" where
  "transaction body =
     attempt (stmt (ok ())) (\<lambda>err. throw (Wrap ''begin: '' err []))
       (\<lambda>_ s0. case body s0 of (r, s) \<Rightarrow> (case r of
           Inl err \<Rightarrow> (Inl err, restore s0 s)
         | Inr a \<Rightarrow> (case pg_faults s of
             [] \<Rightarrow> (Inr a, s)
           | f # fs \<Rightarrow> (let s' = s\<lparr>pg_faults := fs\<rparr> in
               case f of None \<Rightarrow> (Inr a, s')
               | Some (Lost_before err) \<Rightarrow> (Inl (Wrap ''commit: '' err []), restore s0 s')
               | Some (Lost_after err) \<Rightarrow> (Inl (Wrap ''commit: '' err []), s')))))"

text \<open>\<open>isUniqueViolation\<close> and \<open>nullable\<close> of the repositories.\<close>

definition isUniqueViolation :: "error \<Rightarrow> bool" where
  "isUniqueViolation err \<longleftrightarrow> as_pg_code err = Some ''23505''"

definition nullable :: "string \<Rightarrow> string option" where
  "nullable s = (if s = [] then None else Some s)"

definition coalesce :: "string option \<Rightarrow> string" where
  "coalesce x = (case x of None \<Rightarrow> [] | Some s \<Rightarrow> s)"

section \<open>The invariant of the database\<close>

definition users_ok :: "User list \<Rightarrow> tg_row list \<Rightarrow> bool" where
  "users_ok us ts \<longleftrightarrow>
     distinct (map User_ID us) \<and> (\<forall>u \<in> set us. UserStatus_Valid (User_Status u))
   \<and> distinct (map tr_telegram_id ts) \<and> distinct (map tr_user_id ts)
   \<and> (\<forall>r \<in> set ts. tg_row_checked r) \<and> tr_user_id ` set ts \<subseteq> User_ID ` set us"

text \<open>
  Every wallet has exactly one policy and every policy a wallet: the schema only asks for at
  most one and for the wallet; the other half is the repository's promise.
\<close>

definition wallets_ok :: "pg_engine \<Rightarrow> User list \<Rightarrow> wallet_row list \<Rightarrow> policy_row list \<Rightarrow> bool" where
  "wallets_ok e us ws ps \<longleftrightarrow>
     wallets_unique ws \<and> (\<forall>r \<in> set ws. wallet_row_checked r)
   \<and> policies_unique ps \<and> (\<forall>r \<in> set ps. policy_row_checked r)
   \<and> wr_user_id ` set ws \<subseteq> User_ID ` set us
   \<and> pr_wallet_id ` set ps = wr_id ` set ws
   \<and> (\<forall>r \<in> set ws. pg_uuid_in e (wr_id r) = Some (wr_id r))"

definition sync_ok :: "sync_row list \<Rightarrow> bool" where
  "sync_ok rs \<longleftrightarrow> distinct (map sr_chain_id rs) \<and> (\<forall>r \<in> set rs. sync_row_checked r)"

definition db_ok :: "'z pgdb_scheme \<Rightarrow> bool" where
  "db_ok s \<longleftrightarrow>
     engine_ok (engine s) \<and> users_ok (users s) (telegram_users s)
   \<and> (\<forall>u \<in> set (users s). pg_uuid_in (engine s) (User_ID u) = Some (User_ID u))
   \<and> wallets_ok (engine s) (users s) (wallets s) (wallet_policies s)
   \<and> (\<forall>r \<in> set (audit_logs s). audit_row_checked r)
   \<and> sync_ok (chain_sync_state s)"

section \<open>Facts\<close>

text \<open>\<open>same_db s t\<close>: the two states have the same engine and tables.\<close>

definition same_db :: "'z pgdb_scheme \<Rightarrow> 'z pgdb_scheme \<Rightarrow> bool" where
  "same_db s t \<longleftrightarrow> engine t = engine s \<and> users t = users s \<and> telegram_users t = telegram_users s
     \<and> wallets t = wallets s \<and> wallet_policies t = wallet_policies s
     \<and> audit_logs t = audit_logs s \<and> chain_sync_state t = chain_sync_state s"

lemma same_db_refl [simp, intro]: "same_db s s"
  by (simp add: same_db_def)

lemma same_db_trans: "same_db s t \<Longrightarrow> same_db t u \<Longrightarrow> same_db s u"
  by (simp add: same_db_def)

lemma same_db_faults [simp]: "same_db s (s\<lparr>pg_faults := fs\<rparr>)" "same_db (s\<lparr>pg_faults := fs\<rparr>) t = same_db s t"
  by (simp_all add: same_db_def)

lemma same_db_uuid [simp]: "same_db s (s\<lparr>pg_uuid_next := n\<rparr>)"
  by (simp add: same_db_def)

lemma db_ok_same: "same_db s t \<Longrightarrow> db_ok t \<longleftrightarrow> db_ok s"
  by (simp add: same_db_def db_ok_def)

lemma db_ok_faults [simp]: "db_ok (s\<lparr>pg_faults := fs\<rparr>) = db_ok s"
  by (rule db_ok_same) simp

lemma same_db_restore: "engine s = engine s0 \<Longrightarrow> same_db s0 (restore s0 s)"
  by (simp add: same_db_def restore_def)

text \<open>A statement is lost, or it runs; only the list of faults is consumed besides.\<close>

lemma stmt_cases:
  assumes "stmt m s = (r, t)"
  obtains (lost) e fs where "r = Inl e" "t = s\<lparr>pg_faults := fs\<rparr>"
    | (silent) e fs r' where "r = Inl e" "m (s\<lparr>pg_faults := fs\<rparr>) = (r', t)"
    | (run) fs where "m (s\<lparr>pg_faults := fs\<rparr>) = (r, t)"
proof (cases "pg_faults s")
  case Nil
  then have "s\<lparr>pg_faults := []\<rparr> = s" by simp
  with Nil assms run [of "[]"] show thesis by (simp add: stmt_def)
next
  case (Cons f fs)
  show thesis
  proof (cases f)
    case None
    with Cons assms run [of fs] show thesis by (simp add: stmt_def)
  next
    case (Some x)
    obtain r' t' where m: "m (s\<lparr>pg_faults := fs\<rparr>) = (r', t')" by fastforce
    with Some Cons assms lost [of _ fs] silent [of _ fs r'] show thesis
      by (cases x) (auto simp: stmt_def Let_def)
  qed
qed

lemma stmt_Inr:
  assumes "stmt m s = (Inr a, t)"
  obtains fs where "m (s\<lparr>pg_faults := fs\<rparr>) = (Inr a, t)"
  using assms by (rule stmt_cases) auto

lemma db_ok_sameI: "same_db s t \<Longrightarrow> db_ok s \<Longrightarrow> db_ok t"
  by (simp add: same_db_def db_ok_def)

lemma keeps_stmt:
  assumes "\<And>s fs. P (s\<lparr>pg_faults := fs\<rparr>) \<longleftrightarrow> P s" and "keeps P m"
  shows "keeps P (stmt m)"
proof (rule keepsI)
  fix s r t
  assume "P s" "stmt m s = (r, t)"
  from this(2) show "P t"
    using \<open>P s\<close> assms(1) keepsD [OF assms(2), of "s\<lparr>pg_faults := _\<rparr>"]
    by (cases rule: stmt_cases) auto
qed

lemma keeps_stmt_db_ok [keeps_rules]: "keeps db_ok m \<Longrightarrow> keeps db_ok (stmt m)"
  by (rule keeps_stmt) simp

text \<open>\<open>keeps_engine m\<close>: no operation replaces the engine.\<close>

definition keeps_engine :: "('z pgdb_scheme, 'a) op \<Rightarrow> bool" where
  "keeps_engine m \<longleftrightarrow> (\<forall>s. engine (snd (m s)) = engine s)"

lemma keeps_engineD: "keeps_engine m \<Longrightarrow> m s = (r, t) \<Longrightarrow> engine t = engine s"
  by (metis keeps_engine_def snd_conv)

lemma keeps_engine_iff: "keeps_engine m \<longleftrightarrow> (\<forall>e. keeps (\<lambda>s. engine s = e) m)"
  by (auto simp: keeps_engine_def keeps_def)

lemma keeps_engine_stmt [keeps_rules]: "keeps_engine m \<Longrightarrow> keeps_engine (stmt m)"
  by (auto simp: keeps_engine_iff intro!: keeps_stmt)

lemma keeps_engine_attempt [keeps_rules]:
  "keeps_engine m \<Longrightarrow> (\<And>e. keeps_engine (h e)) \<Longrightarrow> (\<And>a. keeps_engine (k a)) \<Longrightarrow> keeps_engine (attempt m h k)"
  unfolding keeps_engine_iff by (blast intro: keeps_attempt)

lemma keeps_engine_ok [keeps_rules]: "keeps_engine (ok a)" "keeps_engine (throw e)"
  by (simp_all add: keeps_engine_def)

lemma keeps_engine_If [keeps_rules]:
  "keeps_engine m \<Longrightarrow> keeps_engine m' \<Longrightarrow> keeps_engine (if b then m else m')"
  by simp

lemma query_same: "query q s = (r, t) \<Longrightarrow> same_db s t"
  unfolding query_def by (erule stmt_cases) auto

lemma keeps_engine_query [keeps_rules]: "keeps_engine (query q)"
  unfolding keeps_engine_def by (metis query_same same_db_def prod.collapse)

lemma query_Inr:
  assumes "query q s = (Inr a, t)"
  obtains fs where "q (s\<lparr>pg_faults := fs\<rparr>) = Inr a" "t = s\<lparr>pg_faults := fs\<rparr>"
  using assms unfolding query_def by (rule stmt_Inr) auto

lemma keeps_query [keeps_rules]: "keeps db_ok (query q)"
  by (rule keepsI) (auto dest: query_same intro: db_ok_sameI)

text \<open>
  A transaction ends with the tables it started with, or with those its body left when it
  succeeded: never with a part of the body's work.
\<close>

lemma transaction_cases:
  assumes "transaction body s = (r, t)" and eng: "keeps_engine body"
  obtains (none) e where "r = Inl e" "same_db s t"
    | (all) fs a u where "body (s\<lparr>pg_faults := fs\<rparr>) = (Inr a, u)" "same_db u t"
        "r = Inr a \<or> (\<exists>e. r = Inl e)"
  using assms(1) unfolding transaction_def
proof (cases rule: attempt_cases)
  case (err e s1)
  from err(1) have "same_db s s1" by (rule stmt_cases) auto
  with err(2) none show ?thesis by auto
next
  case (val x s1)
  from val(1) obtain fs where s1: "s1 = s\<lparr>pg_faults := fs\<rparr>" by (rule stmt_Inr) auto
  obtain r' u where body: "body s1 = (r', u)" by fastforce
  have u: "engine u = engine s1" using keeps_engineD [OF eng body] .
  show ?thesis
  proof (cases r')
    case (Inl e)
    with body val(2) have "r = Inl e" "t = restore s1 u" by auto
    with none u s1 same_db_restore [of u s1] show ?thesis by auto
  next
    case (Inr a)
    note all = all [of fs a u] and none
    moreover have "same_db s1 (restore s1 (u\<lparr>pg_faults := fs'\<rparr>))" for fs'
      using u by (intro same_db_restore) simp
    ultimately show ?thesis
      using Inr body val(2) s1
      by (auto simp: Let_def split: list.splits option.splits fault.splits)
  qed
qed

lemma transaction_Inr:
  assumes "transaction body s = (Inr a, t)"
  obtains fs u where "body (s\<lparr>pg_faults := fs\<rparr>) = (Inr a, u)" "same_db u t"
  using assms unfolding transaction_def
proof (rule attempt_throw_InrE)
  fix x s1
  assume "stmt (ok ()) s = (Inr x, s1)"
  then obtain fs where s1: "s1 = s\<lparr>pg_faults := fs\<rparr>" by (rule stmt_Inr) auto
  assume "(case body s1 of (r, s) \<Rightarrow> (case r of
           Inl err \<Rightarrow> (Inl err, restore s1 s)
         | Inr a \<Rightarrow> (case pg_faults s of
             [] \<Rightarrow> (Inr a, s)
           | f # fs \<Rightarrow> (let s' = s\<lparr>pg_faults := fs\<rparr> in
               case f of None \<Rightarrow> (Inr a, s')
               | Some (Lost_before err) \<Rightarrow> (Inl (Wrap ''commit: '' err []), restore s1 s')
               | Some (Lost_after err) \<Rightarrow> (Inl (Wrap ''commit: '' err []), s'))))) = (Inr a, t)"
  then show thesis using that [of fs] s1
    by (auto simp: Let_def split: prod.splits sum.splits list.splits option.splits fault.splits)
qed

lemma keeps_transaction:
  assumes "keeps_engine body"
    and "\<And>s a t. db_ok s \<Longrightarrow> body s = (Inr a, t) \<Longrightarrow> db_ok t"
  shows "keeps db_ok (transaction body)"
proof (rule keepsI)
  fix s r t
  assume "db_ok s" and "transaction body s = (r, t)"
  from this(2) assms(1) show "db_ok t"
  proof (rule transaction_cases)
    fix fs a u
    assume "body (s\<lparr>pg_faults := fs\<rparr>) = (Inr a, u)" "same_db u t"
    with \<open>db_ok s\<close> assms(2) [of "s\<lparr>pg_faults := fs\<rparr>" a u] show "db_ok t" by (simp add: db_ok_same)
  qed (use \<open>db_ok s\<close> in \<open>auto intro: db_ok_sameI\<close>)
qed

lemma coalesce_nullable [simp]: "coalesce (nullable s) = s"
  by (simp add: coalesce_def nullable_def)

lemma find_Some_mem: "find P xs = Some x \<Longrightarrow> x \<in> set xs \<and> P x"
  by (metis find_Some_iff nth_mem)

lemma find_distinct:
  "distinct (map f xs) \<Longrightarrow> x \<in> set xs \<Longrightarrow> find (\<lambda>y. f y = f x) xs = Some x"
  by (induction xs) (auto simp: image_iff)

lemma find_map_if:
  assumes "\<And>x. x \<in> set xs \<Longrightarrow> P x \<Longrightarrow> f (g x) = f x"
  shows "find (\<lambda>x. f x = k) (map (\<lambda>x. if P x then g x else x) xs)
    = map_option (\<lambda>x. if P x then g x else x) (find (\<lambda>x. f x = k) xs)"
  using assms by (induction xs) auto

lemma find_append: "find P (xs @ ys) = (case find P xs of None \<Rightarrow> find P ys | Some x \<Rightarrow> Some x)"
  by (induction xs) auto

lemma find_fresh: "k \<notin> f ` set xs \<Longrightarrow> find (\<lambda>x. f x = k) (xs @ ys) = find (\<lambda>x. f x = k) ys"
  by (induction xs) auto

section \<open>The world outside the tables\<close>

text \<open>
  \<open>outside m\<close> is a call of a component that has no access to the database: the queue, the
  chain node, Telegram, a driver that opens or closes a connection. It changes only what is
  outside the tables. \<open>outside_call\<close> is the same for calls that return no error.
\<close>

definition outside :: "('z, 'a) op \<Rightarrow> ('z pgdb_scheme, 'a) op" where
  "outside m s = (case m (pgdb.more s) of (r, z) \<Rightarrow> (r, pgdb.more_update (\<lambda>_. z) s))"

definition outside_call :: "('z \<Rightarrow> 'r \<times> 'z) \<Rightarrow> 'z pgdb_scheme \<Rightarrow> 'r \<times> 'z pgdb_scheme" where
  "outside_call f s = (case f (pgdb.more s) of (r, z) \<Rightarrow> (r, pgdb.more_update (\<lambda>_. z) s))"

lemma outside_same: "outside m s = (r, t) \<Longrightarrow> same_db s t"
  by (auto simp: outside_def same_db_def split: prod.splits)

lemma outside_call_same: "same_db s (snd (outside_call f s))"
  by (auto simp: outside_call_def same_db_def split: prod.splits)

lemma more_outside: "pgdb.more (snd (outside m s)) = snd (m (pgdb.more s))" "fst (outside m s) = fst (m (pgdb.more s))"
  "pgdb.more (snd (outside_call f s)) = snd (f (pgdb.more s))" "fst (outside_call f s) = fst (f (pgdb.more s))"
  by (simp_all add: outside_def outside_call_def split: prod.splits)

end
