(* ===== verification/WalletRepo.thy ===== *)
theory WalletRepo
  imports Postgres "HOL-Library.Monad_Syntax"
begin

text \<open>
  \<open>internal/persistence/postgres/wallets.go\<close>: the repository of wallets and policies, one
  definition per method, each with the SQL statements it sends. The theory ends with the
  interpretation of the contract \<open>wallet_store\<close> on this repository.
\<close>

section \<open>Statements\<close>

definition with_uuid :: "string \<Rightarrow> (string \<Rightarrow> ('z pgdb_scheme, 'a) op) \<Rightarrow> ('z pgdb_scheme, 'a) op" where
  "with_uuid x m s = (case pg_uuid_in (engine s) x of
       None \<Rightarrow> (Inl (pg_err (engine s) ''22P02''), s)
     | Some k \<Rightarrow> m k s)"

definition wallet_of_row :: "wallet_row \<Rightarrow> Wallet" where
  "wallet_of_row r =
     \<lparr>Wallet_ID = wr_id r, Wallet_UserID = wr_user_id r, Wallet_Address = wr_address r,
      Wallet_ChainID = word_of_int (wr_chain_id r), Wallet_Role = wr_role r,
      Wallet_Status = wr_status r, Wallet_Label = coalesce (wr_label r),
      Wallet_VerifiedAt = wr_verified_at r, Wallet_CreatedAt = wr_created_at r,
      Wallet_UpdatedAt = wr_updated_at r\<rparr>"

definition find_wallet :: "'z pgdb_scheme \<Rightarrow> string \<Rightarrow> wallet_row option" where
  "find_wallet s i = do { k \<leftarrow> pg_uuid_in (engine s) i; find (\<lambda>r. wr_id r = k) (wallets s) }"

text \<open>\<open>walletSelect + WHERE id = $1\<close>\<close>

definition select_wallet :: "string \<Rightarrow> 'z pgdb_scheme \<Rightarrow> error + wallet_row" where
  "select_wallet i s = (if pg_uuid_in (engine s) i = None then Inl (pg_err (engine s) ''22P02'')
     else case find_wallet s i of None \<Rightarrow> Inl (Foreign PgxErrNoRows) | Some r \<Rightarrow> Inr r)"

definition scanWallet :: "('s, wallet_row) op \<Rightarrow> ('s, Wallet) op" where
  "scanWallet row = attempt row
     (\<lambda>err. if errors_Is err (Foreign PgxErrNoRows) then throw (Sentinel PostgresErrNotFound)
            else throw (Wrap ''scan wallet: '' err []))
     (\<lambda>r. ok (wallet_of_row r))"

text \<open>\<open>INSERT INTO wallets ... RETURNING id\<close>\<close>

definition insert_wallet :: "Wallet \<Rightarrow> ('z pgdb_scheme, string) op" where
  "insert_wallet w = with_uuid (Wallet_UserID w) (\<lambda>uid s.
     let e = engine s; s' = s\<lparr>pg_uuid_next := Suc (pg_uuid_next s)\<rparr>;
         row = \<lparr>wr_id = pg_gen_uuid e (pg_uuid_next s), wr_user_id = uid, wr_address = Wallet_Address w,
                wr_chain_id = sint (Wallet_ChainID w), wr_role = Wallet_Role w, wr_status = ''pending'',
                wr_label = nullable (Wallet_Label w), wr_verified_at = None,
                wr_created_at = pg_clock s, wr_updated_at = pg_clock s\<rparr>
     in if \<not> wallet_row_checked row then (Inl (pg_err e ''23514''), s')
        else if \<not> wallets_unique (wallets s @ [row]) then (Inl (pg_err e ''23505''), s')
        else if uid \<notin> User_ID ` set (users s) then (Inl (pg_err e ''23503''), s')
        else (Inr (wr_id row), s'\<lparr>wallets := wallets s @ [row]\<rparr>))"

text \<open>
  The limits of a policy as column values. An integer outside \<open>int4\<close> and a number that does
  not fit its \<open>numeric(p, s)\<close> are refused.
\<close>

definition int4 :: "int \<Rightarrow> int option" where
  "int4 x = (if - (2 ^ 31) \<le> x \<and> x < 2 ^ 31 then Some x else None)"

definition set_limits :: "pg_engine \<Rightarrow> WalletPolicy \<Rightarrow> policy_row \<Rightarrow> policy_row option" where
  "set_limits e p r = do {
     mp \<leftarrow> pg_numeric_in e 6 3 (Pol_MaxPositionPercent p);
     op \<leftarrow> int4 (Pol_MaxOpenPositions p);
     dl \<leftarrow> pg_numeric_in e 6 3 (Pol_DailyLossLimitPercent p);
     sl \<leftarrow> pg_numeric_in e 6 3 (Pol_StopLossPercent p);
     cr \<leftarrow> pg_numeric_in e 8 3 (Pol_CapitalRecoveryPercent p);
     sb \<leftarrow> int4 (Pol_MaxSlippageBPS p);
     ml \<leftarrow> pg_numeric_in e 20 2 (Pol_MinLiquidityUSD p);
     Some (r\<lparr>pr_max_position_percent := mp, pr_max_open_positions := op,
            pr_daily_loss_limit_percent := dl, pr_stop_loss_percent := sl,
            pr_capital_recovery_percent := cr, pr_max_slippage_bps := sb,
            pr_min_liquidity_usd := ml, pr_trading_enabled := Pol_TradingEnabled p\<rparr>)
   }"

definition policy_of_row :: "pg_engine \<Rightarrow> policy_row \<Rightarrow> WalletPolicy" where
  "policy_of_row e r =
     \<lparr>Pol_ID = pr_id r, Pol_WalletID = pr_wallet_id r,
      Pol_MaxPositionPercent = pg_numeric_out e (pr_max_position_percent r),
      Pol_MaxOpenPositions = pr_max_open_positions r,
      Pol_DailyLossLimitPercent = pg_numeric_out e (pr_daily_loss_limit_percent r),
      Pol_StopLossPercent = pg_numeric_out e (pr_stop_loss_percent r),
      Pol_CapitalRecoveryPercent = pg_numeric_out e (pr_capital_recovery_percent r),
      Pol_MaxSlippageBPS = pr_max_slippage_bps r,
      Pol_MinLiquidityUSD = pg_numeric_out e (pr_min_liquidity_usd r),
      Pol_TradingEnabled = pr_trading_enabled r,
      Pol_CreatedAt = pr_created_at r, Pol_UpdatedAt = pr_updated_at r\<rparr>"

definition insert_policy :: "string \<Rightarrow> WalletPolicy \<Rightarrow> ('z pgdb_scheme, unit) op" where
  "insert_policy walletID p = with_uuid walletID (\<lambda>k s.
     let e = engine s; s' = s\<lparr>pg_uuid_next := Suc (pg_uuid_next s)\<rparr>;
         blank = \<lparr>pr_id = pg_gen_uuid e (pg_uuid_next s), pr_wallet_id = k,
                  pr_max_position_percent = PgFin 0, pr_max_open_positions = 0,
                  pr_daily_loss_limit_percent = PgFin 0, pr_stop_loss_percent = PgFin 0,
                  pr_capital_recovery_percent = PgFin 0, pr_max_slippage_bps = 0,
                  pr_min_liquidity_usd = PgFin 0, pr_trading_enabled = False,
                  pr_created_at = pg_clock s, pr_updated_at = pg_clock s\<rparr>
     in case set_limits e p blank of
          None \<Rightarrow> (Inl (pg_err e ''22003''), s')
        | Some row \<Rightarrow>
            if \<not> policy_row_checked row then (Inl (pg_err e ''23514''), s')
            else if \<not> policies_unique (wallet_policies s @ [row]) then (Inl (pg_err e ''23505''), s')
            else if k \<notin> wr_id ` set (wallets s) then (Inl (pg_err e ''23503''), s')
            else (Inr (), s'\<lparr>wallet_policies := wallet_policies s @ [row]\<rparr>))"

text \<open>
  \<open>UPDATE wallets SET ... WHERE hit\<close>, with the trigger \<open>wallets_set_updated_at\<close>; the value
  is the number of rows.
\<close>

definition update_wallet_rows ::
    "(wallet_row \<Rightarrow> bool) \<Rightarrow> (wallet_row \<Rightarrow> wallet_row) \<Rightarrow> ('z pgdb_scheme, nat) op" where
  "update_wallet_rows hit f s =
     (let e = engine s; g = (\<lambda>r. (f r)\<lparr>wr_updated_at := pg_clock s\<rparr>);
          ws = map (\<lambda>r. if hit r then g r else r) (wallets s)
      in if \<not> list_all wallet_row_checked (map g (filter hit (wallets s))) then (Inl (pg_err e ''23514''), s)
         else if \<not> wallets_unique ws then (Inl (pg_err e ''23505''), s)
         else (Inr (length (filter hit (wallets s))), s\<lparr>wallets := ws\<rparr>))"

definition update_policy_rows :: "string \<Rightarrow> WalletPolicy \<Rightarrow> ('z pgdb_scheme, nat) op" where
  "update_policy_rows k p s =
     (let e = engine s; hit = (\<lambda>r. pr_wallet_id r = k);
          new = (\<lambda>r. map_option (\<lambda>r'. r'\<lparr>pr_updated_at := pg_clock s\<rparr>) (set_limits e p r));
          hits = filter hit (wallet_policies s)
      in if \<not> list_all (\<lambda>r. new r \<noteq> None) hits then (Inl (pg_err e ''22003''), s)
         else if \<not> list_all (\<lambda>r. policy_row_checked (the (new r))) hits then (Inl (pg_err e ''23514''), s)
         else (Inr (length hits),
               s\<lparr>wallet_policies := map (\<lambda>r. if hit r then the (new r) else r) (wallet_policies s)\<rparr>))"

section \<open>The methods\<close>

definition link_tx :: "Wallet \<Rightarrow> WalletPolicy \<Rightarrow> ('z pgdb_scheme, Wallet) op" where
  "link_tx w p =
     attempt (stmt (insert_wallet w))
       (\<lambda>err. if isUniqueViolation err then throw (Sentinel ErrWalletAlreadyLinked)
              else throw (Wrap ''insert wallet: '' err []))
       (\<lambda>i. attempt (stmt (insert_policy i p)) (\<lambda>err. throw (Wrap ''insert policy: '' err []))
       (\<lambda>_. scanWallet (query (select_wallet i))))"

definition WalletRepo_Link :: "Wallet \<Rightarrow> WalletPolicy \<Rightarrow> ('z pgdb_scheme, Wallet) op" where
  "WalletRepo_Link w p = (case Validate p of
       Some err \<Rightarrow> throw (Wrap ''invalid policy: '' err [])
     | None \<Rightarrow> transaction (link_tx w p))"

definition WalletRepo_Get :: "string \<Rightarrow> ('z pgdb_scheme, Wallet) op" where
  "WalletRepo_Get i = scanWallet (query (select_wallet i))"

text \<open>
  Rows created at the same instant come in the order of the table. The rows are streamed, so
  the connection can also fail after the statement was accepted (\<open>rows.Err\<close>).
\<close>

definition WalletRepo_ListByUser :: "UserID \<Rightarrow> ('z pgdb_scheme, Wallet list) op" where
  "WalletRepo_ListByUser userID =
     attempt (query (\<lambda>s. case pg_uuid_in (engine s) userID of
                 None \<Rightarrow> Inl (pg_err (engine s) ''22P02'')
               | Some k \<Rightarrow> Inr (sort_key (\<lambda>r. - wr_created_at r)
                                 (filter (\<lambda>r. wr_user_id r = k) (wallets s)))))
       (\<lambda>err. throw (Wrap ''list wallets: '' err []))
       (\<lambda>rows. attempt (stmt (ok ())) throw (\<lambda>_. ok (map wallet_of_row rows)))"

definition WalletRepo_MarkVerified :: "string \<Rightarrow> time \<Rightarrow> ('z pgdb_scheme, unit) op" where
  "WalletRepo_MarkVerified i tm =
     attempt (stmt (with_uuid i (\<lambda>k s.
         update_wallet_rows (\<lambda>r. wr_id r = k \<and> wr_status r = ''pending'')
           (\<lambda>r. r\<lparr>wr_status := ''active'', wr_verified_at := Some (pg_timestamp_in (engine s) tm)\<rparr>) s)))
       (\<lambda>err. throw (Wrap ''mark verified: '' err []))
       (\<lambda>rowsAffected. if rowsAffected = 0 then ok () else ok ())"

definition set_status_rows :: "string \<Rightarrow> WalletStatus \<Rightarrow> bool \<Rightarrow> ('z pgdb_scheme, nat) op" where
  "set_status_rows i nxt clearVerified = with_uuid i (\<lambda>k.
     update_wallet_rows (\<lambda>r. wr_id r = k)
       (\<lambda>r. r\<lparr>wr_status := nxt, wr_verified_at := (if clearVerified then None else wr_verified_at r)\<rparr>))"

definition WalletRepo_SetStatus :: "unicode \<Rightarrow> string \<Rightarrow> WalletStatus \<Rightarrow> ('z pgdb_scheme, unit) op" where
  "WalletRepo_SetStatus U i nxt =
     (if \<not> WalletStatus_Valid nxt then throw (New (''invalid wallet status '' @ Quote U nxt))
      else attempt (WalletRepo_Get i) throw (\<lambda>current.
        if Wallet_Status current = nxt then ok ()
        else if \<not> CanTransitionTo (Wallet_Status current) nxt
          then throw (New (''illegal wallet transition '' @ Wallet_Status current @ '' -> '' @ nxt))
        else attempt (stmt (set_status_rows i nxt (nxt = WalletPending)))
               (\<lambda>err. throw (Wrap ''set wallet status: '' err [])) (\<lambda>_. ok ())))"

definition find_policy :: "'z pgdb_scheme \<Rightarrow> string \<Rightarrow> policy_row option" where
  "find_policy s i = do { k \<leftarrow> pg_uuid_in (engine s) i; find (\<lambda>r. pr_wallet_id r = k) (wallet_policies s) }"

definition select_policy :: "string \<Rightarrow> 'z pgdb_scheme \<Rightarrow> error + WalletPolicy" where
  "select_policy i s = (if pg_uuid_in (engine s) i = None then Inl (pg_err (engine s) ''22P02'')
     else case find_policy s i of None \<Rightarrow> Inl (Foreign PgxErrNoRows)
       | Some r \<Rightarrow> Inr (policy_of_row (engine s) r))"

definition WalletRepo_GetPolicy :: "string \<Rightarrow> ('z pgdb_scheme, WalletPolicy) op" where
  "WalletRepo_GetPolicy i =
     attempt (query (select_policy i))
       (\<lambda>err. if errors_Is err (Foreign PgxErrNoRows) then throw (Sentinel PostgresErrNotFound)
              else throw (Wrap ''get policy: '' err []))
       ok"

definition WalletRepo_UpdatePolicy :: "string \<Rightarrow> WalletPolicy \<Rightarrow> ('z pgdb_scheme, unit) op" where
  "WalletRepo_UpdatePolicy i p = (case Validate p of
       Some err \<Rightarrow> throw (Wrap ''invalid policy: '' err [])
     | None \<Rightarrow> attempt (stmt (with_uuid i (\<lambda>k. update_policy_rows k p)))
         (\<lambda>err. throw (Wrap ''update policy: '' err []))
         (\<lambda>rowsAffected. if rowsAffected = 0 then throw (Sentinel PostgresErrNotFound) else ok ()))"

definition WalletRepo :: "unicode \<Rightarrow> 'z pgdb_scheme WalletStore" where
  "WalletRepo U = \<lparr>Store_Link = WalletRepo_Link, Store_Get = WalletRepo_Get,
     Store_ListByUser = WalletRepo_ListByUser, Store_MarkVerified = WalletRepo_MarkVerified,
     Store_SetStatus = WalletRepo_SetStatus U, Store_GetPolicy = WalletRepo_GetPolicy,
     Store_UpdatePolicy = WalletRepo_UpdatePolicy\<rparr>"

section \<open>Lookups\<close>

definition wallet_at :: "'z pgdb_scheme \<Rightarrow> string \<Rightarrow> Wallet option" where
  "wallet_at s i = map_option wallet_of_row (find_wallet s i)"

definition policy_at :: "'z pgdb_scheme \<Rightarrow> string \<Rightarrow> WalletPolicy option" where
  "policy_at s i = map_option (policy_of_row (engine s)) (find_policy s i)"

lemma wallet_of_row_sels [simp]:
  "Wallet_ID (wallet_of_row r) = wr_id r" "Wallet_UserID (wallet_of_row r) = wr_user_id r"
  "Wallet_Address (wallet_of_row r) = wr_address r" "Wallet_Role (wallet_of_row r) = wr_role r"
  "Wallet_Status (wallet_of_row r) = wr_status r" "Wallet_VerifiedAt (wallet_of_row r) = wr_verified_at r"
  "Wallet_ChainID (wallet_of_row r) = word_of_int (wr_chain_id r)"
  by (simp_all add: wallet_of_row_def)

lemma find_wallet_Some:
  "find_wallet s i = Some r \<Longrightarrow> r \<in> set (wallets s) \<and> pg_uuid_in (engine s) i = Some (wr_id r)"
  by (auto simp: find_wallet_def Option.bind_eq_Some_conv dest: find_Some_mem)

lemma find_policy_Some:
  "find_policy s i = Some r \<Longrightarrow> r \<in> set (wallet_policies s) \<and> pg_uuid_in (engine s) i = Some (pr_wallet_id r)"
  by (auto simp: find_policy_def Option.bind_eq_Some_conv dest: find_Some_mem)

lemma same_db_at: "same_db s t \<Longrightarrow> wallet_at t = wallet_at s \<and> policy_at t = policy_at s"
  by (auto simp: same_db_def wallet_at_def policy_at_def find_wallet_def find_policy_def)

lemma at_faults [simp]:
  "wallet_at (s\<lparr>pg_faults := fs\<rparr>) = wallet_at s" "policy_at (s\<lparr>pg_faults := fs\<rparr>) = policy_at s"
  using same_db_at [OF same_db_faults(1)] by auto

lemma select_wallet_Inr [simp]: "select_wallet i s = Inr r \<longleftrightarrow> find_wallet s i = Some r"
  by (auto simp: select_wallet_def find_wallet_def split: option.splits)

lemma select_policy_Inr [simp]:
  "select_policy i s = Inr p \<longleftrightarrow> policy_at s i = Some p"
  by (auto simp: select_policy_def policy_at_def find_policy_def split: option.splits)

lemma find_faults [simp]:
  "find_wallet (s\<lparr>pg_faults := fs\<rparr>) = find_wallet s" "find_policy (s\<lparr>pg_faults := fs\<rparr>) = find_policy s"
  by (auto simp: find_wallet_def find_policy_def)

lemma WalletRepo_Get_up:
  assumes "pg_faults s = []" "pg_uuid_in (engine s) i \<noteq> None"
  shows "WalletRepo_Get i s = (case wallet_at s i of None \<Rightarrow> Inl (Sentinel PostgresErrNotFound) | Some w \<Rightarrow> Inr w, s)"
  using assms by (cases "find_wallet s i")
    (auto simp: WalletRepo_Get_def scanWallet_def query_def stmt_def select_wallet_def wallet_at_def)

lemma find_wallet_same: "same_db s t \<Longrightarrow> find_wallet t = find_wallet s"
  by (auto simp: same_db_def find_wallet_def)

lemma db_okD:
  assumes "db_ok s"
  shows "engine_ok (engine s)" "wallets_ok (engine s) (users s) (wallets s) (wallet_policies s)"
    "distinct (map wr_id (wallets s))" "distinct (map pr_wallet_id (wallet_policies s))"
    "pr_wallet_id ` set (wallet_policies s) = wr_id ` set (wallets s)"
  using assms by (auto simp: db_ok_def wallets_ok_def wallets_unique_def policies_unique_def)

text \<open>A row of the table is the one its ID finds, in any text form of that ID.\<close>

lemma find_wallet_row:
  assumes "db_ok s" "r \<in> set (wallets s)" "pg_uuid_in (engine s) i = Some (wr_id r)"
  shows "find_wallet s i = Some r"
  using assms find_distinct [OF db_okD(3) [OF assms(1)], of r] by (simp add: find_wallet_def)

lemma find_wallet_self: "db_ok s \<Longrightarrow> r \<in> set (wallets s) \<Longrightarrow> find_wallet s (wr_id r) = Some r"
  by (rule find_wallet_row) (auto simp: db_ok_def wallets_ok_def)

lemma find_policy_iff:
  assumes "db_ok s"
  shows "(find_policy s i \<noteq> None) = (find_wallet s i \<noteq> None)"
proof (cases "pg_uuid_in (engine s) i")
  case (Some k)
  have "k \<in> pr_wallet_id ` set (wallet_policies s) \<longleftrightarrow> k \<in> wr_id ` set (wallets s)"
    using db_okD(5) [OF assms] by simp
  with Some show ?thesis by (auto simp: find_policy_def find_wallet_def find_None_iff image_iff)
qed (simp add: find_policy_def find_wallet_def)

section \<open>Reads\<close>

lemma scan_query:
  assumes "scanWallet (query (select_wallet i)) s = (r, t)"
  shows "same_db s t \<and> (\<forall>w. r = Inr w \<longrightarrow> wallet_at s i = Some w)"
  using assms unfolding scanWallet_def
  by (rule attempt_cases)
     (auto simp: wallet_at_def dest: query_same split: if_splits elim!: query_Inr)

lemma Get_facts:
  assumes "WalletRepo_Get i s = (r, t)"
  shows "same_db s t" "r = Inr w \<Longrightarrow> wallet_at s i = Some w"
  using scan_query assms unfolding WalletRepo_Get_def by blast+

lemma GetPolicy_facts:
  assumes "WalletRepo_GetPolicy i s = (r, t)"
  shows "same_db s t" "r = Inr p \<Longrightarrow> policy_at s i = Some p"
  using assms unfolding WalletRepo_GetPolicy_def
  by (auto elim!: attempt_cases query_Inr dest: query_same split: if_splits)

lemma stmt_ok_same: "stmt (ok a) s = (r, t) \<Longrightarrow> same_db s t"
  by (erule stmt_cases) auto

lemma ListByUser_same: "WalletRepo_ListByUser u s = (r, t) \<Longrightarrow> same_db s t"
  unfolding WalletRepo_ListByUser_def
  by (auto elim!: attempt_cases dest!: query_same stmt_ok_same intro: same_db_trans)

lemma ListByUser_value:
  assumes "WalletRepo_ListByUser u s = (Inr ws, t)"
  shows "\<exists>k. pg_uuid_in (engine s) u = Some k \<and>
    ws = map wallet_of_row (sort_key (\<lambda>r. - wr_created_at r) (filter (\<lambda>r. wr_user_id r = k) (wallets s)))"
  using assms unfolding WalletRepo_ListByUser_def
  by (auto elim!: attempt_cases query_Inr split: option.splits)

lemma ListByUser_mem:
  assumes "db_ok s" "WalletRepo_ListByUser u s = (Inr ws, t)" "w \<in> set ws"
  shows "wallet_at s (Wallet_ID w) = Some w \<and> pg_uuid_in (engine s) u = Some (Wallet_UserID w)"
  using ListByUser_value [OF assms(2)] assms(1,3) by (auto simp: wallet_at_def find_wallet_self)

lemma keeps_same: "(\<And>s r t. m s = (r, t) \<Longrightarrow> same_db s t) \<Longrightarrow> keeps db_ok m"
  by (rule keepsI) (blast intro: db_ok_sameI)

section \<open>Updates of wallets\<close>

definition rewritten ::
    "(wallet_row \<Rightarrow> bool) \<Rightarrow> (wallet_row \<Rightarrow> wallet_row) \<Rightarrow> time \<Rightarrow> wallet_row list \<Rightarrow> wallet_row list" where
  "rewritten hit f now = map (\<lambda>x. if hit x then (f x)\<lparr>wr_updated_at := now\<rparr> else x)"

lemma update_wallet_rows_cases:
  assumes "update_wallet_rows hit f s = (r, t)"
  obtains (refused) e where "r = Inl e" "t = s"
    | (written) "t = s\<lparr>wallets := rewritten hit f (pg_clock s) (wallets s)\<rparr>"
        "wallets_unique (rewritten hit f (pg_clock s) (wallets s))"
        "\<forall>x \<in> set (wallets s). hit x \<longrightarrow> wallet_row_checked ((f x)\<lparr>wr_updated_at := pg_clock s\<rparr>)"
        "r = Inr (length (filter hit (wallets s)))"
  using assms refused written unfolding update_wallet_rows_def Let_def rewritten_def [symmetric]
  by (auto simp: list_all_iff rewritten_def [symmetric] split: if_split_asm)

lemma db_ok_set_wallets:
  assumes "db_ok s" "wallets_unique ws" "list_all wallet_row_checked ws"
    and "map wr_id ws = map wr_id (wallets s)" "map wr_user_id ws = map wr_user_id (wallets s)"
  shows "db_ok (s\<lparr>wallets := ws\<rparr>)"
proof -
  have ids: "wr_id ` set ws = wr_id ` set (wallets s)" "wr_user_id ` set ws = wr_user_id ` set (wallets s)"
    by (metis assms(4) list.set_map, metis assms(5) list.set_map)
  have "\<forall>r \<in> wr_id ` set (wallets s). pg_uuid_in (engine s) r = Some r"
    using assms(1) by (auto simp: db_ok_def wallets_ok_def)
  then have "\<forall>r \<in> set ws. pg_uuid_in (engine s) (wr_id r) = Some (wr_id r)"
    using ids by (metis image_eqI)
  with assms ids show ?thesis by (simp add: db_ok_def wallets_ok_def list_all_iff)
qed

lemma update_wallet_rows_effect:
  assumes upd: "update_wallet_rows hit f s = (r, t)"
    and f: "\<And>x. wr_id (f x) = wr_id x" "\<And>x. wr_user_id (f x) = wr_user_id x"
  shows "db_ok s \<Longrightarrow> db_ok t" and "policy_at t = policy_at s"
    and "\<exists>P. (isl r \<or> P = hit) \<and> P \<le> hit \<and>
      (\<forall>j. find_wallet t j = map_option (\<lambda>x. if P x then (f x)\<lparr>wr_updated_at := pg_clock s\<rparr> else x) (find_wallet s j))"
proof -
  let ?g = "\<lambda>x. (f x)\<lparr>wr_updated_at := pg_clock s\<rparr>" and ?ws = "rewritten hit f (pg_clock s) (wallets s)"
  have ids: "map wr_id ?ws = map wr_id (wallets s)" "map wr_user_id ?ws = map wr_user_id (wallets s)"
    using f by (auto simp: rewritten_def)
  have find: "find_wallet (s\<lparr>wallets := ?ws\<rparr>) j = map_option (\<lambda>x. if hit x then ?g x else x) (find_wallet s j)" for j
    using f by (cases "pg_uuid_in (engine s) j")
      (simp_all add: find_wallet_def rewritten_def find_map_if [of _ _ wr_id ?g])
  from upd show "db_ok t" if "db_ok s"
  proof (cases rule: update_wallet_rows_cases)
    case written
    moreover have "\<forall>x \<in> set (wallets s). wallet_row_checked x"
      using that by (simp add: db_ok_def wallets_ok_def)
    ultimately have "list_all wallet_row_checked ?ws" by (auto simp: list_all_iff rewritten_def)
    with that ids written show ?thesis by (simp add: db_ok_set_wallets)
  qed (use that in simp)
  from upd show "policy_at t = policy_at s"
    by (cases rule: update_wallet_rows_cases) (auto simp: policy_at_def find_policy_def)
  from upd show "\<exists>P. (isl r \<or> P = hit) \<and> P \<le> hit \<and>
      (\<forall>j. find_wallet t j = map_option (\<lambda>x. if P x then ?g x else x) (find_wallet s j))"
  proof (cases rule: update_wallet_rows_cases)
    case (refused e)
    then show ?thesis by (intro exI [of _ "\<lambda>_. False"]) (simp add: option.map_ident le_fun_def)
  next
    case written
    with find show ?thesis by (intro exI [of _ hit]) simp
  qed
qed

text \<open>
  What an \<open>UPDATE wallets ... WHERE id = $1 AND ...\<close> can have done, whatever it returned:
  nothing, or the change of the rows it hits, which are rows with that ID.
\<close>

definition updated :: "string \<Rightarrow> (wallet_row \<Rightarrow> bool) \<Rightarrow> (pg_engine \<Rightarrow> wallet_row \<Rightarrow> wallet_row) \<Rightarrow>
    'z pgdb_scheme \<Rightarrow> error + nat \<Rightarrow> 'z pgdb_scheme \<Rightarrow> bool" where
  "updated i hit f s r t \<longleftrightarrow> (db_ok s \<longrightarrow> db_ok t) \<and> policy_at t = policy_at s \<and>
     (\<exists>P now. (isl r \<or> P = (\<lambda>x. pg_uuid_in (engine s) i = Some (wr_id x) \<and> hit x))
        \<and> P \<le> (\<lambda>x. pg_uuid_in (engine s) i = Some (wr_id x) \<and> hit x)
        \<and> (\<forall>j. find_wallet t j
              = map_option (\<lambda>x. if P x then (f (engine s) x)\<lparr>wr_updated_at := now\<rparr> else x) (find_wallet s j)))"

lemma updated_none:
  assumes "same_db s t" "r = Inl e"
  shows "updated i hit f s r t"
proof -
  let ?P = "\<lambda>_ :: wallet_row. False"
  have "\<forall>j. find_wallet t j = map_option (\<lambda>x. if ?P x then (f (engine s) x)\<lparr>wr_updated_at := 0\<rparr> else x) (find_wallet s j)"
    by (simp add: find_wallet_same [OF assms(1)] option.map_ident)
  moreover have "?P \<le> Q" for Q by (simp add: le_fun_def)
  ultimately show ?thesis
    using assms db_ok_same [OF assms(1)] same_db_at [OF assms(1)] unfolding updated_def
    by (intro conjI exI [of _ ?P] exI [of _ "0::time"]) simp_all
qed

lemma updated_lost: "updated i hit f s r t \<Longrightarrow> updated i hit f s (Inl e) t"
  by (simp only: updated_def sum.disc simp_thms) blast

lemma updated_with_uuid:
  assumes "with_uuid i (\<lambda>k u. update_wallet_rows (\<lambda>x. wr_id x = k \<and> hit x) (f (engine u)) u) s = (r, t)"
    and f: "\<And>e x. wr_id (f e x) = wr_id x" "\<And>e x. wr_user_id (f e x) = wr_user_id x"
  shows "updated i hit f s r t"
proof (cases "pg_uuid_in (engine s) i")
  case None
  with assms(1) have "r = Inl (pg_err (engine s) ''22P02'')" "same_db s t" by (auto simp: with_uuid_def)
  then show ?thesis by (intro updated_none)
next
  case (Some k)
  with assms(1) have "update_wallet_rows (\<lambda>x. wr_id x = k \<and> hit x) (f (engine s)) s = (r, t)"
    by (simp add: with_uuid_def)
  note eff = update_wallet_rows_effect [OF this f]
  have hits: "(\<lambda>x. pg_uuid_in (engine s) i = Some (wr_id x) \<and> hit x) = (\<lambda>x. wr_id x = k \<and> hit x)"
    by (rule ext) (use Some in auto)
  show ?thesis unfolding updated_def hits
    by (intro conjI impI eff(1,2)) (assumption, rule ex_forward [OF eff(3)], rule exI)
qed

lemma updated_faults: "updated i hit f (s\<lparr>pg_faults := fs\<rparr>) r t \<longleftrightarrow> updated i hit f s r t"
  by (simp add: updated_def cong del: if_weak_cong)

lemma updated_stmt:
  assumes "stmt (with_uuid i (\<lambda>k u. update_wallet_rows (\<lambda>x. wr_id x = k \<and> hit x) (f (engine u)) u)) s = (r, t)"
    and "\<And>e x. wr_id (f e x) = wr_id x" "\<And>e x. wr_user_id (f e x) = wr_user_id x"
  shows "updated i hit f s r t"
  using assms(1)
proof (cases rule: stmt_cases)
  case (lost e fs)
  then show ?thesis by (intro updated_none) simp_all
next
  case (silent e fs r')
  from updated_lost [OF updated_with_uuid [OF silent(2) assms(2,3)]] silent(1) show ?thesis
    by (simp add: updated_faults)
next
  case (run fs)
  from updated_with_uuid [OF run assms(2,3)] show ?thesis by (simp add: updated_faults)
qed

lemma MarkVerified_updated:
  assumes "WalletRepo_MarkVerified i tm s = (r, t)"
  obtains q where "updated i (\<lambda>x. wr_status x = ''pending'')
      (\<lambda>e x. x\<lparr>wr_status := ''active'', wr_verified_at := Some (pg_timestamp_in e tm)\<rparr>) s q t"
    and "r = Inr () \<Longrightarrow> \<not> isl q"
  using assms unfolding WalletRepo_MarkVerified_def
proof (cases rule: attempt_cases)
  case (err e s1)
  from updated_stmt [OF err(1)] err(2) that show thesis by auto
next
  case (val n s1)
  from updated_stmt [OF val(1)] val(2) that show thesis by auto
qed

lemma set_status_rows_alt: "set_status_rows i nxt c = with_uuid i (\<lambda>k u. update_wallet_rows (\<lambda>x. wr_id x = k \<and> True)
  ((\<lambda>_ x. x\<lparr>wr_status := nxt, wr_verified_at := (if c then None else wr_verified_at x)\<rparr>) (engine u)) u)"
  by (simp add: set_status_rows_def)

lemma SetStatus_cases:
  assumes "WalletRepo_SetStatus U i nxt s = (r, t)"
  obtains (none) "same_db s t" "r = Inr () \<Longrightarrow> \<exists>w. wallet_at s i = Some w \<and> Wallet_Status w = nxt"
    | (upd) s1 q w where "same_db s s1" "wallet_at s i = Some w" "CanTransitionTo (Wallet_Status w) nxt"
        "updated i (\<lambda>_. True) (\<lambda>_ x. x\<lparr>wr_status := nxt,
           wr_verified_at := (if nxt = WalletPending then None else wr_verified_at x)\<rparr>) s1 q t"
        "r = Inr () \<Longrightarrow> \<not> isl q"
proof (cases "WalletStatus_Valid nxt")
  case False
  with assms none show ?thesis by (auto simp: WalletRepo_SetStatus_def)
next
  case True
  with assms have "attempt (WalletRepo_Get i) throw (\<lambda>current.
        if Wallet_Status current = nxt then ok ()
        else if \<not> CanTransitionTo (Wallet_Status current) nxt
          then throw (New (''illegal wallet transition '' @ Wallet_Status current @ '' -> '' @ nxt))
        else attempt (stmt (set_status_rows i nxt (nxt = WalletPending)))
               (\<lambda>err. throw (Wrap ''set wallet status: '' err [])) (\<lambda>_. ok ())) s = (r, t)"
    by (simp add: WalletRepo_SetStatus_def)
  then show ?thesis
  proof (cases rule: attempt_cases)
    case (err e s1)
    with none Get_facts(1) [OF err(1)] show ?thesis by auto
  next
    case (val current s1)
    note g = Get_facts(1) [OF val(1)] Get_facts(2) [OF val(1) refl]
    consider "Wallet_Status current = nxt" | "Wallet_Status current \<noteq> nxt" "\<not> CanTransitionTo (Wallet_Status current) nxt"
      | "Wallet_Status current \<noteq> nxt" "CanTransitionTo (Wallet_Status current) nxt" by blast
    then show ?thesis
    proof cases
      case 3
      with val(2) have "attempt (stmt (set_status_rows i nxt (nxt = WalletPending)))
          (\<lambda>err. throw (Wrap ''set wallet status: '' err [])) (\<lambda>_. ok ()) s1 = (r, t)" by simp
      then obtain q where "stmt (set_status_rows i nxt (nxt = WalletPending)) s1 = (q, t)"
        and r: "r = Inr () \<Longrightarrow> \<not> isl q"
        by (auto elim!: attempt_cases)
      from updated_stmt [OF this(1) [unfolded set_status_rows_alt]] upd g 3 r show ?thesis by simp
    qed (use val(2) g none in auto)
  qed
qed

text \<open>The contract's laws of the two updates, from \<open>updated\<close>.\<close>

lemma updated_effect:
  assumes "updated i hit f s q t" "db_ok s" "wallet_at s j = Some w"
  obtains "wallet_at t j = Some w"
    | r now where "wallet_at s i = Some w" "w = wallet_of_row r" "hit r"
        "wallet_at t j = Some (wallet_of_row ((f (engine s) r)\<lparr>wr_updated_at := now\<rparr>))"
proof -
  from assms(1) obtain P now
    where P: "P \<le> (\<lambda>x. pg_uuid_in (engine s) i = Some (wr_id x) \<and> hit x)"
      and find: "\<forall>j. find_wallet t j
        = map_option (\<lambda>x. if P x then (f (engine s) x)\<lparr>wr_updated_at := now\<rparr> else x) (find_wallet s j)"
    unfolding updated_def by blast
  from assms(3) obtain r where r: "find_wallet s j = Some r" "w = wallet_of_row r"
    by (auto simp: wallet_at_def)
  show thesis
  proof (cases "P r")
    case True
    then have hit: "pg_uuid_in (engine s) i = Some (wr_id r)" "hit r" using P by (auto simp: le_fun_def)
    with find_wallet_row [OF assms(2)] find_wallet_Some [OF r(1)] have "find_wallet s i = Some r" by blast
    with True r hit find that(2) [of r now] show thesis by (simp add: wallet_at_def)
  next
    case False
    with r find that(1) show thesis by (simp add: wallet_at_def)
  qed
qed

lemma updated_none_at: "updated i hit f s q t \<Longrightarrow> wallet_at s j = None \<Longrightarrow> wallet_at t j = None"
  unfolding updated_def wallet_at_def by (elim conjE exE) simp

lemma updated_all:
  assumes "updated i hit f s q t" "\<not> isl q"
  shows "find_wallet t i \<noteq> None \<Longrightarrow> \<exists>r now. find_wallet s i = Some r
    \<and> find_wallet t i = Some (if hit r then (f (engine s) r)\<lparr>wr_updated_at := now\<rparr> else r)"
proof -
  assume some: "find_wallet t i \<noteq> None"
  from assms obtain now where find: "find_wallet t i
        = map_option (\<lambda>x. if pg_uuid_in (engine s) i = Some (wr_id x) \<and> hit x
            then (f (engine s) x)\<lparr>wr_updated_at := now\<rparr> else x) (find_wallet s i)"
    unfolding updated_def by blast
  with some obtain r where r: "find_wallet s i = Some r" by (cases "find_wallet s i") auto
  with find find_wallet_Some [OF r] show ?thesis by auto
qed

section \<open>Policies\<close>

lemma set_limits_facts:
  assumes "set_limits e p r = Some r'"
  shows "pr_id r' = pr_id r" "pr_wallet_id r' = pr_wallet_id r" "pr_trading_enabled r' = Pol_TradingEnabled p"
  using assms by (auto simp: set_limits_def Option.bind_eq_Some_conv)

lemma update_policy_rows_cases:
  assumes "update_policy_rows k p s = (q, t)"
  obtains (refused) e where "q = Inl e" "t = s"
    | (written) g where "t = s\<lparr>wallet_policies := map (\<lambda>r. if pr_wallet_id r = k then g r else r) (wallet_policies s)\<rparr>"
      "\<And>r. r \<in> set (wallet_policies s) \<Longrightarrow> pr_wallet_id r = k \<Longrightarrow> policy_row_checked (g r)
        \<and> pr_id (g r) = pr_id r \<and> pr_wallet_id (g r) = k \<and> pr_trading_enabled (g r) = Pol_TradingEnabled p"
      "q = Inr (length (filter (\<lambda>r. pr_wallet_id r = k) (wallet_policies s)))"
proof -
  let ?new = "\<lambda>r. map_option (\<lambda>r'. r'\<lparr>pr_updated_at := pg_clock s\<rparr>) (set_limits (engine s) p r)"
  let ?hits = "filter (\<lambda>r. pr_wallet_id r = k) (wallet_policies s)"
  show thesis
  proof (cases "list_all (\<lambda>r. ?new r \<noteq> None) ?hits \<and> list_all (\<lambda>r. policy_row_checked (the (?new r))) ?hits")
    case False
    with assms refused show thesis by (auto simp: update_policy_rows_def Let_def split: if_splits)
  next
    case True
    have g: "policy_row_checked (the (?new r)) \<and> pr_id (the (?new r)) = pr_id r \<and> pr_wallet_id (the (?new r)) = k
        \<and> pr_trading_enabled (the (?new r)) = Pol_TradingEnabled p"
      if "r \<in> set (wallet_policies s)" "pr_wallet_id r = k" for r
    proof -
      from True that have c: "policy_row_checked (the (?new r))" and n: "?new r \<noteq> None"
        by (simp_all add: list_all_iff)
      from n obtain r' where "set_limits (engine s) p r = Some r'" by auto
      with c set_limits_facts [OF this] that show ?thesis by simp
    qed
    from True assms have t: "t = s\<lparr>wallet_policies := map (\<lambda>r. if pr_wallet_id r = k then the (?new r) else r) (wallet_policies s)\<rparr>"
      and q: "q = Inr (length ?hits)"
      unfolding update_policy_rows_def Let_def by (simp_all split: if_split_asm)
    show thesis using t g q by (rule written)
  qed
qed

lemma db_ok_set_policies:
  assumes "db_ok s" "list_all policy_row_checked ps"
    and "map pr_id ps = map pr_id (wallet_policies s)" "map pr_wallet_id ps = map pr_wallet_id (wallet_policies s)"
  shows "db_ok (s\<lparr>wallet_policies := ps\<rparr>)"
proof -
  have "pr_wallet_id ` set ps = pr_wallet_id ` set (wallet_policies s)"
    by (metis assms(4) list.set_map)
  with assms show ?thesis by (simp add: db_ok_def wallets_ok_def policies_unique_def list_all_iff)
qed

text \<open>What an \<open>UPDATE wallet_policies\<close> can have done, whatever it returned.\<close>

definition policy_updated :: "string \<Rightarrow> WalletPolicy \<Rightarrow> 'z pgdb_scheme \<Rightarrow> error + nat \<Rightarrow> 'z pgdb_scheme \<Rightarrow> bool" where
  "policy_updated i p s q t \<longleftrightarrow> (db_ok s \<longrightarrow> db_ok t) \<and> wallet_at t = wallet_at s
   \<and> (\<forall>j. policy_at t j = policy_at s j
        \<or> (pg_uuid_in (engine s) j = pg_uuid_in (engine s) i
           \<and> (\<exists>p'. policy_at t j = Some p' \<and> Pol_TradingEnabled p' = Pol_TradingEnabled p)))
   \<and> (\<forall>n. q = Inr n \<longrightarrow> n \<noteq> 0 \<longrightarrow>
        (\<exists>p'. policy_at t i = Some p' \<and> Pol_TradingEnabled p' = Pol_TradingEnabled p))"

lemma policy_updated_none: "same_db s t \<Longrightarrow> q = Inl e \<Longrightarrow> policy_updated i p s q t"
  unfolding policy_updated_def by (auto simp: db_ok_same same_db_at)

lemma policy_updated_faults: "policy_updated i p (s\<lparr>pg_faults := fs\<rparr>) q t \<longleftrightarrow> policy_updated i p s q t"
  by (simp add: policy_updated_def)

lemma policy_updated_rows:
  assumes k: "pg_uuid_in (engine s) i = Some k" and "update_policy_rows k p s = (q, t)"
  shows "policy_updated i p s q t"
  using assms(2)
proof (cases rule: update_policy_rows_cases)
  case (refused e)
  then show ?thesis by (intro policy_updated_none) auto
next
  case (written g)
  let ?h = "\<lambda>r. if pr_wallet_id r = k then g r else r"
  have find: "find_policy t j = map_option ?h (find_policy s j)" for j
    using written(1,2) by (cases "pg_uuid_in (engine s) j") (simp_all add: find_policy_def find_map_if [of _ _ pr_wallet_id g])
  have te: "pr_trading_enabled (g r) = Pol_TradingEnabled p" "pg_uuid_in (engine s) j = Some k"
    if "find_policy s j = Some r" "pr_wallet_id r = k" for j r
    using find_policy_Some [OF that(1)] written(2) that(2) by auto
  have eng: "engine t = engine s" using written(1) by simp
  have change: "policy_at t j = policy_at s j \<or> (pg_uuid_in (engine s) j = pg_uuid_in (engine s) i
      \<and> (\<exists>p'. policy_at t j = Some p' \<and> Pol_TradingEnabled p' = Pol_TradingEnabled p))" for j
    using te [of j] k by (cases "find_policy s j") (auto simp: policy_at_def find eng policy_of_row_def)
  have set: "map pr_id (map ?h (wallet_policies s)) = map pr_id (wallet_policies s)"
    "map pr_wallet_id (map ?h (wallet_policies s)) = map pr_wallet_id (wallet_policies s)"
    using written(2) by auto
  have ok: "db_ok t" if "db_ok s"
  proof -
    have "\<forall>r \<in> set (wallet_policies s). policy_row_checked r"
      using that by (simp add: db_ok_def wallets_ok_def)
    then have "list_all policy_row_checked (map ?h (wallet_policies s))"
      using written(2) by (auto simp: list_all_iff)
    with that set show ?thesis unfolding written(1) by (intro db_ok_set_policies)
  qed
  have wal: "wallet_at t = wallet_at s" using written(1) by (auto simp: wallet_at_def find_wallet_def)
  have "\<exists>p'. policy_at t i = Some p' \<and> Pol_TradingEnabled p' = Pol_TradingEnabled p"
    if "filter (\<lambda>r. pr_wallet_id r = k) (wallet_policies s) \<noteq> []"
  proof -
    from that obtain r where "find_policy s i = Some r" "pr_wallet_id r = k"
      using k by (cases "find (\<lambda>r. pr_wallet_id r = k) (wallet_policies s)")
        (auto simp: find_policy_def find_None_iff filter_empty_conv dest: find_Some_mem)
    with te(1) [OF this] show ?thesis by (auto simp: policy_at_def find policy_of_row_def)
  qed
  with ok wal change written(3) show ?thesis unfolding policy_updated_def by simp
qed

lemma policy_updated_stmt:
  assumes "stmt (with_uuid i (\<lambda>k. update_policy_rows k p)) s = (q, t)"
  shows "policy_updated i p s q t"
proof -
  have run: "policy_updated i p u q' t" if "with_uuid i (\<lambda>k. update_policy_rows k p) u = (q', t)" for u q'
    using that policy_updated_rows [of u i _ p q' t]
    by (auto simp: with_uuid_def intro: policy_updated_none split: option.splits)
  from assms show ?thesis
  proof (cases rule: stmt_cases)
    case (lost e fs)
    then show ?thesis by (intro policy_updated_none) auto
  next
    case (silent e fs r')
    from run [OF silent(2)] silent(1) show ?thesis by (simp add: policy_updated_def)
  next
    case (run fs)
    from \<open>\<And>u q'. with_uuid i (\<lambda>k. update_policy_rows k p) u = (q', t) \<Longrightarrow> policy_updated i p u q' t\<close> [OF run]
    show ?thesis by (simp add: policy_updated_faults)
  qed
qed

lemma repo_UpdatePolicy_cases:
  assumes "WalletRepo_UpdatePolicy i p s = (r, t)"
  obtains (refused) e where "r = Inl e" "t = s"
    | (sent) q where "Validate p = None" "policy_updated i p s q t" "r = Inr () \<Longrightarrow> \<exists>n. q = Inr n \<and> n \<noteq> 0"
proof (cases "Validate p")
  case (Some err)
  with assms refused show ?thesis by (simp add: WalletRepo_UpdatePolicy_def)
next
  case None
  with assms have "attempt (stmt (with_uuid i (\<lambda>k. update_policy_rows k p)))
         (\<lambda>err. throw (Wrap ''update policy: '' err []))
         (\<lambda>rowsAffected. if rowsAffected = 0 then throw (Sentinel PostgresErrNotFound) else ok ()) s = (r, t)"
    by (simp add: WalletRepo_UpdatePolicy_def)
  then obtain q where "stmt (with_uuid i (\<lambda>k. update_policy_rows k p)) s = (q, t)"
    "r = Inr () \<Longrightarrow> \<exists>n. q = Inr n \<and> n \<noteq> 0"
    by (auto elim!: attempt_cases split: if_splits)
  with sent None policy_updated_stmt show ?thesis by blast
qed

section \<open>Linking\<close>

lemma insert_wallet_Inr:
  assumes "insert_wallet w s = (Inr i, t)"
  obtains row where "same_db (s\<lparr>wallets := wallets s @ [row]\<rparr>) t" "wr_id row = i"
    "i = pg_gen_uuid (engine s) (pg_uuid_next s)"
    "wallet_row_checked row" "wallets_unique (wallets s @ [row])" "wr_user_id row \<in> User_ID ` set (users s)"
    "wr_address row = Wallet_Address w" "wr_chain_id row = sint (Wallet_ChainID w)" "wr_role row = Wallet_Role w"
    "wr_status row = ''pending''" "wr_verified_at row = None"
    "pg_uuid_in (engine s) (Wallet_UserID w) = Some (wr_user_id row)"
proof -
  from assms obtain uid where uid: "pg_uuid_in (engine s) (Wallet_UserID w) = Some uid"
    by (auto simp: insert_wallet_def with_uuid_def split: option.splits)
  let ?row = "\<lparr>wr_id = pg_gen_uuid (engine s) (pg_uuid_next s), wr_user_id = uid, wr_address = Wallet_Address w,
                wr_chain_id = sint (Wallet_ChainID w), wr_role = Wallet_Role w, wr_status = ''pending'',
                wr_label = nullable (Wallet_Label w), wr_verified_at = None,
                wr_created_at = pg_clock s, wr_updated_at = pg_clock s\<rparr>"
  from assms uid have "wallet_row_checked ?row" "wallets_unique (wallets s @ [?row])" "uid \<in> User_ID ` set (users s)"
    "i = wr_id ?row" "t = s\<lparr>pg_uuid_next := Suc (pg_uuid_next s), wallets := wallets s @ [?row]\<rparr>"
    unfolding insert_wallet_def with_uuid_def Let_def by (auto split: if_split_asm)
  then show thesis using uid by (intro that [of ?row]) (simp_all add: same_db_def)
qed

lemma insert_policy_Inr:
  assumes "insert_policy i p s = (Inr x, t)"
  obtains row where "same_db (s\<lparr>wallet_policies := wallet_policies s @ [row]\<rparr>) t"
    "pg_uuid_in (engine s) i = Some (pr_wallet_id row)"
    "policy_row_checked row" "policies_unique (wallet_policies s @ [row])"
    "pr_trading_enabled row = Pol_TradingEnabled p"
proof -
  from assms obtain k where k: "pg_uuid_in (engine s) i = Some k" by (auto simp: insert_policy_def with_uuid_def split: option.splits)
  let ?blank = "\<lparr>pr_id = pg_gen_uuid (engine s) (pg_uuid_next s), pr_wallet_id = k,
                  pr_max_position_percent = PgFin 0, pr_max_open_positions = 0,
                  pr_daily_loss_limit_percent = PgFin 0, pr_stop_loss_percent = PgFin 0,
                  pr_capital_recovery_percent = PgFin 0, pr_max_slippage_bps = 0,
                  pr_min_liquidity_usd = PgFin 0, pr_trading_enabled = False,
                  pr_created_at = pg_clock s, pr_updated_at = pg_clock s\<rparr>"
  from assms k obtain row where row: "set_limits (engine s) p ?blank = Some row"
    by (auto simp: insert_policy_def with_uuid_def Let_def split: option.splits)
  with assms k have "policy_row_checked row" "policies_unique (wallet_policies s @ [row])"
    "t = s\<lparr>wallet_policies := wallet_policies s @ [row], pg_uuid_next := Suc (pg_uuid_next s)\<rparr>"
    by (auto simp: insert_policy_def with_uuid_def Let_def split: if_split_asm)
  with that [of row] k set_limits_facts [OF row] show thesis by (simp add: same_db_def)
qed

text \<open>The rows a successful linking adds, and the wallet it returns.\<close>

definition linked :: "Wallet \<Rightarrow> WalletPolicy \<Rightarrow> 'z pgdb_scheme \<Rightarrow> Wallet \<Rightarrow> 'z pgdb_scheme \<Rightarrow> bool" where
  "linked w p s v t \<longleftrightarrow> (\<exists>row prow. same_db (s\<lparr>wallets := wallets s @ [row], wallet_policies := wallet_policies s @ [prow]\<rparr>) t
     \<and> v = wallet_of_row row \<and> wallet_row_checked row \<and> wallets_unique (wallets s @ [row])
     \<and> wr_user_id row \<in> User_ID ` set (users s) \<and> pg_uuid_in (engine s) (wr_id row) = Some (wr_id row)
     \<and> pg_uuid_in (engine s) (Wallet_UserID w) = Some (wr_user_id row)
     \<and> wr_address row = Wallet_Address w \<and> wr_chain_id row = sint (Wallet_ChainID w) \<and> wr_role row = Wallet_Role w
     \<and> wr_status row = ''pending'' \<and> wr_verified_at row = None
     \<and> policy_row_checked prow \<and> policies_unique (wallet_policies s @ [prow])
     \<and> pr_wallet_id prow = wr_id row \<and> pr_trading_enabled prow = Pol_TradingEnabled p)"

lemma link_tx_linked:
  assumes "db_ok s" "link_tx w p s = (Inr v, t)"
  shows "linked w p s v t"
proof -
  from assms(2) obtain i s1 where 1: "stmt (insert_wallet w) s = (Inr i, s1)"
    and rest: "attempt (stmt (insert_policy i p)) (\<lambda>err. throw (Wrap ''insert policy: '' err []))
       (\<lambda>_. scanWallet (query (select_wallet i))) s1 = (Inr v, t)"
    unfolding link_tx_def by (auto elim!: attempt_cases split: if_splits)
  from rest obtain x s2 where 2: "stmt (insert_policy i p) s1 = (Inr x, s2)"
    and 3: "scanWallet (query (select_wallet i)) s2 = (Inr v, t)"
    by (rule attempt_throw_InrE)
  from 1 obtain fs where "insert_wallet w (s\<lparr>pg_faults := fs\<rparr>) = (Inr i, s1)" by (rule stmt_Inr)
  then obtain row where row: "same_db (s\<lparr>wallets := wallets s @ [row]\<rparr>) s1" "wr_id row = i"
    "i = pg_gen_uuid (engine s) (pg_uuid_next s)"
    "wallet_row_checked row" "wallets_unique (wallets s @ [row])" "wr_user_id row \<in> User_ID ` set (users s)"
    "wr_address row = Wallet_Address w" "wr_chain_id row = sint (Wallet_ChainID w)" "wr_role row = Wallet_Role w"
    "wr_status row = ''pending''" "wr_verified_at row = None"
    "pg_uuid_in (engine s) (Wallet_UserID w) = Some (wr_user_id row)"
    by (rule insert_wallet_Inr) (simp_all add: same_db_def)
  from 2 obtain fs' where "insert_policy i p (s1\<lparr>pg_faults := fs'\<rparr>) = (Inr x, s2)" by (rule stmt_Inr)
  then obtain prow where prow: "same_db (s1\<lparr>wallet_policies := wallet_policies s @ [prow]\<rparr>) s2"
    "pg_uuid_in (engine s) i = Some (pr_wallet_id prow)"
    "policy_row_checked prow" "policies_unique (wallet_policies s @ [prow])"
    "pr_trading_enabled prow = Pol_TradingEnabled p"
    using row(1) by (elim insert_policy_Inr) (simp add: same_db_def)
  have i: "pg_uuid_in (engine s) i = Some i" using db_okD(1) [OF assms(1)] row(3) by (simp add: engine_ok_def)
  have "find (\<lambda>r. wr_id r = i) (wallets s @ [row]) = Some row"
    using row(2,5) find_distinct [of wr_id "wallets s @ [row]" row] by (simp add: wallets_unique_def)
  then have "find_wallet s2 i = Some row" using i prow(1) row(1) by (simp add: find_wallet_def same_db_def)
  with scan_query [OF 3] have v: "v = wallet_of_row row" and "same_db s2 t" by (auto simp: wallet_at_def)
  moreover have "same_db (s\<lparr>wallets := wallets s @ [row], wallet_policies := wallet_policies s @ [prow]\<rparr>) s2"
    using prow(1) row(1) by (simp add: same_db_def)
  ultimately show ?thesis
    using row(2-) prow(2-) i unfolding linked_def
    by (intro exI [of _ row] exI [of _ prow]) (simp add: same_db_trans [of _ s2])
qed

lemma linked_same: "linked w p s v t \<Longrightarrow> same_db t u \<Longrightarrow> linked w p s v u"
  unfolding linked_def by (blast intro: same_db_trans)

lemma linked_faults: "linked w p (s\<lparr>pg_faults := fs\<rparr>) v t \<longleftrightarrow> linked w p s v t"
  by (simp add: linked_def same_db_def)

lemma keeps_engine_link [keeps_rules]: "keeps_engine (link_tx w p)"
proof -
  have 1: "keeps_engine (insert_wallet w)" for w
    by (auto simp: keeps_engine_def insert_wallet_def with_uuid_def Let_def split: option.splits)
  have 2: "keeps_engine (insert_policy i p)" for i
    by (auto simp: keeps_engine_def insert_policy_def with_uuid_def Let_def split: option.splits)
  show ?thesis unfolding link_tx_def scanWallet_def by (intro keeps_rules 1 2)
qed

lemma repo_Link_cases:
  assumes "db_ok s" "WalletRepo_Link w p s = (r, t)"
  obtains (none) e where "r = Inl e" "same_db s t"
    | (stored) v where "linked w p s v t" "Validate p = None" "r = Inr v \<or> isl r"
proof (cases "Validate p")
  case (Some err)
  with assms none show ?thesis by (simp add: WalletRepo_Link_def)
next
  case None
  with assms(2) have "transaction (link_tx w p) s = (r, t)" by (simp add: WalletRepo_Link_def)
  from this keeps_engine_link show ?thesis
  proof (cases rule: transaction_cases)
    case (all fs a u)
    with assms(1) link_tx_linked [of "s\<lparr>pg_faults := fs\<rparr>" w p a u] have "linked w p s a t"
      by (simp add: linked_faults linked_same)
    with stored None all(3) show ?thesis by auto
  qed (use none in auto)
qed

lemma linked_db_ok:
  assumes "db_ok s" "linked w p s v t"
  shows "db_ok t"
proof -
  from assms(2) obtain row prow where "same_db (s\<lparr>wallets := wallets s @ [row], wallet_policies := wallet_policies s @ [prow]\<rparr>) t"
    and "wallet_row_checked row" "wallets_unique (wallets s @ [row])" "wr_user_id row \<in> User_ID ` set (users s)"
      "pg_uuid_in (engine s) (wr_id row) = Some (wr_id row)" "policy_row_checked prow"
      "policies_unique (wallet_policies s @ [prow])" "pr_wallet_id prow = wr_id row"
    unfolding linked_def by blast
  moreover from this assms(1) have "db_ok (s\<lparr>wallets := wallets s @ [row], wallet_policies := wallet_policies s @ [prow]\<rparr>)"
    by (auto simp: db_ok_def wallets_ok_def)
  ultimately show ?thesis by (simp add: db_ok_same)
qed

lemma linked_at:
  assumes "db_ok s" "linked w p s v t"
  obtains row prow where "v = wallet_of_row row" "wr_id row \<notin> wr_id ` set (wallets s)"
    "pr_wallet_id prow = wr_id row" "pr_trading_enabled prow = Pol_TradingEnabled p"
    "wr_address row = Wallet_Address w" "wr_chain_id row = sint (Wallet_ChainID w)" "wr_role row = Wallet_Role w"
    "wr_status row = ''pending''" "wr_verified_at row = None"
    "pg_uuid_in (engine s) (wr_id row) = Some (wr_id row)"
    "pg_uuid_in (engine s) (Wallet_UserID w) = Some (wr_user_id row)"
    "\<And>j. wallet_at t j = (case wallet_at s j of Some v' \<Rightarrow> Some v'
        | None \<Rightarrow> if pg_uuid_in (engine s) j = Some (wr_id row) then Some v else None)"
    "\<And>j. policy_at t j = (case policy_at s j of Some p' \<Rightarrow> Some p'
        | None \<Rightarrow> if pg_uuid_in (engine s) j = Some (wr_id row) then Some (policy_of_row (engine s) prow) else None)"
proof -
  from assms(2) obtain row prow where *: "same_db (s\<lparr>wallets := wallets s @ [row], wallet_policies := wallet_policies s @ [prow]\<rparr>) t"
    "v = wallet_of_row row" "wallets_unique (wallets s @ [row])"
    "pg_uuid_in (engine s) (wr_id row) = Some (wr_id row)" "pg_uuid_in (engine s) (Wallet_UserID w) = Some (wr_user_id row)"
    "wr_address row = Wallet_Address w" "wr_chain_id row = sint (Wallet_ChainID w)" "wr_role row = Wallet_Role w"
    "wr_status row = ''pending''" "wr_verified_at row = None"
    "pr_wallet_id prow = wr_id row" "pr_trading_enabled prow = Pol_TradingEnabled p"
    unfolding linked_def by blast
  from *(1) have t: "engine t = engine s" "wallets t = wallets s @ [row]" "wallet_policies t = wallet_policies s @ [prow]"
    by (simp_all add: same_db_def)
  have at: "wallet_at t j = (case wallet_at s j of Some v' \<Rightarrow> Some v'
        | None \<Rightarrow> if pg_uuid_in (engine s) j = Some (wr_id row) then Some v else None)" for j
    using t *(2) by (cases "pg_uuid_in (engine s) j") (auto simp: wallet_at_def find_wallet_def find_append split: option.splits)
  moreover have "policy_at t j = (case policy_at s j of Some p' \<Rightarrow> Some p'
        | None \<Rightarrow> if pg_uuid_in (engine s) j = Some (wr_id row) then Some (policy_of_row (engine s) prow) else None)" for j
    using t *(11) by (cases "pg_uuid_in (engine s) j") (auto simp: policy_at_def find_policy_def find_append split: option.splits)
  moreover have "wr_id row \<notin> wr_id ` set (wallets s)" using *(3) by (simp add: wallets_unique_def)
  ultimately show thesis using * by (intro that)
qed

lemma wallet_at_new: "pg_uuid_in (engine s) k = Some k \<Longrightarrow> k \<notin> wr_id ` set (wallets s) \<Longrightarrow> wallet_at s k = None"
  by (auto simp: wallet_at_def find_wallet_def find_None_iff)

lemma policy_at_iff: "db_ok s \<Longrightarrow> (policy_at s i = None) = (wallet_at s i = None)"
  using find_policy_iff [of s i] unfolding policy_at_def wallet_at_def option.map_disc_iff by blast

section \<open>The contract holds\<close>

lemma keeps_Link: "keeps db_ok (WalletRepo_Link w p)"
proof (rule keepsI)
  fix s r t
  assume "db_ok s" "WalletRepo_Link w p s = (r, t)"
  then show "db_ok t"
    by (cases rule: repo_Link_cases) (use \<open>db_ok s\<close> in \<open>auto intro: db_ok_sameI linked_db_ok\<close>)
qed

lemma keeps_MarkVerified: "keeps db_ok (WalletRepo_MarkVerified i tm)"
  by (rule keepsI) (erule MarkVerified_updated, simp add: updated_def)

lemma keeps_SetStatus: "keeps db_ok (WalletRepo_SetStatus U i nxt)"
proof (rule keepsI)
  fix s r t
  assume "db_ok s" "WalletRepo_SetStatus U i nxt s = (r, t)"
  from this(2) show "db_ok t"
    by (cases rule: SetStatus_cases) (use \<open>db_ok s\<close> in \<open>auto simp: updated_def intro: db_ok_sameI\<close>)
qed

lemma keeps_UpdatePolicy: "keeps db_ok (WalletRepo_UpdatePolicy i p)"
  by (rule keepsI) (erule repo_UpdatePolicy_cases, auto simp: policy_updated_def)

lemma Link_old:
  assumes "db_ok s" "WalletRepo_Link w p s = (r, t)" "wallet_at s i = Some v"
  shows "wallet_at t i = Some v \<and> policy_at t i = policy_at s i"
  using assms(1,2)
proof (cases rule: repo_Link_cases)
  case (none e)
  with assms(3) same_db_at show ?thesis by metis
next
  case (stored v')
  from assms(1,3) policy_at_iff obtain q where "policy_at s i = Some q" by fastforce
  with assms(1,3) stored(1) show ?thesis by (auto elim!: linked_at)
qed

lemma Link_new:
  assumes "db_ok s" "WalletRepo_Link w p s = (r, t)" "wallet_at s i = None" "wallet_at t i = Some v"
  shows "Wallet_Status v = WalletPending \<and> Wallet_VerifiedAt v = None
      \<and> Wallet_Address v = Wallet_Address w \<and> Wallet_ChainID v = Wallet_ChainID w \<and> Wallet_Role v = Wallet_Role w
      \<and> pg_uuid_in (engine s) (Wallet_UserID w) = Some (Wallet_UserID v)
      \<and> (\<exists>q. policy_at t i = Some q \<and> Pol_TradingEnabled q = Pol_TradingEnabled p)"
  using assms(1,2)
proof (cases rule: repo_Link_cases)
  case (none e)
  with assms(3,4) same_db_at [of s t] show ?thesis by simp
next
  case (stored v')
  have "policy_at s i = None" using assms(1,3) policy_at_iff by blast
  with assms(1,3,4) stored(1) show ?thesis
    by (auto elim!: linked_at simp: go_consts policy_of_row_def split: if_splits)
qed

lemma Link_value:
  assumes "db_ok s" "WalletRepo_Link w p s = (Inr v, t)"
  shows "wallet_at s (Wallet_ID v) = None \<and> wallet_at t (Wallet_ID v) = Some v \<and> Validate p = None"
  using assms
proof (cases rule: repo_Link_cases)
  case (stored v')
  with assms(1) show ?thesis by (auto elim!: linked_at simp: wallet_at_new)
qed simp

lemma MarkVerified_effect:
  assumes "db_ok s" "WalletRepo_MarkVerified i tm s = (r, t)" "wallet_at s j = Some w"
  shows "\<exists>w'. wallet_at t j = Some w' \<and>
        (w' = w \<or> (wallet_at s i = Some w \<and> Wallet_Status w = WalletPending \<and> same_wallet w w'
                   \<and> Wallet_Status w' = WalletActive \<and> Wallet_VerifiedAt w' \<noteq> None))"
  using assms(2)
proof (rule MarkVerified_updated)
  fix q
  assume "updated i (\<lambda>x. wr_status x = ''pending'')
      (\<lambda>e x. x\<lparr>wr_status := ''active'', wr_verified_at := Some (pg_timestamp_in e tm)\<rparr>) s q t"
  then show ?thesis using assms(1,3)
    by (rule updated_effect) (simp_all add: same_wallet_def wallet_of_row_def go_consts)
qed

lemma MarkVerified_done:
  assumes "WalletRepo_MarkVerified i tm s = (Inr x, t)" "wallet_at t i = Some w"
  shows "Wallet_Status w \<noteq> WalletPending"
  using assms(1)
proof (rule MarkVerified_updated)
  fix q
  assume "updated i (\<lambda>x. wr_status x = ''pending'')
      (\<lambda>e x. x\<lparr>wr_status := ''active'', wr_verified_at := Some (pg_timestamp_in e tm)\<rparr>) s q t"
    and "Inr x = Inr () \<Longrightarrow> \<not> isl q"
  with assms(2) obtain r now where "find_wallet t i = Some (if wr_status r = ''pending''
      then r\<lparr>wr_status := ''active'', wr_verified_at := Some (pg_timestamp_in (engine s) tm), wr_updated_at := now\<rparr> else r)"
    using updated_all [OF \<open>updated _ _ _ _ _ _\<close>] by (auto simp: wallet_at_def)
  with assms(2) show ?thesis
    by (cases "wr_status r = ''pending''") (auto simp: wallet_at_def go_consts)
qed

lemma SetStatus_effect:
  assumes "db_ok s" "WalletRepo_SetStatus U i nxt s = (r, t)" "wallet_at s j = Some w"
  shows "\<exists>w'. wallet_at t j = Some w' \<and>
        (w' = w \<or> (wallet_at s i = Some w \<and> CanTransitionTo (Wallet_Status w) nxt
                   \<and> same_wallet w w' \<and> Wallet_Status w' = nxt))"
  using assms(2)
proof (cases rule: SetStatus_cases)
  case none
  with assms(3) same_db_at show ?thesis by metis
next
  case (upd s1 q w0)
  have s1: "db_ok s1" "wallet_at s1 = wallet_at s" "engine s1 = engine s"
    using upd(1) assms(1) same_db_at [OF upd(1)] by (auto intro: db_ok_sameI simp: same_db_def)
  with assms(3) have "wallet_at s1 j = Some w" by simp
  with upd(4) s1(1) show ?thesis
    by (rule updated_effect) (use upd(2,3) s1 in \<open>simp_all add: same_wallet_def wallet_of_row_def\<close>)
qed

lemma SetStatus_none_at:
  assumes "WalletRepo_SetStatus U i nxt s = (r, t)" "wallet_at s j = None"
  shows "wallet_at t j = None"
  using assms(1)
proof (cases rule: SetStatus_cases)
  case none
  with assms(2) same_db_at show ?thesis by metis
next
  case (upd s1 q w0)
  with assms(2) same_db_at updated_none_at show ?thesis by metis
qed

lemma SetStatus_done:
  assumes "WalletRepo_SetStatus U i nxt s = (Inr x, t)"
  shows "\<exists>w. wallet_at t i = Some w \<and> Wallet_Status w = nxt"
  using assms
proof (cases rule: SetStatus_cases)
  case none
  with same_db_at show ?thesis by (metis old.unit.exhaust)
next
  case (upd s1 q w0)
  then have "\<not> isl q" by simp
  have "find_wallet t i \<noteq> None"
    using upd(1,2,4) find_wallet_same [OF upd(1)] by (auto simp: updated_def wallet_at_def)
  from updated_all [OF upd(4) \<open>\<not> isl q\<close> this] show ?thesis by (auto simp: wallet_at_def)
qed

lemma SetStatus_policies:
  "WalletRepo_SetStatus U i nxt s = (r, t) \<Longrightarrow> policy_at t = policy_at s"
  by (erule SetStatus_cases) (auto simp: updated_def dest: same_db_at)

lemma UpdatePolicy_other:
  assumes "db_ok s" "WalletRepo_UpdatePolicy i p s = (r, t)" "wallet_at s i = Some w" "wallet_at s j = Some v"
    "Wallet_ID v \<noteq> Wallet_ID w"
  shows "policy_at t j = policy_at s j"
proof -
  have "pg_uuid_in (engine s) j \<noteq> pg_uuid_in (engine s) i"
    using assms(3-5) by (auto simp: wallet_at_def dest!: find_wallet_Some)
  with assms(2) show ?thesis by (auto elim!: repo_UpdatePolicy_cases simp: policy_updated_def)
qed

lemma repo_UpdatePolicy_effect:
  assumes "WalletRepo_UpdatePolicy i p s = (r, t)" "policy_at t j \<noteq> policy_at s j"
  shows "Validate p = None \<and> (\<exists>q. policy_at t j = Some q \<and> Pol_TradingEnabled q = Pol_TradingEnabled p)"
  using assms by (auto elim!: repo_UpdatePolicy_cases simp: policy_updated_def)

lemma UpdatePolicy_done:
  assumes "WalletRepo_UpdatePolicy i p s = (Inr x, t)"
  shows "Validate p = None \<and> (\<exists>q. policy_at t i = Some q \<and> Pol_TradingEnabled q = Pol_TradingEnabled p)"
  using assms by (auto elim!: repo_UpdatePolicy_cases simp: policy_updated_def)

lemma UpdatePolicy_wallets: "WalletRepo_UpdatePolicy i p s = (r, t) \<Longrightarrow> wallet_at t = wallet_at s"
  by (erule repo_UpdatePolicy_cases) (auto simp: policy_updated_def)

lemma MarkVerified_policies: "WalletRepo_MarkVerified i tm s = (r, t) \<Longrightarrow> policy_at t = policy_at s"
  by (erule MarkVerified_updated) (simp add: updated_def)

lemma MarkVerified_none_at:
  "WalletRepo_MarkVerified i tm s = (r, t) \<Longrightarrow> wallet_at s j = None \<Longrightarrow> wallet_at t j = None"
  by (erule MarkVerified_updated) (rule updated_none_at)

lemma reads_at:
  "WalletRepo_Get i s = (rg, t) \<Longrightarrow> wallet_at t = wallet_at s \<and> policy_at t = policy_at s"
  "WalletRepo_ListByUser u s = (rl, t) \<Longrightarrow> wallet_at t = wallet_at s \<and> policy_at t = policy_at s"
  "WalletRepo_GetPolicy i s = (rp, t) \<Longrightarrow> wallet_at t = wallet_at s \<and> policy_at t = policy_at s"
  by (simp_all only: same_db_at Get_facts(1) ListByUser_same GetPolicy_facts(1))

lemma wallet_has_policy: "db_ok s \<Longrightarrow> wallet_at s i = Some w \<Longrightarrow> \<exists>p. policy_at s i = Some p"
  using policy_at_iff [of s i] by auto

lemma keeps_reads:
  "keeps db_ok (WalletRepo_Get i)" "keeps db_ok (WalletRepo_ListByUser u)" "keeps db_ok (WalletRepo_GetPolicy i)"
  by (intro keeps_same, erule Get_facts(1) ListByUser_same GetPolicy_facts(1))+

lemma WalletRepo_sels [simp]:
  "Store_Link (WalletRepo U) = WalletRepo_Link" "Store_Get (WalletRepo U) = WalletRepo_Get"
  "Store_ListByUser (WalletRepo U) = WalletRepo_ListByUser" "Store_MarkVerified (WalletRepo U) = WalletRepo_MarkVerified"
  "Store_SetStatus (WalletRepo U) = WalletRepo_SetStatus U" "Store_GetPolicy (WalletRepo U) = WalletRepo_GetPolicy"
  "Store_UpdatePolicy (WalletRepo U) = WalletRepo_UpdatePolicy"
  by (simp_all add: WalletRepo_def)

lemmas repo_laws = wallet_has_policy reads_at Get_facts(2) [OF _ refl] ListByUser_mem GetPolicy_facts(2) [OF _ refl]
  Link_old Link_new Link_value MarkVerified_policies MarkVerified_effect MarkVerified_none_at MarkVerified_done
  SetStatus_policies SetStatus_effect SetStatus_none_at SetStatus_done
  UpdatePolicy_wallets UpdatePolicy_other repo_UpdatePolicy_effect UpdatePolicy_done

interpretation pg: wallet_store "WalletRepo U" db_ok wallet_at policy_at "\<lambda>s. pg_uuid_in (engine s)" for U
  by (unfold_locales; (unfold WalletRepo_sels)?)
     (rule keeps_reads keeps_Link keeps_MarkVerified keeps_SetStatus keeps_UpdatePolicy
      | (rule repo_laws, assumption+))+

end
