(* ===== verification/UserRepo.thy ===== *)
theory UserRepo
  imports WalletRepo
begin

text \<open>
  \<open>internal/persistence/postgres/users.go\<close>: accounts and Telegram identities. First contact
  creates the account and its Telegram link in one transaction; later contacts refresh the
  cached display fields. The theory ends with the interpretation of the contract
  \<open>user_store\<close>.
\<close>

section \<open>Statements\<close>

definition find_tg :: "'z pgdb_scheme \<Rightarrow> TelegramUserID \<Rightarrow> tg_row option" where
  "find_tg s i = find (\<lambda>r. tr_telegram_id r = sint i) (telegram_users s)"

definition telegram_user_of_row :: "tg_row \<Rightarrow> TelegramUser" where
  "telegram_user_of_row r =
     \<lparr>TU_TelegramID = word_of_int (tr_telegram_id r), TU_UserID = tr_user_id r,
      TU_Username = coalesce (tr_username r), TU_FirstName = coalesce (tr_first_name r),
      TU_LastName = coalesce (tr_last_name r), TU_LanguageCode = coalesce (tr_language_code r),
      TU_ChatID = word_of_int (tr_chat_id r), TU_CreatedAt = tr_created_at r,
      TU_UpdatedAt = tr_updated_at r, TU_LastSeenAt = tr_last_seen_at r\<rparr>"

definition select_tg :: "TelegramUserID \<Rightarrow> 'z pgdb_scheme \<Rightarrow> error + tg_row" where
  "select_tg i s = (case find_tg s i of None \<Rightarrow> Inl (Foreign PgxErrNoRows) | Some r \<Rightarrow> Inr r)"

definition scanTelegramUser :: "('s, tg_row) op \<Rightarrow> ('s, TelegramUser) op" where
  "scanTelegramUser row = attempt row
     (\<lambda>err. if errors_Is err (Foreign PgxErrNoRows) then throw (Sentinel PostgresErrNotFound)
            else throw (Wrap ''scan telegram user: '' err []))
     (\<lambda>r. ok (telegram_user_of_row r))"

definition select_user :: "UserID \<Rightarrow> 'z pgdb_scheme \<Rightarrow> error + User" where
  "select_user i s = (case pg_uuid_in (engine s) i of
       None \<Rightarrow> Inl (pg_err (engine s) ''22P02'')
     | Some k \<Rightarrow> (case find (\<lambda>u. User_ID u = k) (users s) of
         None \<Rightarrow> Inl (Foreign PgxErrNoRows) | Some u \<Rightarrow> Inr u))"

definition insert_user :: "('z pgdb_scheme, UserID) op" where
  "insert_user s =
     (let e = engine s; k = pg_gen_uuid e (pg_uuid_next s);
          s' = s\<lparr>pg_uuid_next := Suc (pg_uuid_next s)\<rparr>;
          u = \<lparr>User_ID = k, User_Status = ''active'', User_CreatedAt = pg_clock s, User_UpdatedAt = pg_clock s\<rparr>
      in if k \<in> User_ID ` set (users s) then (Inl (pg_err e ''23505''), s')
         else (Inr k, s'\<lparr>users := users s @ [u]\<rparr>))"

definition insert_tg :: "TelegramUser \<Rightarrow> UserID \<Rightarrow> ('z pgdb_scheme, unit) op" where
  "insert_tg tu userID = with_uuid userID (\<lambda>k s.
     let e = engine s;
         row = \<lparr>tr_telegram_id = sint (TU_TelegramID tu), tr_user_id = k,
                tr_username = nullable (TU_Username tu), tr_first_name = nullable (TU_FirstName tu),
                tr_last_name = nullable (TU_LastName tu), tr_language_code = nullable (TU_LanguageCode tu),
                tr_chat_id = sint (TU_ChatID tu), tr_created_at = pg_clock s,
                tr_updated_at = pg_clock s, tr_last_seen_at = pg_clock s\<rparr>
     in if \<not> tg_row_checked row then (Inl (pg_err e ''23514''), s)
        else if tr_telegram_id row \<in> tr_telegram_id ` set (telegram_users s)
          \<or> k \<in> tr_user_id ` set (telegram_users s) then (Inl (pg_err e ''23505''), s)
        else if k \<notin> User_ID ` set (users s) then (Inl (pg_err e ''23503''), s)
        else (Inr (), s\<lparr>telegram_users := telegram_users s @ [row]\<rparr>))"

text \<open>The trigger \<open>telegram_users_set_updated_at\<close> fires on the refreshed row.\<close>

definition refresh_row :: "TelegramUser \<Rightarrow> time \<Rightarrow> tg_row \<Rightarrow> tg_row" where
  "refresh_row tu now r = r\<lparr>tr_username := nullable (TU_Username tu),
     tr_first_name := nullable (TU_FirstName tu), tr_last_name := nullable (TU_LastName tu),
     tr_language_code := nullable (TU_LanguageCode tu), tr_chat_id := sint (TU_ChatID tu),
     tr_updated_at := now, tr_last_seen_at := now\<rparr>"

definition refreshed :: "TelegramUser \<Rightarrow> time \<Rightarrow> tg_row list \<Rightarrow> tg_row list" where
  "refreshed tu now = map (\<lambda>r. if tr_telegram_id r = sint (TU_TelegramID tu) then refresh_row tu now r else r)"

definition refresh_tg :: "TelegramUser \<Rightarrow> ('z pgdb_scheme, unit) op" where
  "refresh_tg tu s = (Inr (), s\<lparr>telegram_users := refreshed tu (pg_clock s) (telegram_users s)\<rparr>)"

section \<open>The methods\<close>

definition load_identity :: "TelegramUser \<Rightarrow> UserID \<Rightarrow> bool \<Rightarrow> ('z pgdb_scheme, User \<times> TelegramUser \<times> bool) op" where
  "load_identity tu userID created =
     attempt (query (select_user userID)) (\<lambda>err. throw (Wrap ''load user: '' err []))
       (\<lambda>user. attempt (scanTelegramUser (query (select_tg (TU_TelegramID tu)))) throw
       (\<lambda>stored. ok (user, stored, created)))"

definition ensure_tx :: "TelegramUser \<Rightarrow> ('z pgdb_scheme, User \<times> TelegramUser \<times> bool) op" where
  "ensure_tx tu =
     attempt (query (select_tg (TU_TelegramID tu)))
       (\<lambda>err. if errors_Is err (Foreign PgxErrNoRows) then
            attempt (stmt insert_user) (\<lambda>err. throw (Wrap ''create user: '' err []))
              (\<lambda>userID. attempt (stmt (insert_tg tu userID)) (\<lambda>err. throw (Wrap ''link telegram user: '' err []))
              (\<lambda>_. load_identity tu userID True))
          else throw (Wrap ''lookup telegram user: '' err []))
       (\<lambda>row. attempt (stmt (refresh_tg tu)) (\<lambda>err. throw (Wrap ''refresh telegram user: '' err []))
          (\<lambda>_. load_identity tu (tr_user_id row) False))"

definition UserRepo_EnsureTelegramUser :: "TelegramUser \<Rightarrow> ('z pgdb_scheme, User \<times> TelegramUser \<times> bool) op" where
  "UserRepo_EnsureTelegramUser tu =
     (if \<not> TelegramUserID_Valid (TU_TelegramID tu) then throw (New ''invalid telegram id'')
      else transaction (ensure_tx tu))"

definition UserRepo_GetTelegramUser :: "TelegramUserID \<Rightarrow> ('z pgdb_scheme, TelegramUser) op" where
  "UserRepo_GetTelegramUser i = scanTelegramUser (query (select_tg i))"

definition UserRepo_GetUser :: "UserID \<Rightarrow> ('z pgdb_scheme, User) op" where
  "UserRepo_GetUser i = attempt (query (select_user i))
     (\<lambda>err. if errors_Is err (Foreign PgxErrNoRows) then throw (Sentinel PostgresErrNotFound)
            else throw (Wrap ''get user: '' err []))
     ok"

definition UserRepo :: "'z pgdb_scheme UserStore" where
  "UserRepo = \<lparr>EnsureTelegramUser = UserRepo_EnsureTelegramUser,
     GetTelegramUser = UserRepo_GetTelegramUser, GetUser = UserRepo_GetUser\<rparr>"

section \<open>Accounts\<close>

definition user_with :: "'z pgdb_scheme \<Rightarrow> UserID \<Rightarrow> User option" where
  "user_with s k = find (\<lambda>u. User_ID u = k) (users s)"

definition account_of :: "'z pgdb_scheme \<Rightarrow> TelegramUserID \<Rightarrow> User option" where
  "account_of s i = do { r \<leftarrow> find_tg s i; user_with s (tr_user_id r) }"

lemma account_same: "same_db s t \<Longrightarrow> account_of t = account_of s"
  by (auto simp: same_db_def account_of_def find_tg_def user_with_def)

lemma select_tg_Inr [simp]: "select_tg i s = Inr r \<longleftrightarrow> find_tg s i = Some r"
  by (auto simp: select_tg_def split: option.splits)

lemma select_user_Inr: "select_user i s = Inr u \<Longrightarrow> pg_uuid_in (engine s) i = Some k \<Longrightarrow> user_with s k = Some u"
  by (auto simp: select_user_def user_with_def split: option.splits)

lemma find_tg_faults [simp]: "find_tg (s\<lparr>pg_faults := fs\<rparr>) = find_tg s"
  "user_with (s\<lparr>pg_faults := fs\<rparr>) = user_with s"
  "account_of (s\<lparr>pg_faults := fs\<rparr>) = account_of s"
  by (auto simp: find_tg_def user_with_def account_of_def)

lemma user_with_mem: "user_with s k = Some u \<Longrightarrow> u \<in> set (users s) \<and> User_ID u = k"
  unfolding user_with_def by (blast dest: find_Some_mem)

lemma find_tg_mem: "find_tg s i = Some r \<Longrightarrow> r \<in> set (telegram_users s) \<and> tr_telegram_id r = sint i"
  unfolding find_tg_def by (blast dest: find_Some_mem)

lemma load_identity_Inr:
  assumes "load_identity tu userID created s = (Inr (u, tg, c), t)" "pg_uuid_in (engine s) userID = Some userID"
  shows "same_db s t \<and> user_with s userID = Some u \<and> c = created
    \<and> (\<exists>r. find_tg s (TU_TelegramID tu) = Some r \<and> tg = telegram_user_of_row r)"
proof -
  from assms(1) obtain s1 where 1: "query (select_user userID) s = (Inr u, s1)"
    and 2: "scanTelegramUser (query (select_tg (TU_TelegramID tu))) s1 = (Inr tg, t)" and c: "c = created"
    unfolding load_identity_def by (auto elim!: attempt_cases)
  from 1 have u: "user_with s userID = Some u" and "same_db s s1"
    using assms(2) by (auto elim!: query_Inr dest: select_user_Inr query_same)
  moreover from 2 have "same_db s1 t \<and> (\<exists>r. find_tg s1 (TU_TelegramID tu) = Some r \<and> tg = telegram_user_of_row r)"
    unfolding scanTelegramUser_def by (auto elim!: attempt_cases query_Inr split: if_splits)
  ultimately show ?thesis using c by (auto simp: same_db_def find_tg_def)
qed

lemma refresh_row_ids [simp]:
  "tr_telegram_id (refresh_row tu now r) = tr_telegram_id r" "tr_user_id (refresh_row tu now r) = tr_user_id r"
  by (simp_all add: refresh_row_def)

lemma refreshed_ids [simp]:
  "map tr_telegram_id (refreshed tu now ts) = map tr_telegram_id ts"
  "map tr_user_id (refreshed tu now ts) = map tr_user_id ts"
  by (simp_all add: refreshed_def)

lemma find_refreshed: "find (\<lambda>r. tr_telegram_id r = k) (refreshed tu now ts)
  = map_option (\<lambda>r. if tr_telegram_id r = sint (TU_TelegramID tu) then refresh_row tu now r else r)
      (find (\<lambda>r. tr_telegram_id r = k) ts)"
  unfolding refreshed_def by (rule find_map_if) simp

text \<open>What a successful \<open>EnsureTelegramUser\<close> did.\<close>

definition created_identity :: "TelegramUser \<Rightarrow> 'z pgdb_scheme \<Rightarrow> User \<Rightarrow> tg_row \<Rightarrow> 'z pgdb_scheme \<Rightarrow> bool" where
  "created_identity tu s u row t \<longleftrightarrow>
     same_db (s\<lparr>users := users s @ [u], telegram_users := telegram_users s @ [row]\<rparr>) t
   \<and> User_ID u \<notin> User_ID ` set (users s) \<and> User_Status u = UserActive
   \<and> pg_uuid_in (engine s) (User_ID u) = Some (User_ID u)
   \<and> tr_user_id row = User_ID u \<and> tr_telegram_id row = sint (TU_TelegramID tu) \<and> tg_row_checked row
   \<and> tr_telegram_id row \<notin> tr_telegram_id ` set (telegram_users s)"

definition refreshed_identity :: "TelegramUser \<Rightarrow> 'z pgdb_scheme \<Rightarrow> User \<Rightarrow> tg_row \<Rightarrow> 'z pgdb_scheme \<Rightarrow> bool" where
  "refreshed_identity tu s u row t \<longleftrightarrow> (\<exists>now r0.
     same_db (s\<lparr>telegram_users := refreshed tu now (telegram_users s)\<rparr>) t
   \<and> find_tg s (TU_TelegramID tu) = Some r0 \<and> row = refresh_row tu now r0 \<and> user_with s (tr_user_id r0) = Some u)"

lemma find_tg_same: "same_db s t \<Longrightarrow> find_tg t = find_tg s" "same_db s t \<Longrightarrow> user_with t = user_with s"
  by (auto simp: same_db_def find_tg_def user_with_def)

lemma insert_user_Inr:
  assumes "insert_user s = (Inr k, t)" "engine_ok (engine s)"
  obtains u where "same_db (s\<lparr>users := users s @ [u]\<rparr>) t" "User_ID u = k" "k \<notin> User_ID ` set (users s)"
    "User_Status u = UserActive" "pg_uuid_in (engine s) k = Some k"
  using assms that [of "\<lparr>User_ID = k, User_Status = ''active'', User_CreatedAt = pg_clock s, User_UpdatedAt = pg_clock s\<rparr>"]
  by (auto simp: insert_user_def Let_def engine_ok_def same_db_def go_consts split: if_split_asm)

lemma insert_tg_Inr:
  assumes "insert_tg tu k s = (Inr x, t)" "pg_uuid_in (engine s) k = Some k"
  obtains row where "same_db (s\<lparr>telegram_users := telegram_users s @ [row]\<rparr>) t" "tr_user_id row = k"
    "tr_telegram_id row = sint (TU_TelegramID tu)" "tg_row_checked row"
    "tr_telegram_id row \<notin> tr_telegram_id ` set (telegram_users s)"
proof -
  let ?row = "\<lparr>tr_telegram_id = sint (TU_TelegramID tu), tr_user_id = k,
                tr_username = nullable (TU_Username tu), tr_first_name = nullable (TU_FirstName tu),
                tr_last_name = nullable (TU_LastName tu), tr_language_code = nullable (TU_LanguageCode tu),
                tr_chat_id = sint (TU_ChatID tu), tr_created_at = pg_clock s,
                tr_updated_at = pg_clock s, tr_last_seen_at = pg_clock s\<rparr>"
  from assms have "tg_row_checked ?row" "tr_telegram_id ?row \<notin> tr_telegram_id ` set (telegram_users s)"
    "t = s\<lparr>telegram_users := telegram_users s @ [?row]\<rparr>"
    unfolding insert_tg_def with_uuid_def Let_def by (auto split: if_split_asm)
  then show thesis by (intro that [of ?row]) simp_all
qed

lemma ensure_create:
  assumes "db_ok s" and 1: "stmt insert_user s = (Inr k, s1)"
    and 2: "stmt (insert_tg tu k) s1 = (Inr x, s2)"
    and 3: "load_identity tu k True s2 = (Inr (u, tg, c), t)"
  shows "c \<and> (\<exists>row. created_identity tu s u row t \<and> tg = telegram_user_of_row row)"
proof -
  from 1 obtain fs where "insert_user (s\<lparr>pg_faults := fs\<rparr>) = (Inr k, s1)" by (rule stmt_Inr)
  then obtain u0 where u0: "same_db (s\<lparr>users := users s @ [u0]\<rparr>) s1" "User_ID u0 = k"
    "k \<notin> User_ID ` set (users s)" "User_Status u0 = UserActive" "pg_uuid_in (engine s) k = Some k"
    using db_okD(1) [OF assms(1)] by (elim insert_user_Inr) (auto simp: same_db_def)
  from 2 obtain fs' where "insert_tg tu k (s1\<lparr>pg_faults := fs'\<rparr>) = (Inr x, s2)" by (rule stmt_Inr)
  then obtain row where row: "same_db (s1\<lparr>telegram_users := telegram_users s @ [row]\<rparr>) s2" "tr_user_id row = k"
    "tr_telegram_id row = sint (TU_TelegramID tu)" "tg_row_checked row"
    "tr_telegram_id row \<notin> tr_telegram_id ` set (telegram_users s)"
    using u0 by (elim insert_tg_Inr) (auto simp: same_db_def)
  have s2: "same_db (s\<lparr>users := users s @ [u0], telegram_users := telegram_users s @ [row]\<rparr>) s2"
    using u0(1) row(1) by (simp add: same_db_def)
  from 3 have l: "same_db s2 t" "user_with s2 k = Some u" "c"
    "\<exists>r. find_tg s2 (TU_TelegramID tu) = Some r \<and> tg = telegram_user_of_row r"
    using load_identity_Inr [OF 3] u0(5) s2 by (auto simp: same_db_def)
  have "user_with s2 k = Some u0"
    using s2 u0(2,3) by (simp add: same_db_def user_with_def find_fresh)
  moreover have "find_tg s2 (TU_TelegramID tu) = Some row"
    using s2 row(3,5) by (simp add: same_db_def find_tg_def find_fresh)
  ultimately show ?thesis
    using l u0 row same_db_trans [OF s2 l(1)] unfolding created_identity_def by (intro conjI exI [of _ row]) auto
qed

lemma ensure_refresh:
  assumes "db_ok s" and r0: "find_tg s (TU_TelegramID tu) = Some r0"
    and 1: "stmt (refresh_tg tu) s = (Inr x, s1)"
    and 2: "load_identity tu (tr_user_id r0) False s1 = (Inr (u, tg, c), t)"
  shows "\<not> c \<and> (\<exists>row. refreshed_identity tu s u row t \<and> tg = telegram_user_of_row row)"
proof -
  from 1 obtain fs where "refresh_tg tu (s\<lparr>pg_faults := fs\<rparr>) = (Inr x, s1)" by (rule stmt_Inr)
  then obtain now where s1: "same_db (s\<lparr>telegram_users := refreshed tu now (telegram_users s)\<rparr>) s1"
    by (auto simp: refresh_tg_def same_db_def)
  have "tr_user_id r0 \<in> User_ID ` set (users s)"
    using assms(1) find_tg_mem [OF r0] by (auto simp: db_ok_def users_ok_def)
  then have "pg_uuid_in (engine s1) (tr_user_id r0) = Some (tr_user_id r0)"
    using assms(1) s1 by (auto simp: db_ok_def same_db_def)
  note l = load_identity_Inr [OF 2 this]
  have "find_tg s1 (TU_TelegramID tu) = Some (refresh_row tu now r0)"
    using s1 r0 find_tg_mem [OF r0] by (simp add: same_db_def find_tg_def find_refreshed)
  moreover have "user_with s1 = user_with s" using s1 by (auto simp: same_db_def user_with_def)
  ultimately show ?thesis
    using l s1 r0 by (auto simp: refreshed_identity_def intro: same_db_trans)
qed

lemma ensure_tx_Inr:
  assumes "db_ok s" "ensure_tx tu s = (Inr (u, tg, c), t)"
  shows "\<exists>row. tg = telegram_user_of_row row
    \<and> (if c then created_identity tu s u row t else refreshed_identity tu s u row t)"
  using assms(2) unfolding ensure_tx_def
proof (cases rule: attempt_cases)
  case (err e s0)
  from err(1) have s0: "same_db s s0" by (rule query_same)
  from err(2) obtain k s1 x s2 where "stmt insert_user s0 = (Inr k, s1)" "stmt (insert_tg tu k) s1 = (Inr x, s2)"
    "load_identity tu k True s2 = (Inr (u, tg, c), t)"
    by (auto elim!: attempt_cases split: if_splits)
  from ensure_create [OF _ this] assms(1) s0 obtain row where "c" "created_identity tu s0 u row t" "tg = telegram_user_of_row row"
    by (auto intro: db_ok_sameI)
  with s0 show ?thesis by (auto simp: created_identity_def same_db_def)
next
  case (val r0 s0)
  from val(1) have s0: "same_db s s0" by (rule query_same)
  from val(1) have r0: "find_tg s0 (TU_TelegramID tu) = Some r0" by (rule query_Inr) simp
  from val(2) obtain x s1 where "stmt (refresh_tg tu) s0 = (Inr x, s1)"
    "load_identity tu (tr_user_id r0) False s1 = (Inr (u, tg, c), t)"
    by (auto elim!: attempt_cases)
  from ensure_refresh [OF _ r0 this] assms(1) s0
  obtain row where "\<not> c" "refreshed_identity tu s0 u row t" "tg = telegram_user_of_row row"
    by (auto intro: db_ok_sameI)
  with s0 show ?thesis by (auto simp: refreshed_identity_def same_db_def find_tg_def user_with_def)
qed

section \<open>The contract holds\<close>

lemma keeps_engine_ensure [keeps_rules]: "keeps_engine (ensure_tx tu)"
proof -
  have 1: "keeps_engine insert_user"
    by (auto simp: keeps_engine_def insert_user_def Let_def)
  have 2: "keeps_engine (insert_tg tu k)" for k
    by (auto simp: keeps_engine_def insert_tg_def with_uuid_def Let_def split: option.splits)
  have 3: "keeps_engine (refresh_tg tu)"
    by (simp add: keeps_engine_def refresh_tg_def)
  show ?thesis unfolding ensure_tx_def load_identity_def scanTelegramUser_def by (intro keeps_rules 1 2 3)
qed

lemma created_db_ok:
  assumes "db_ok s" "created_identity tu s u row t"
  shows "db_ok t"
proof -
  have "tr_user_id row \<notin> tr_user_id ` set (telegram_users s)"
    using assms by (auto simp: db_ok_def users_ok_def created_identity_def)
  with assms have "db_ok (s\<lparr>users := users s @ [u], telegram_users := telegram_users s @ [row]\<rparr>)"
    by (auto simp: db_ok_def users_ok_def wallets_ok_def created_identity_def UserStatus_Valid_def)
  with assms(2) show ?thesis unfolding created_identity_def by (blast intro: db_ok_sameI)
qed

lemma refreshed_db_ok:
  assumes "db_ok s" "refreshed_identity tu s u row t"
  shows "db_ok t"
proof -
  from assms(2) obtain now where t: "same_db (s\<lparr>telegram_users := refreshed tu now (telegram_users s)\<rparr>) t"
    unfolding refreshed_identity_def by blast
  have "tr_user_id ` set (refreshed tu now ts) = tr_user_id ` set ts" for ts
    by (metis list.set_map refreshed_ids(2))
  moreover have "\<forall>r \<in> set (refreshed tu now (telegram_users s)). tg_row_checked r"
    using assms(1) by (auto simp: db_ok_def users_ok_def refreshed_def tg_row_checked_def)
  ultimately have "db_ok (s\<lparr>telegram_users := refreshed tu now (telegram_users s)\<rparr>)"
    using assms(1) by (simp add: db_ok_def users_ok_def)
  with t show ?thesis by (rule db_ok_sameI)
qed

lemma Ensure_cases:
  assumes "db_ok s" "UserRepo_EnsureTelegramUser tu s = (r, t)"
  obtains (none) e where "r = Inl e" "same_db s t"
    | (new) u row where "created_identity tu s u row t" "r = Inr (u, telegram_user_of_row row, True) \<or> isl r"
    | (old) u row where "refreshed_identity tu s u row t" "r = Inr (u, telegram_user_of_row row, False) \<or> isl r"
proof (cases "TelegramUserID_Valid (TU_TelegramID tu)")
  case False
  with assms(2) none show ?thesis by (simp add: UserRepo_EnsureTelegramUser_def)
next
  case True
  with assms(2) have "transaction (ensure_tx tu) s = (r, t)" by (simp add: UserRepo_EnsureTelegramUser_def)
  from this keeps_engine_ensure show ?thesis
  proof (cases rule: transaction_cases)
    case (all fs a v)
    obtain u tg c where a: "a = (u, tg, c)" by (cases a)
    from ensure_tx_Inr [OF _ all(1) [unfolded a]] assms(1) obtain row where tg: "tg = telegram_user_of_row row"
      and id: "if c then created_identity tu (s\<lparr>pg_faults := fs\<rparr>) u row v
           else refreshed_identity tu (s\<lparr>pg_faults := fs\<rparr>) u row v" by auto
    show ?thesis
    proof (cases c)
      case True
      with id all(2) have "created_identity tu s u row t" by (auto simp: created_identity_def same_db_def)
      with new all(3) a tg True show ?thesis by auto
    next
      case False
      with id all(2) have "refreshed_identity tu s u row t" by (auto simp: refreshed_identity_def same_db_def)
      with old all(3) a tg False show ?thesis by auto
    qed
  qed (use none in auto)
qed

lemma sint_eq [simp]: "sint (i :: i64) = sint j \<longleftrightarrow> i = j"
  by (auto intro: signed_word_eqI)

lemma created_account:
  assumes "db_ok s" "created_identity tu s u row t"
  shows "account_of s (TU_TelegramID tu) = None" "account_of t (TU_TelegramID tu) = Some u"
    "i \<noteq> TU_TelegramID tu \<Longrightarrow> account_of t i = account_of s i"
    "account_of s i = Some v \<Longrightarrow> account_of t i = Some v"
proof -
  from assms(2) have t: "users t = users s @ [u]" "telegram_users t = telegram_users s @ [row]"
    and new: "User_ID u \<notin> User_ID ` set (users s)" "tr_user_id row = User_ID u"
      "tr_telegram_id row = sint (TU_TelegramID tu)" "tr_telegram_id row \<notin> tr_telegram_id ` set (telegram_users s)"
    by (auto simp: created_identity_def same_db_def)
  from new(3,4) show s0: "account_of s (TU_TelegramID tu) = None"
    using find_fresh [of "sint (TU_TelegramID tu)" tr_telegram_id "telegram_users s" "[]"]
    by (simp add: account_of_def find_tg_def)
  from t new show "account_of t (TU_TelegramID tu) = Some u"
    by (simp add: account_of_def find_tg_def user_with_def find_fresh)
  show other: "account_of t i = account_of s i" if "i \<noteq> TU_TelegramID tu" for i
  proof (cases "find_tg s i")
    case None
    with that t new(3) show ?thesis by (simp add: account_of_def find_tg_def find_append)
  next
    case (Some r)
    with assms(1) find_tg_mem [OF Some] obtain v where "v \<in> set (users s)" "User_ID v = tr_user_id r"
      by (auto simp: db_ok_def users_ok_def)
    then have "user_with s (tr_user_id r) \<noteq> None" by (auto simp: user_with_def find_None_iff)
    with Some t show ?thesis by (auto simp: account_of_def find_tg_def find_append user_with_def)
  qed
  show "account_of t i = Some v" if "account_of s i = Some v"
    using that s0 other [of i] by (cases "i = TU_TelegramID tu") auto
qed

lemma refreshed_account:
  assumes "refreshed_identity tu s u row t"
  shows "account_of t = account_of s" "account_of s (TU_TelegramID tu) = Some u"
    "tr_user_id row = User_ID u" "tr_telegram_id row = sint (TU_TelegramID tu)"
proof -
  from assms obtain now r0 where t: "telegram_users t = refreshed tu now (telegram_users s)" "users t = users s"
    and r0: "find_tg s (TU_TelegramID tu) = Some r0" "row = refresh_row tu now r0" "user_with s (tr_user_id r0) = Some u"
    unfolding refreshed_identity_def same_db_def by auto
  show "account_of t = account_of s"
  proof
    fix i
    show "account_of t i = account_of s i"
      using t by (cases "find_tg s i") (auto simp: account_of_def find_tg_def find_refreshed user_with_def)
  qed
  show "account_of s (TU_TelegramID tu) = Some u" "tr_user_id row = User_ID u" "tr_telegram_id row = sint (TU_TelegramID tu)"
    using r0 user_with_mem [OF r0(3)] find_tg_mem [OF r0(1)] by (auto simp: account_of_def)
qed

lemma keeps_Ensure: "keeps db_ok (UserRepo_EnsureTelegramUser tu)"
proof (rule keepsI)
  fix s r t
  assume "db_ok s" "UserRepo_EnsureTelegramUser tu s = (r, t)"
  then show "db_ok t"
    by (cases rule: Ensure_cases) (use \<open>db_ok s\<close> created_db_ok refreshed_db_ok db_ok_sameI in blast)+
qed

lemma Ensure_old:
  assumes "db_ok s" "UserRepo_EnsureTelegramUser tu s = (r, t)" "account_of s i = Some u"
  shows "account_of t i = Some u"
  using assms(1,2)
proof (cases rule: Ensure_cases)
  case (new v row)
  with assms(1,3) created_account(4) show ?thesis by metis
qed (use assms(3) account_same refreshed_account(1) in metis)+

lemma Ensure_other:
  assumes "db_ok s" "UserRepo_EnsureTelegramUser tu s = (r, t)" "i \<noteq> TU_TelegramID tu"
  shows "account_of t i = account_of s i"
  using assms(1,2)
proof (cases rule: Ensure_cases)
  case (new v row)
  with assms(1,3) created_account(3) show ?thesis by metis
qed (use account_same refreshed_account(1) in metis)+

lemma Ensure_value:
  assumes "db_ok s" "UserRepo_EnsureTelegramUser tu s = (Inr (u, tg, created), t)"
  shows "account_of t (TU_TelegramID tu) = Some u \<and> TU_TelegramID tg = TU_TelegramID tu \<and> TU_UserID tg = User_ID u
      \<and> (created \<longleftrightarrow> account_of s (TU_TelegramID tu) = None) \<and> (created \<longrightarrow> User_Status u = UserActive)"
  using assms
proof (cases rule: Ensure_cases)
  case (new v row)
  with created_account(1,2) [OF assms(1) new(1)] show ?thesis
    by (auto simp: created_identity_def telegram_user_of_row_def)
next
  case (old v row)
  with refreshed_account [OF old(1)] show ?thesis by (auto simp: telegram_user_of_row_def)
qed simp

interpretation pgu: user_store UserRepo db_ok account_of
  by unfold_locales (unfold UserRepo_def UserStore.simps,
    rule keeps_Ensure, (rule Ensure_old Ensure_other Ensure_value; assumption)+)

end
