(* ===== verification/LogRepos.thy ===== *)
theory LogRepos
  imports UserRepo
begin

text \<open>
  \<open>internal/persistence/postgres/audit.go\<close> and \<open>syncstate.go\<close>: the append-only audit
  trail and the monotone record of the highest block observed on each chain.
\<close>

section \<open>The audit trail\<close>

text \<open>
  \<open>json.Marshal\<close> fails on a NaN or an infinity; it visits the keys of a map in sorted order.
\<close>

fun json_unsupported :: "detail \<Rightarrow> string option" where
  "json_unsupported (DFloat NaN) = Some ''NaN''"
| "json_unsupported (DFloat PosInf) = Some ''+Inf''"
| "json_unsupported (DFloat NegInf) = Some ''-Inf''"
| "json_unsupported (DMap kvs) = first_some (\<lambda>(k, v). json_unsupported v) (sort_key fst kvs)"
| "json_unsupported _ = None"

definition marshal_detail :: "(string \<times> detail) list \<Rightarrow> error + (string \<times> detail) list" where
  "marshal_detail d = (case json_unsupported (DMap d) of
       None \<Rightarrow> Inr d
     | Some t \<Rightarrow> Inl (New (''json: unsupported value: '' @ t)))"

definition insert_audit :: "AuditEvent \<Rightarrow> (string \<times> detail) list \<Rightarrow> ('z pgdb_scheme, unit) op" where
  "insert_audit e d s =
     (let row = \<lparr>ar_occurred_at = pg_timestamp_in (engine s) (Ev_OccurredAt e), ar_actor_type = Ev_ActorType e,
            ar_actor_id = nullable (Ev_ActorID e), ar_action = Ev_Action e,
            ar_subject_type = nullable (Ev_SubjectType e), ar_subject_id = nullable (Ev_SubjectID e),
            ar_outcome = Ev_Outcome e, ar_detail = d\<rparr>
      in if \<not> audit_row_checked row then (Inl (pg_err (engine s) ''23514''), s)
         else (Inr (), s\<lparr>audit_logs := audit_logs s @ [row]\<rparr>))"

definition AuditRepo_Record :: "AuditEvent \<Rightarrow> ('z pgdb_scheme, unit) op" where
  "AuditRepo_Record e =
     (case (if Ev_Detail e \<noteq> [] then marshal_detail (Ev_Detail e) else Inr []) of
        Inl err \<Rightarrow> throw (Wrap ''marshal audit detail: '' err [])
      | Inr d \<Rightarrow> attempt (stmt (insert_audit e d)) (\<lambda>err. throw (Wrap ''record audit event: '' err [])) (\<lambda>_. ok ()))"

definition AuditRepo :: "'z pgdb_scheme AuditStore" where
  "AuditRepo = \<lparr>Audit_Record = AuditRepo_Record\<rparr>"

text \<open>Everything but the audit trail stays, and the trail only grows.\<close>

definition appended :: "'z pgdb_scheme \<Rightarrow> 'z pgdb_scheme \<Rightarrow> bool" where
  "appended s t \<longleftrightarrow> (\<exists>rows. audit_logs t = audit_logs s @ rows \<and> length rows \<le> 1 \<and> list_all audit_row_checked rows)
     \<and> same_db (s\<lparr>audit_logs := audit_logs t\<rparr>) t"

lemma insert_audit_appended: "insert_audit e d s = (r, t) \<Longrightarrow> appended s t"
  by (auto simp: insert_audit_def Let_def appended_def same_db_def split: if_split_asm intro: exI [of _ "[]"])

lemma appended_same: "same_db s t \<Longrightarrow> appended s t"
  by (simp add: appended_def same_db_def)

lemma Record_appended:
  assumes "AuditRepo_Record e s = (r, t)"
  shows "appended s t"
proof -
  have "appended s t" if "stmt (insert_audit e d) s = (q, t)" for d q
    using that
  proof (cases rule: stmt_cases)
    case (silent err fs q')
    then show ?thesis using insert_audit_appended [OF silent(2)] by (simp add: appended_def same_db_def)
  next
    case (run fs)
    then show ?thesis using insert_audit_appended [OF run] by (simp add: appended_def same_db_def)
  qed (simp add: appended_same)
  with assms show ?thesis
    unfolding AuditRepo_Record_def by (auto elim!: attempt_cases intro: appended_same split: sum.splits)
qed

lemma appended_db_ok: "appended s t \<Longrightarrow> db_ok s \<Longrightarrow> db_ok t"
  by (auto simp: appended_def same_db_def db_ok_def list_all_iff)

lemma appended_at:
  "appended s t \<Longrightarrow> wallet_at t = wallet_at s \<and> policy_at t = policy_at s \<and> account_of t = account_of s"
  unfolding appended_def
  by (auto simp: same_db_def wallet_at_def policy_at_def find_wallet_def find_policy_def
      account_of_def find_tg_def user_with_def)

lemma keeps_Record [keeps_rules]: "keeps db_ok (AuditRepo_Record e)"
  by (rule keepsI) (blast dest: Record_appended intro: appended_db_ok)

section \<open>Chain progress\<close>

definition sync_upsert :: "sync_row \<Rightarrow> sync_row list \<Rightarrow> sync_row list" where
  "sync_upsert new rs =
     (if sr_chain_id new \<in> sr_chain_id ` set rs
      then map (\<lambda>r. if sr_chain_id r = sr_chain_id new \<and> sr_last_block_number new > sr_last_block_number r
                    then new else r) rs
      else rs @ [new])"

definition save_row :: "u64 \<Rightarrow> string \<Rightarrow> u64 \<Rightarrow> Hash \<Rightarrow> time \<Rightarrow> ('z pgdb_scheme, unit) op" where
  "save_row chainID chainName number hash tm s =
     (let new = \<lparr>sr_chain_id = sint chainID, sr_chain_name = chainName, sr_last_block_number = sint number,
            sr_last_block_hash = hash, sr_last_block_time = pg_timestamp_in (engine s) tm,
            sr_observed_at = pg_clock s, sr_updated_at = pg_clock s\<rparr>
      in if \<not> sync_row_checked new then (Inl (pg_err (engine s) ''23514''), s)
         else (Inr (), s\<lparr>chain_sync_state := sync_upsert new (chain_sync_state s)\<rparr>))"

definition SyncStateRepo_SaveHead :: "unicode \<Rightarrow> u64 \<Rightarrow> string \<Rightarrow> BlockRef \<Rightarrow> ('z pgdb_scheme, unit) op" where
  "SyncStateRepo_SaveHead U chainID chainName block = (case ParseHash U (Block_Hash block) of
       Inl err \<Rightarrow> throw (Wrap ''save head: '' err [])
     | Inr hash \<Rightarrow> attempt (stmt (save_row chainID chainName (Block_Number block) hash (Block_Time block)))
         (\<lambda>err. throw (Wrap ''save head: '' err [])) (\<lambda>_. ok ()))"

definition find_head :: "'z pgdb_scheme \<Rightarrow> u64 \<Rightarrow> sync_row option" where
  "find_head s chainID = find (\<lambda>r. sr_chain_id r = sint chainID) (chain_sync_state s)"

definition SyncStateRepo_LoadHead :: "u64 \<Rightarrow> ('z pgdb_scheme, BlockRef \<times> bool) op" where
  "SyncStateRepo_LoadHead chainID =
     attempt (query (\<lambda>s. case find_head s chainID of None \<Rightarrow> Inl (Foreign PgxErrNoRows) | Some r \<Rightarrow> Inr r))
       (\<lambda>err. if errors_Is err (Foreign PgxErrNoRows) then ok (zero_BlockRef, False)
              else throw (Wrap ''load head: '' err []))
       (\<lambda>r. ok (zero_BlockRef\<lparr>Block_Number := word_of_int (sr_last_block_number r),
                  Block_Hash := sr_last_block_hash r, Block_Time := sr_last_block_time r\<rparr>, True))"

text \<open>The height recorded for a chain, if any.\<close>

definition height :: "'z pgdb_scheme \<Rightarrow> u64 \<Rightarrow> int option" where
  "height s c = map_option sr_last_block_number (find_head s c)"

lemma save_row_refines:
  assumes "save_row c n k h tm s = (r, t)"
  shows "(t = s \<and> isl r) \<or> (\<exists>new. t = s\<lparr>chain_sync_state := sync_upsert new (chain_sync_state s)\<rparr> \<and> r = Inr ()
    \<and> sync_row_checked new \<and> sr_chain_id new = sint c \<and> sr_last_block_number new = sint k \<and> sr_last_block_hash new = h)"
  using assms by (auto simp: save_row_def Let_def split: if_split_asm)

lemma find_upsert:
  assumes "distinct (map sr_chain_id rs)"
  shows "map_option sr_last_block_number (find (\<lambda>r. sr_chain_id r = i) (sync_upsert new rs))
    = (case map_option sr_last_block_number (find (\<lambda>r. sr_chain_id r = i) rs) of
         None \<Rightarrow> if sr_chain_id new = i then Some (sr_last_block_number new) else None
       | Some n \<Rightarrow> if sr_chain_id new = i then Some (max n (sr_last_block_number new)) else Some n)"
proof (cases "sr_chain_id new \<in> sr_chain_id ` set rs")
  case True
  have up: "sync_upsert new rs = map (\<lambda>r. if sr_chain_id r = sr_chain_id new
      \<and> sr_last_block_number new > sr_last_block_number r then new else r) rs"
    using True by (simp add: sync_upsert_def)
  have "find (\<lambda>r. sr_chain_id r = i) (sync_upsert new rs) = map_option (\<lambda>r. if sr_chain_id r = sr_chain_id new
      \<and> sr_last_block_number new > sr_last_block_number r then new else r) (find (\<lambda>r. sr_chain_id r = i) rs)"
    unfolding up by (rule find_map_if) simp
  moreover have "find (\<lambda>r. sr_chain_id r = sr_chain_id new) rs \<noteq> None" using True by (auto simp: find_None_iff)
  ultimately show ?thesis
    by (cases "find (\<lambda>r. sr_chain_id r = i) rs") (auto dest: find_Some_mem split: option.splits)
next
  case False
  then show ?thesis
    by (cases "find (\<lambda>r. sr_chain_id r = i) rs")
       (auto simp: sync_upsert_def find_append image_iff dest!: find_Some_mem split: option.splits)
qed

lemma sync_ok_upsert:
  assumes "sync_ok rs" "sync_row_checked new"
  shows "sync_ok (sync_upsert new rs)"
proof -
  have "map sr_chain_id (sync_upsert new rs) = (if sr_chain_id new \<in> sr_chain_id ` set rs
      then map sr_chain_id rs else map sr_chain_id rs @ [sr_chain_id new])"
    by (auto simp: sync_upsert_def)
  with assms show ?thesis by (auto simp: sync_ok_def sync_upsert_def)
qed

text \<open>What a \<open>SaveHead\<close> can have done, whatever it returned.\<close>

lemma SaveHead_cases:
  assumes "SyncStateRepo_SaveHead U c n b s = (r, t)"
  obtains (none) "isl r" "same_db s t"
    | (upsert) new where "same_db (s\<lparr>chain_sync_state := sync_upsert new (chain_sync_state s)\<rparr>) t"
        "sync_row_checked new" "sr_chain_id new = sint c" "sr_last_block_number new = sint (Block_Number b)"
        "ParseHash U (Block_Hash b) = Inr (sr_last_block_hash new)"
proof (cases "ParseHash U (Block_Hash b)")
  case (Inl e)
  with assms none show ?thesis by (auto simp: SyncStateRepo_SaveHead_def)
next
  case (Inr h)
  let ?m = "save_row c n (Block_Number b) h (Block_Time b)"
  from assms Inr obtain q where "stmt ?m s = (q, t)" and q: "isl q \<Longrightarrow> isl r"
    by (auto simp: SyncStateRepo_SaveHead_def elim!: attempt_cases)
  then show ?thesis
  proof (cases rule: stmt_cases)
    case (lost e fs)
    with none q show ?thesis by auto
  next
    case (silent e fs q')
    with save_row_refines [OF silent(2)] none q Inr upsert show ?thesis by (auto simp: same_db_def)
  next
    case (run fs)
    with save_row_refines [OF run] none q Inr upsert show ?thesis by (auto simp: same_db_def)
  qed
qed

lemma keeps_SaveHead [keeps_rules]: "keeps db_ok (SyncStateRepo_SaveHead U c n b)"
proof (rule keepsI)
  fix s r t
  assume "db_ok s" "SyncStateRepo_SaveHead U c n b s = (r, t)"
  from this(2) show "db_ok t"
  proof (cases rule: SaveHead_cases)
    case (upsert new)
    then have "db_ok (s\<lparr>chain_sync_state := sync_upsert new (chain_sync_state s)\<rparr>)"
      using \<open>db_ok s\<close> by (simp add: db_ok_def sync_ok_upsert)
    with upsert(1) show ?thesis by (rule db_ok_sameI)
  qed (use \<open>db_ok s\<close> in \<open>auto intro: db_ok_sameI\<close>)
qed

definition raised :: "int option \<Rightarrow> int \<Rightarrow> int option" where
  "raised old n = Some (case old of None \<Rightarrow> n | Some m \<Rightarrow> max m n)"

lemma height_same: "same_db s t \<Longrightarrow> height t = height s"
  by (auto simp: same_db_def height_def find_head_def)

lemma SaveHead_height:
  assumes "db_ok s" "SyncStateRepo_SaveHead U c n b s = (r, t)"
  shows "(\<forall>i. i \<noteq> c \<longrightarrow> height t i = height s i)
    \<and> (height t c = height s c \<and> isl r \<or> height t c = raised (height s c) (sint (Block_Number b)))"
  using assms(2)
proof (cases rule: SaveHead_cases)
  case (upsert new)
  have d: "distinct (map sr_chain_id (chain_sync_state s))" using assms(1) by (simp add: db_ok_def sync_ok_def)
  have "height t i = (if i = c then raised (height s c) (sint (Block_Number b)) else height s i)" for i
    using upsert find_upsert [OF d, of "sint i" new]
    by (auto simp: height_def find_head_def same_db_def raised_def split: option.splits)
  then show ?thesis by simp
qed (simp add: height_same)

text \<open>
  Chain progress never goes back: whatever \<open>SaveHead\<close> returned, every recorded height
  is kept or raised, only the given chain's record can change, and after a success it is the
  larger of the old height and the block's number. So a stale or replayed head is ignored.
\<close>

theorem SaveHead_monotone:
  assumes "db_ok s" "SyncStateRepo_SaveHead U c n b s = (r, t)"
  shows "db_ok t \<and> (\<forall>i. i \<noteq> c \<longrightarrow> height t i = height s i)
    \<and> (height t c = height s c \<or> height t c = raised (height s c) (sint (Block_Number b)))
    \<and> (r = Inr () \<longrightarrow> height t c = raised (height s c) (sint (Block_Number b)))"
  using SaveHead_height [OF assms] keepsD [OF keeps_SaveHead assms(1,2)] by auto

text \<open>A database of one chain, for examples; the engine's texts are the identity.\<close>

definition plain_engine :: pg_engine where
  "plain_engine = \<lparr>pg_gen_uuid = (\<lambda>n. replicate (Suc n) (CHR ''u'')), pg_uuid_in = Some,
     pg_numeric_in = (\<lambda>_ _ x. case x of Fin r \<Rightarrow> Some (PgFin r) | NaN \<Rightarrow> Some PgNaN | _ \<Rightarrow> None),
     pg_numeric_out = (\<lambda>x. case x of PgFin r \<Rightarrow> Fin r | PgNaN \<Rightarrow> NaN),
     pg_timestamp_in = (\<lambda>t. t), pg_text = (\<lambda>c. c)\<rparr>"

definition empty_db :: "'z \<Rightarrow> 'z pgdb_scheme" where
  "empty_db z = \<lparr>engine = plain_engine, users = [], telegram_users = [], wallets = [], wallet_policies = [],
     audit_logs = [], chain_sync_state = [], pg_clock = 0, pg_uuid_next = 0, pg_faults = [], \<dots> = z\<rparr>"

lemma plain_engine_uuid [simp]: "pg_uuid_in plain_engine x = Some x"
  by (simp add: plain_engine_def)

lemma plain_engine_ok [simp]: "engine_ok plain_engine"
  by (simp add: engine_ok_def plain_engine_def)

lemma empty_db_ok [simp]: "db_ok (empty_db z)"
  by (simp add: db_ok_def empty_db_def users_ok_def wallets_ok_def wallets_unique_def policies_unique_def sync_ok_def)

definition sample_block :: "u64 \<Rightarrow> BlockRef" where
  "sample_block n = zero_BlockRef\<lparr>Block_Number := n, Block_Hash := ''0x'' @ replicate 64 (CHR ''a'')\<rparr>"

theorem SaveHead_monotone_witness:
  "let s7 = snd (SyncStateRepo_SaveHead ascii_tables 4663 ''rh'' (sample_block 7) (empty_db ())) in
   height s7 4663 = Some 7
   \<and> height (snd (SyncStateRepo_SaveHead ascii_tables 4663 ''rh'' (sample_block 5) s7)) 4663 = Some 7"
proof -
  define s7 where "s7 = snd (SyncStateRepo_SaveHead ascii_tables 4663 ''rh'' (sample_block 7) (empty_db ()))"
  define s5 where "s5 = snd (SyncStateRepo_SaveHead ascii_tables 4663 ''rh'' (sample_block 5) s7)"
  have "fst (SyncStateRepo_SaveHead ascii_tables 4663 ''rh'' (sample_block 7) (empty_db ())) = Inr ()"
    by code_simp
  then have 7: "SyncStateRepo_SaveHead ascii_tables 4663 ''rh'' (sample_block 7) (empty_db ()) = (Inr (), s7)"
    by (metis s7_def prod.collapse)
  have "fst (SyncStateRepo_SaveHead ascii_tables 4663 ''rh'' (sample_block 5) s7) = Inr ()"
    unfolding s7_def by code_simp
  then have 5: "SyncStateRepo_SaveHead ascii_tables 4663 ''rh'' (sample_block 5) s7 = (Inr (), s5)"
    by (metis s5_def prod.collapse)
  have "height (empty_db ()) 4663 = None" by (simp add: height_def find_head_def empty_db_def)
  with SaveHead_monotone [OF empty_db_ok 7] have 70: "height s7 4663 = Some 7" and "db_ok s7"
    by (simp_all add: raised_def sample_block_def zero_BlockRef_def)
  with SaveHead_monotone [OF \<open>db_ok s7\<close> 5] have "height s5 4663 = Some 7"
    by (simp add: raised_def sample_block_def zero_BlockRef_def)
  with 70 show ?thesis by (simp add: s7_def s5_def Let_def)
qed

end
