(* ===== verification/WalletService.thy ===== *)
theory WalletService
  imports LogRepos
begin

text \<open>
  \<open>internal/application/wallet.go\<close>: the use cases that link, verify, show, limit and
  disable wallets. The service is a record of the interfaces it was built with; every
  method is an operation on the state of the world. The locale \<open>wallet_service\<close> extends the
  contract of the wallet store by what the service relies on of its other interfaces (that
  auditing, queueing and probing leave wallets and policies alone) and holds the service's
  lemmas; it is interpreted on the PostgreSQL repositories with any queue and any chain
  client, whose own state lies outside the database.
\<close>

section \<open>The service\<close>

record 's WalletService =
  ws_wallets :: "'s WalletStore"
  ws_audit :: "'s AuditStore option"
  ws_chain :: "'s AddressProbe option"
  ws_queue :: "'s TaskEnqueuer option"
  ws_chainID :: u64
  ws_defaults :: WalletPolicy
  ws_now :: "'s \<Rightarrow> time"
  ws_clock :: "'s \<Rightarrow> time"

text \<open>The last argument is \<open>time.Now\<close>, which stands in for a nil \<open>Now\<close> and stamps the events.\<close>

definition NewWalletService ::
    "'s WalletStore \<Rightarrow> 's AuditStore option \<Rightarrow> 's AddressProbe option \<Rightarrow> 's TaskEnqueuer option \<Rightarrow>
     u64 \<Rightarrow> WalletPolicy \<Rightarrow> ('s \<Rightarrow> time) option \<Rightarrow> ('s \<Rightarrow> time) \<Rightarrow> 's WalletService" where
  "NewWalletService store audit chain queue chainID defaults now clock =
     \<lparr>ws_wallets = store, ws_audit = audit, ws_chain = chain, ws_queue = queue, ws_chainID = chainID,
      ws_defaults = defaults, ws_now = (case now of None \<Rightarrow> clock | Some f \<Rightarrow> f), ws_clock = clock\<rparr>"

record LinkRequest =
  Req_UserID :: UserID
  Req_Address :: string
  Req_Role :: WalletRole
  Req_Label :: string
  Req_ActorID :: string

record WalletView =
  View_Wallet :: Wallet
  View_Policy :: WalletPolicy
  View_Balance :: Wei
  View_BalanceError :: string

text \<open>A failed write of the trail is logged and dropped.\<close>

definition recordAudit :: "'s WalletService \<Rightarrow> AuditEvent \<Rightarrow> 's \<Rightarrow> 's" where
  "recordAudit svc e s = (case ws_audit svc of None \<Rightarrow> s | Some a \<Rightarrow> snd (Audit_Record a e s))"

text \<open>An event is stamped when it is built, right before it is recorded.\<close>

definition audit :: "'s WalletService \<Rightarrow> (time \<Rightarrow> AuditEvent) \<Rightarrow> 's \<Rightarrow> 's" where
  "audit svc ev s = recordAudit svc (ev (ws_clock svc s)) s"

definition audited :: "'s WalletService \<Rightarrow> 's \<Rightarrow> 's \<Rightarrow> bool" where
  "audited svc s t \<longleftrightarrow> (\<exists>ev. t = audit svc ev s)"

lemma audited_audit [simp, intro]: "audited svc s (audit svc ev s)"
  by (auto simp: audited_def)

definition enqueue_verify :: "'s WalletService \<Rightarrow> string \<Rightarrow> 's \<Rightarrow> 's" where
  "enqueue_verify svc walletID s = (case ws_queue svc of None \<Rightarrow> s | Some q \<Rightarrow> snd (EnqueueWalletVerify q walletID s))"

definition WalletService_Link :: "unicode \<Rightarrow> 's WalletService \<Rightarrow> LinkRequest \<Rightarrow> ('s, Wallet) op" where
  "WalletService_Link U svc req =
     (let event = (\<lambda>now. NewAuditEvent now ActorTelegramUser (Req_ActorID req) ActionWalletLinked) in
      case NewWallet U (Req_UserID req) (Req_Address req) (ws_chainID svc) (Req_Role req) (Req_Label req) of
        Inl err \<Rightarrow>
          after (audit svc (\<lambda>now. WithDetail ''reason'' (DString (Error err))
                   (WithOutcome OutcomeRejected (event now))))
            (throw err)
      | Inr wallet \<Rightarrow>
          (let policy = (ws_defaults svc)\<lparr>Pol_TradingEnabled := False\<rparr> in
           attempt (Store_Link (ws_wallets svc) wallet policy)
             (\<lambda>err. let outcome = (if errors_Is err (Sentinel ErrWalletAlreadyLinked) then OutcomeRejected
                                   else OutcomeFailed) in
                after (audit svc (\<lambda>now. WithDetail ''reason'' (DString (Error err))
                         (WithOutcome outcome (WithSubject ''wallet_address'' (Wallet_Address wallet) (event now)))))
                  (throw err))
             (\<lambda>stored.
                after (audit svc (\<lambda>now. WithDetail ''role'' (DString (Wallet_Role stored))
                         (WithDetail ''chain_id'' (DUint (Wallet_ChainID stored))
                         (WithDetail ''address'' (DString (Wallet_Address stored))
                         (WithSubject ''wallet'' (Wallet_ID stored) (event now))))))
                  (after (enqueue_verify svc (Wallet_ID stored)) (ok stored)))))"

definition nil_call :: error where
  "nil_call = Panic ''runtime error: invalid memory address or nil pointer dereference''"

definition WalletService_Verify :: "'s WalletService \<Rightarrow> string \<Rightarrow> ('s, Wallet) op" where
  "WalletService_Verify svc walletID =
     attempt (Store_Get (ws_wallets svc) walletID) throw (\<lambda>wallet.
     (case ws_chain svc of None \<Rightarrow> throw nil_call | Some chain \<Rightarrow>
     (let failed = (\<lambda>now. WithOutcome OutcomeFailed (WithSubject ''wallet'' walletID
                       (NewAuditEvent now ActorWorker ''worker'' ActionWalletVerifyFailed))) in
     attempt (Probe_ChainID chain) (\<lambda>err. throw (Wrap ''read chain id: '' err [])) (\<lambda>i.
     if i \<noteq> Wallet_ChainID wallet then
       after (audit svc (\<lambda>now. WithDetail ''wallet_chain_id'' (DUint (Wallet_ChainID wallet))
                (WithDetail ''node_chain_id'' (DUint i)
                (WithDetail ''reason'' (DString ''chain id mismatch'') (failed now)))))
         (throw (Wrap [] (Sentinel ErrWrongChain) ('': node reports '' @ dec_nat (unat i)
                   @ '', wallet expects '' @ dec_nat (unat (Wallet_ChainID wallet)))))
     else
     attempt (Probe_BalanceAt chain (Wallet_Address wallet) None)
       (\<lambda>err. after (audit svc (\<lambda>now. WithDetail ''reason'' (DString ''balance read failed'') (failed now)))
                (throw (Wrap ''read balance: '' err [])))
       (\<lambda>balance.
     attempt (\<lambda>s. Store_MarkVerified (ws_wallets svc) walletID (ws_now svc s) s) throw (\<lambda>_.
     after (audit svc (\<lambda>now. WithDetail ''chain_id'' (DUint (Wallet_ChainID wallet))
              (WithDetail ''address'' (DString (Wallet_Address wallet))
              (WithSubject ''wallet'' walletID (NewAuditEvent now ActorWorker ''worker'' ActionWalletVerified)))))
       (Store_Get (ws_wallets svc) walletID)))))))"

definition zero_view :: "Wallet \<Rightarrow> WalletView" where
  "zero_view w = \<lparr>View_Wallet = w, View_Policy = zero_WalletPolicy, View_Balance = Wei None, View_BalanceError = []\<rparr>"

text \<open>The body shared by \<open>List\<close> and \<open>Get\<close>: a failed read leaves its field at the zero value.\<close>

definition fill_policy :: "'s WalletService \<Rightarrow> WalletView \<Rightarrow> 's \<Rightarrow> WalletView \<times> 's" where
  "fill_policy svc view s =
     (case Store_GetPolicy (ws_wallets svc) (Wallet_ID (View_Wallet view)) s of
        (Inr p, s') \<Rightarrow> (view\<lparr>View_Policy := p\<rparr>, s') | (Inl err, s') \<Rightarrow> (view, s'))"

definition fill_balance :: "'s WalletService \<Rightarrow> WalletView \<Rightarrow> 's \<Rightarrow> WalletView \<times> 's" where
  "fill_balance svc view s = (case ws_chain svc of None \<Rightarrow> (view, s) | Some chain \<Rightarrow>
     (case Probe_BalanceAt chain (Wallet_Address (View_Wallet view)) None s of
        (Inl err, s') \<Rightarrow> (view\<lparr>View_BalanceError := Error err\<rparr>, s')
      | (Inr bal, s') \<Rightarrow> (view\<lparr>View_Balance := bal\<rparr>, s')))"

definition view_of :: "'s WalletService \<Rightarrow> Wallet \<Rightarrow> 's \<Rightarrow> WalletView \<times> 's" where
  "view_of svc w s = (case fill_policy svc (zero_view w) s of (view, s') \<Rightarrow> fill_balance svc view s')"

fun views :: "'s WalletService \<Rightarrow> Wallet list \<Rightarrow> 's \<Rightarrow> WalletView list \<times> 's" where
  "views svc [] s = ([], s)"
| "views svc (w # ws) s =
     (case view_of svc w s of (view, s') \<Rightarrow> (case views svc ws s' of (out, s'') \<Rightarrow> (view # out, s'')))"

definition WalletService_List :: "'s WalletService \<Rightarrow> UserID \<Rightarrow> ('s, WalletView list) op" where
  "WalletService_List svc userID =
     attempt (Store_ListByUser (ws_wallets svc) userID) throw
       (\<lambda>wallets s. case views svc wallets s of (out, s') \<Rightarrow> (Inr out, s'))"

definition WalletService_Get :: "'s WalletService \<Rightarrow> UserID \<Rightarrow> string \<Rightarrow> ('s, WalletView) op" where
  "WalletService_Get svc userID walletID =
     attempt (Store_Get (ws_wallets svc) walletID) throw (\<lambda>w.
     if Wallet_UserID w \<noteq> userID then throw (Sentinel ErrWalletNotOwned)
     else (\<lambda>s. case view_of svc w s of (view, s') \<Rightarrow> (Inr view, s')))"

definition policyDetail :: "WalletPolicy \<Rightarrow> detail" where
  "policyDetail p = DMap
     [(''max_position_percent'', DFloat (Pol_MaxPositionPercent p)),
      (''max_open_positions'', DInt (Pol_MaxOpenPositions p)),
      (''daily_loss_limit_percent'', DFloat (Pol_DailyLossLimitPercent p)),
      (''stop_loss_percent'', DFloat (Pol_StopLossPercent p)),
      (''capital_recovery_percent'', DFloat (Pol_CapitalRecoveryPercent p)),
      (''max_slippage_bps'', DInt (Pol_MaxSlippageBPS p)),
      (''min_liquidity_usd'', DFloat (Pol_MinLiquidityUSD p)),
      (''trading_enabled'', DBool (Pol_TradingEnabled p))]"

definition WalletService_UpdatePolicy ::
    "'s WalletService \<Rightarrow> UserID \<Rightarrow> string \<Rightarrow> WalletPolicy \<Rightarrow> string \<Rightarrow> ('s, WalletPolicy) op" where
  "WalletService_UpdatePolicy svc userID walletID p actorID =
     (let event = (\<lambda>now. WithSubject ''wallet'' walletID
                     (NewAuditEvent now ActorTelegramUser actorID ActionPolicyChanged));
          rejected = (\<lambda>err now. WithDetail ''reason'' (DString (Error err)) (WithOutcome OutcomeRejected (event now))) in
      attempt (Store_Get (ws_wallets svc) walletID) throw (\<lambda>w.
      if Wallet_UserID w \<noteq> userID then throw (Sentinel ErrWalletNotOwned)
      else case Validate p of
        Some err \<Rightarrow> after (audit svc (rejected err)) (throw (Wrap ''invalid policy: '' err []))
      | None \<Rightarrow>
      attempt (Store_GetPolicy (ws_wallets svc) walletID) throw (\<lambda>old_policy.
      attempt (Store_UpdatePolicy (ws_wallets svc) walletID p)
        (\<lambda>err. after (audit svc (rejected err)) (throw err)) (\<lambda>_.
      after (audit svc (\<lambda>now. WithDetail ''after'' (policyDetail p)
               (WithDetail ''before'' (policyDetail old_policy) (event now))))
        (Store_GetPolicy (ws_wallets svc) walletID)))))"

definition WalletService_Disable :: "'s WalletService \<Rightarrow> UserID \<Rightarrow> string \<Rightarrow> string \<Rightarrow> ('s, unit) op" where
  "WalletService_Disable svc userID walletID actorID =
     attempt (Store_Get (ws_wallets svc) walletID) throw (\<lambda>w.
     if Wallet_UserID w \<noteq> userID then throw (Sentinel ErrWalletNotOwned)
     else attempt (Store_SetStatus (ws_wallets svc) walletID WalletDisabled) throw (\<lambda>_.
       after (audit svc (\<lambda>now. WithSubject ''wallet'' walletID
                (NewAuditEvent now ActorTelegramUser actorID ActionWalletDisabled)))
         (ok ())))"

section \<open>What the service relies on\<close>

text \<open>
  \<open>frames I f m\<close>: whatever \<open>m\<close> returns, it keeps the invariant and the view \<open>f\<close> of the
  state.
\<close>

definition frames :: "('s \<Rightarrow> bool) \<Rightarrow> ('s \<Rightarrow> 'v) \<Rightarrow> ('s, 'a) op \<Rightarrow> bool" where
  "frames I f m \<longleftrightarrow> keeps I m \<and> (\<forall>s. f (snd (m s)) = f s)"

lemma framesD: "frames I f m \<Longrightarrow> m s = (r, t) \<Longrightarrow> f t = f s \<and> (I s \<longrightarrow> I t)"
  by (metis frames_def keepsD snd_conv)

definition bystander_audit :: "('s \<Rightarrow> bool) \<Rightarrow> ('s \<Rightarrow> 'v) \<Rightarrow> 's AuditStore option \<Rightarrow> bool" where
  "bystander_audit I f au \<longleftrightarrow> (\<forall>a e. au = Some a \<longrightarrow> frames I f (Audit_Record a e))"

definition bystander_queue :: "('s \<Rightarrow> bool) \<Rightarrow> ('s \<Rightarrow> 'v) \<Rightarrow> 's TaskEnqueuer option \<Rightarrow> bool" where
  "bystander_queue I f qu \<longleftrightarrow> (\<forall>q. qu = Some q \<longrightarrow>
     (\<forall>i. frames I f (EnqueueWalletVerify q i)) \<and> (\<forall>c m. frames I f (EnqueueNotification q c m)))"

definition bystander_probe :: "('s \<Rightarrow> bool) \<Rightarrow> ('s \<Rightarrow> 'v) \<Rightarrow> 's AddressProbe option \<Rightarrow> bool" where
  "bystander_probe I f ch \<longleftrightarrow> (\<forall>c. ch = Some c \<longrightarrow>
     frames I f (Probe_ChainID c) \<and> (\<forall>a n. frames I f (Probe_BalanceAt c a n)))"

locale wallet_service =
  wallet_store "ws_wallets svc" inv wallet_at policy_at user_key
  for svc :: "'s WalletService" and inv wallet_at policy_at user_key +
  assumes audit_bystander: "bystander_audit inv (\<lambda>s. (wallet_at s, policy_at s)) (ws_audit svc)"
    and queue_bystander: "bystander_queue inv (\<lambda>s. (wallet_at s, policy_at s)) (ws_queue svc)"
    and chain_bystander: "bystander_probe inv (\<lambda>s. (wallet_at s, policy_at s)) (ws_chain svc)"
begin

lemma audit_at [simp]: "wallet_at (audit svc ev s) = wallet_at s" "policy_at (audit svc ev s) = policy_at s"
  using audit_bystander
  by (auto simp: audit_def recordAudit_def bystander_audit_def frames_def split: option.splits)

lemma audited_at: "audited svc s t \<Longrightarrow> wallet_at t = wallet_at s \<and> policy_at t = policy_at s"
  by (auto simp: audited_def)

lemma audit_inv [intro]: "inv s \<Longrightarrow> inv (audit svc ev s)"
  using audit_bystander
  by (auto simp: audit_def recordAudit_def bystander_audit_def frames_def keeps_def split: option.splits)

lemma audited_inv: "audited svc s t \<Longrightarrow> inv s \<Longrightarrow> inv t"
  by (auto simp: audited_def)

lemma enqueue_at [simp]:
  "wallet_at (enqueue_verify svc i s) = wallet_at s" "policy_at (enqueue_verify svc i s) = policy_at s"
  using queue_bystander by (auto simp: enqueue_verify_def bystander_queue_def frames_def split: option.splits)

lemma enqueue_inv [intro]: "inv s \<Longrightarrow> inv (enqueue_verify svc i s)"
  using queue_bystander by (auto simp: enqueue_verify_def bystander_queue_def frames_def keeps_def split: option.splits)

lemma probe_at:
  assumes "ws_chain svc = Some c"
  shows "Probe_ChainID c s = (r, t) \<Longrightarrow> wallet_at t = wallet_at s \<and> policy_at t = policy_at s \<and> (inv s \<longrightarrow> inv t)"
    and "Probe_BalanceAt c a n s = (rb, t) \<Longrightarrow> wallet_at t = wallet_at s \<and> policy_at t = policy_at s \<and> (inv s \<longrightarrow> inv t)"
  using chain_bystander assms by (auto simp: bystander_probe_def dest!: framesD)

subsection \<open>Linking\<close>

lemma Link_cases:
  assumes "WalletService_Link U svc req s = (r, t)"
  obtains (rejected) err where "NewWallet U (Req_UserID req) (Req_Address req) (ws_chainID svc) (Req_Role req) (Req_Label req) = Inl err"
      "r = Inl err" "audited svc s t"
    | (refused) w err s1 where "NewWallet U (Req_UserID req) (Req_Address req) (ws_chainID svc) (Req_Role req) (Req_Label req) = Inr w"
      "Store_Link (ws_wallets svc) w ((ws_defaults svc)\<lparr>Pol_TradingEnabled := False\<rparr>) s = (Inl err, s1)"
      "r = Inl err" "audited svc s1 t"
    | (linked) w v s1 s2 where "NewWallet U (Req_UserID req) (Req_Address req) (ws_chainID svc) (Req_Role req) (Req_Label req) = Inr w"
      "Store_Link (ws_wallets svc) w ((ws_defaults svc)\<lparr>Pol_TradingEnabled := False\<rparr>) s = (Inr v, s1)"
      "r = Inr v" "audited svc s1 s2" "t = enqueue_verify svc (Wallet_ID v) s2"
proof (cases "NewWallet U (Req_UserID req) (Req_Address req) (ws_chainID svc) (Req_Role req) (Req_Label req)")
  case (Inl err)
  with assms rejected show ?thesis by (auto simp: WalletService_Link_def after_def)
next
  case (Inr w)
  obtain q s1 where q: "Store_Link (ws_wallets svc) w ((ws_defaults svc)\<lparr>Pol_TradingEnabled := False\<rparr>) s = (q, s1)"
    by fastforce
  show ?thesis
  proof (cases q)
    case (Inl err)
    with assms Inr q refused show ?thesis by (auto simp: WalletService_Link_def after_def)
  next
    case (Inr v)
    with assms \<open>NewWallet _ _ _ _ _ _ = _\<close> q linked [OF _ _ _ audited_audit] show ?thesis
      by (auto simp: WalletService_Link_def after_def)
  qed
qed

lemma Link_frame:
  assumes "inv s" "WalletService_Link U svc req s = (r, t)"
  shows "inv t"
    and "wallet_at s i = Some v \<Longrightarrow> wallet_at t i = Some v \<and> policy_at t i = policy_at s i"
    and "wallet_at s i = None \<Longrightarrow> wallet_at t i = Some v \<Longrightarrow>
      Wallet_Status v = WalletPending \<and> Wallet_VerifiedAt v = None \<and> Wallet_ChainID v = ws_chainID svc \<and> user_key s (Req_UserID req) = Some (Wallet_UserID v)
      \<and> lower_hex_re 40 (Wallet_Address v) \<and> Wallet_Address v \<noteq> zero_address
      \<and> (\<exists>q. policy_at t i = Some q \<and> \<not> Pol_TradingEnabled q)"
proof -
  have "inv t \<and> (\<forall>i v. wallet_at s i = Some v \<longrightarrow> wallet_at t i = Some v \<and> policy_at t i = policy_at s i)
    \<and> (\<forall>i v. wallet_at s i = None \<longrightarrow> wallet_at t i = Some v \<longrightarrow>
      Wallet_Status v = WalletPending \<and> Wallet_VerifiedAt v = None \<and> Wallet_ChainID v = ws_chainID svc \<and> user_key s (Req_UserID req) = Some (Wallet_UserID v)
      \<and> lower_hex_re 40 (Wallet_Address v) \<and> Wallet_Address v \<noteq> zero_address
      \<and> (\<exists>q. policy_at t i = Some q \<and> \<not> Pol_TradingEnabled q))"
    using assms(2)
  proof (cases rule: Link_cases)
    case (rejected err)
    with assms(1) show ?thesis by (auto simp: audited_at intro: audited_inv)
  next
    case (refused w err s1)
    note fields = NewWallet_fields [OF refused(1)]
    with refused show ?thesis
      using fields link_old [OF assms(1) refused(2)] link_new [OF assms(1) refused(2)] keepsD [OF inv_link assms(1) refused(2)]
      by (auto simp: NewWallet_Inr audited_at intro: audited_inv dest: ParseAddress_lower)
  next
    case (linked w v s1 s2)
    note fields = NewWallet_fields [OF linked(1)]
    with linked show ?thesis
      using fields link_old [OF assms(1) linked(2)] link_new [OF assms(1) linked(2)] keepsD [OF inv_link assms(1) linked(2)]
      by (auto simp: NewWallet_Inr audited_at intro: audited_inv dest: ParseAddress_lower)
  qed
  then show "inv t"
    and "wallet_at s i = Some v \<Longrightarrow> wallet_at t i = Some v \<and> policy_at t i = policy_at s i"
    and "wallet_at s i = None \<Longrightarrow> wallet_at t i = Some v \<Longrightarrow>
      Wallet_Status v = WalletPending \<and> Wallet_VerifiedAt v = None \<and> Wallet_ChainID v = ws_chainID svc \<and> user_key s (Req_UserID req) = Some (Wallet_UserID v)
      \<and> lower_hex_re 40 (Wallet_Address v) \<and> Wallet_Address v \<noteq> zero_address
      \<and> (\<exists>q. policy_at t i = Some q \<and> \<not> Pol_TradingEnabled q)"
    by blast+
qed

lemma Link_success:
  assumes "inv s" "WalletService_Link U svc req s = (Inr v, t)"
  shows "wallet_at s (Wallet_ID v) = None \<and> wallet_at t (Wallet_ID v) = Some v"
  using assms(2)
proof (cases rule: Link_cases)
  case (linked w v' s1 s2)
  with link_value [OF assms(1), of w _ v' s1] show ?thesis by (auto simp: audited_at)
qed simp_all

subsection \<open>Verification\<close>

lemma Verify_cases:
  assumes "WalletService_Verify svc i s = (r, t)"
  obtains (idle) "isl r" "wallet_at t = wallet_at s" "policy_at t = policy_at s" "inv s \<Longrightarrow> inv t"
    | (marked) w c s1 s2 s3 tm q s4 b where "wallet_at s i = Some w" "ws_chain svc = Some c"
      "Probe_ChainID c s1 = (Inr (Wallet_ChainID w), s2)"
      "Probe_BalanceAt c (Wallet_Address w) None s2 = (Inr b, s3)"
      "wallet_at s3 = wallet_at s" "policy_at s3 = policy_at s" "inv s \<Longrightarrow> inv s3"
      "Store_MarkVerified (ws_wallets svc) i tm s3 = (q, s4)"
      "wallet_at t = wallet_at s4" "policy_at t = policy_at s4" "inv s4 \<Longrightarrow> inv t"
      "\<And>v. r = Inr v \<Longrightarrow> q = Inr () \<and> wallet_at t i = Some v"
  using assms unfolding WalletService_Verify_def
proof (cases rule: attempt_cases)
  case (err e s1)
  with idle show ?thesis using get_frame [OF err(1)] keepsD [OF inv_get _ err(1)] by auto
next
  case (val w s1)
  note g = get_frame [OF val(1)] get_value [OF val(1)] keepsD [OF inv_get _ val(1)]
  show ?thesis
  proof (cases "ws_chain svc")
    case None
    with val(2) g idle show ?thesis by auto
  next
    case (Some c)
    note val(2) [unfolded Some Let_def option.case]
    then show ?thesis
    proof (cases rule: attempt_cases)
      case (err e s2)
      with idle g probe_at(1) [OF Some err(1)] show ?thesis by auto
    next
      case (val i' s2)
      note p1 = probe_at(1) [OF Some val(1)] and c1 = val
      show ?thesis
      proof (cases "i' = Wallet_ChainID w")
        case False
        with val(2) g p1 idle show ?thesis by (auto simp: after_def)
      next
        case True
        note val(2) [unfolded True, simplified]
        then show ?thesis
        proof (cases rule: attempt_cases)
          case (err e s3)
          with idle g p1 probe_at(2) [OF Some err(1)] show ?thesis by (auto simp: after_def)
        next
          case (val b s3)
          note p2 = probe_at(2) [OF Some val(1)] and b = val(1)
          from val(2) have "\<exists>q s4. Store_MarkVerified (ws_wallets svc) i (ws_now svc s3) s3 = (q, s4) \<and>
            ((isl r \<and> t = s4) \<or> (\<exists>s5. audited svc s4 s5 \<and> q = Inr () \<and> Store_Get (ws_wallets svc) i s5 = (r, t)))"
          proof (cases rule: attempt_cases)
            case (val u s4)
            obtain s5 where "audited svc s4 s5" "Store_Get (ws_wallets svc) i s5 = (r, t)"
              by (rule that [OF audited_audit val(2) [unfolded after_def]])
            with val(1) show ?thesis by auto
          qed auto
          then obtain q s4 where m: "Store_MarkVerified (ws_wallets svc) i (ws_now svc s3) s3 = (q, s4)"
            and last: "(isl r \<and> t = s4) \<or> (\<exists>s5. audited svc s4 s5 \<and> q = Inr () \<and> Store_Get (ws_wallets svc) i s5 = (r, t))"
            by blast
          have fin: "wallet_at t = wallet_at s4 \<and> policy_at t = policy_at s4 \<and> (inv s4 \<longrightarrow> inv t)
              \<and> (\<forall>v. r = Inr v \<longrightarrow> q = Inr () \<and> wallet_at t i = Some v)"
            using last
          proof (elim disjE exE conjE)
            fix s5
            assume "audited svc s4 s5" "q = Inr ()" and g5: "Store_Get (ws_wallets svc) i s5 = (r, t)"
            then show ?thesis
              using get_frame [OF g5] get_value [of i s5 _ t] audited_at [of s4 s5] audited_inv [of s4 s5] keepsD [OF inv_get _ g5]
              by auto
          qed auto
          show ?thesis
            using marked [of w c s1 s2 b s3 "ws_now svc s3" q s4] g p1 p2 c1(1) True b Some m fin by auto
        qed
      qed
    qed
  qed
qed

lemma Verify_effect:
  assumes "inv s" "WalletService_Verify svc i s = (r, t)"
  shows "inv t \<and> policy_at t = policy_at s \<and> (\<forall>j. wallet_at s j = None \<longrightarrow> wallet_at t j = None)"
    and "wallet_at s j = Some w \<Longrightarrow> \<exists>w'. wallet_at t j = Some w' \<and> (w' = w \<or>
      (wallet_at s i = Some w \<and> Wallet_Status w = WalletPending \<and> same_wallet w w'
       \<and> Wallet_Status w' = WalletActive \<and> Wallet_VerifiedAt w' \<noteq> None
       \<and> (\<exists>c s1 s2 s3 b. ws_chain svc = Some c \<and> Probe_ChainID c s1 = (Inr (Wallet_ChainID w), s2)
            \<and> Probe_BalanceAt c (Wallet_Address w) None s2 = (Inr b, s3))))"
    and "r = Inr v \<Longrightarrow> wallet_at t i = Some v \<and> Wallet_Status v \<noteq> WalletPending"
proof -
  from assms(2) show "inv t \<and> policy_at t = policy_at s \<and> (\<forall>j. wallet_at s j = None \<longrightarrow> wallet_at t j = None)"
  proof (cases rule: Verify_cases)
    case (marked w c s1 s2 s3 tm q s4 b)
    from marked(7) [OF assms(1)] have "inv s3" .
    from keepsD [OF inv_mark this marked(8)] mark_policies [OF this marked(8)] mark_none [OF this marked(8)]
    show ?thesis using marked by auto
  qed (use assms(1) in auto)
  show "\<exists>w'. wallet_at t j = Some w' \<and> (w' = w \<or>
      (wallet_at s i = Some w \<and> Wallet_Status w = WalletPending \<and> same_wallet w w'
       \<and> Wallet_Status w' = WalletActive \<and> Wallet_VerifiedAt w' \<noteq> None
       \<and> (\<exists>c s1 s2 s3 b. ws_chain svc = Some c \<and> Probe_ChainID c s1 = (Inr (Wallet_ChainID w), s2)
            \<and> Probe_BalanceAt c (Wallet_Address w) None s2 = (Inr b, s3))))"
    if "wallet_at s j = Some w" using assms(2)
  proof (cases rule: Verify_cases)
    case (marked w0 c s1 s2 s3 tm q s4 b)
    from marked(7) [OF assms(1)] have "inv s3" .
    moreover from that marked(5) have "wallet_at s3 j = Some w" by simp
    ultimately obtain w' where w': "wallet_at s4 j = Some w'" "w' = w \<or> (wallet_at s3 i = Some w
        \<and> Wallet_Status w = WalletPending \<and> same_wallet w w' \<and> Wallet_Status w' = WalletActive \<and> Wallet_VerifiedAt w' \<noteq> None)"
      using mark_effect [OF _ marked(8)] by blast
    moreover have "w0 = w" if "wallet_at s3 i = Some w" using that marked(1,5) by simp
    ultimately show ?thesis
      using marked(2-5,9) by (intro exI [of _ w']) auto
  qed (use that in auto)
  show "wallet_at t i = Some v \<and> Wallet_Status v \<noteq> WalletPending" if "r = Inr v" using assms(2)
  proof (cases rule: Verify_cases)
    case (marked w c s1 s2 s3 tm q s4 b)
    from marked(12) [OF that] have q: "q = Inr ()" "wallet_at t i = Some v" by auto
    from mark_done [OF marked(7) [OF assms(1)] marked(8) [unfolded q(1)]] marked(9) q(2) show ?thesis by auto
  qed (use that in simp)
qed

subsection \<open>Operations on an owned wallet\<close>

lemma UpdatePolicy_cases:
  assumes "inv s" "WalletService_UpdatePolicy svc u i p a s = (r, t)"
  obtains (idle) "isl r" "wallet_at t = wallet_at s" "policy_at t = policy_at s" "inv t"
    | (sent) w s1 q s2 where "wallet_at s i = Some w" "Wallet_UserID w = u" "Validate p = None"
      "wallet_at s1 = wallet_at s" "policy_at s1 = policy_at s" "inv s1"
      "Store_UpdatePolicy (ws_wallets svc) i p s1 = (q, s2)"
      "wallet_at t = wallet_at s2" "policy_at t = policy_at s2" "inv t"
      "\<And>p'. r = Inr p' \<Longrightarrow> q = Inr () \<and> policy_at t i = Some p'"
  using assms(2) unfolding WalletService_UpdatePolicy_def Let_def
proof (cases rule: attempt_cases)
  case (err e s1)
  with idle show ?thesis using get_frame [OF err(1)] keepsD [OF inv_get assms(1) err(1)] by auto
next
  case (val w s1)
  note g = get_frame [OF val(1)] get_value [OF val(1)] keepsD [OF inv_get assms(1) val(1)]
  consider "Wallet_UserID w \<noteq> u" | e where "Wallet_UserID w = u" "Validate p = Some e"
    | "Wallet_UserID w = u" "Validate p = None" by (cases "Validate p") auto
  then show ?thesis
  proof cases
    case 1
    with val(2) g idle show ?thesis by auto
  next
    case (2 e)
    with val(2) have "audited svc s1 t" "isl r" by (auto simp: after_def)
    with g idle show ?thesis by (simp add: audited_at audited_inv)
  next
    case 3
    note val(2) [unfolded 3 option.case, simplified]
    then show ?thesis
    proof (cases rule: attempt_cases)
      case (err e s2)
      with idle g show ?thesis using get_policy_frame [OF err(1)] keepsD [OF inv_get_policy g(3) err(1)] by auto
    next
      case (val before s2)
      note gp = get_policy_frame [OF val(1)] keepsD [OF inv_get_policy g(3) val(1)]
      from val(2) show ?thesis
      proof (cases rule: attempt_cases)
        case (err e s3)
        then obtain e' where "audited svc s3 t" "r = Inl e'" by (auto simp: after_def)
        with sent [of w s2 "Inl e" s3] 3 g gp err(1) keepsD [OF inv_update_policy gp(2) err(1)] show ?thesis
          using audited_inv [of s3 t] by (auto simp: audited_at)
      next
        case (val x s3)
        obtain s4 where s4: "audited svc s3 s4" "Store_GetPolicy (ws_wallets svc) i s4 = (r, t)"
          by (rule that [OF audited_audit val(2) [unfolded after_def]])
        have "inv s4" using keepsD [OF inv_update_policy gp(2) val(1)] s4(1) audited_inv by blast
        then have "inv t" using keepsD [OF inv_get_policy _ s4(2)] by blast
        with sent [of w s2 "Inr x" s3] 3 g gp val(1) get_policy_frame [OF s4(2)] get_policy_value [of i s4 _ t] s4
        show ?thesis by (simp add: audited_at)
      qed
    qed
  qed
qed

lemma UpdatePolicy_effect:
  assumes "inv s" "WalletService_UpdatePolicy svc u i p a s = (r, t)"
  shows "inv t \<and> wallet_at t = wallet_at s"
    and "policy_at t j \<noteq> policy_at s j \<Longrightarrow> \<exists>w. wallet_at s i = Some w \<and> Wallet_UserID w = u \<and> Validate p = None
      \<and> (\<forall>v. wallet_at s j = Some v \<longrightarrow> Wallet_ID v = Wallet_ID w)
      \<and> (\<exists>q. policy_at t j = Some q \<and> Pol_TradingEnabled q = Pol_TradingEnabled p)"
    and "r = Inr p' \<Longrightarrow> policy_at t i = Some p' \<and> Pol_TradingEnabled p' = Pol_TradingEnabled p"
proof -
  from assms show "inv t \<and> wallet_at t = wallet_at s"
    by (cases rule: UpdatePolicy_cases) (simp_all add: update_wallets)
  show "\<exists>w. wallet_at s i = Some w \<and> Wallet_UserID w = u \<and> Validate p = None
      \<and> (\<forall>v. wallet_at s j = Some v \<longrightarrow> Wallet_ID v = Wallet_ID w)
      \<and> (\<exists>q. policy_at t j = Some q \<and> Pol_TradingEnabled q = Pol_TradingEnabled p)"
    if "policy_at t j \<noteq> policy_at s j" using assms
  proof (cases rule: UpdatePolicy_cases)
    case (sent w s1 q s2)
    from that sent(5,9) have "policy_at s2 j \<noteq> policy_at s1 j" by simp
    then show ?thesis
      using update_effect [OF sent(6,7)] update_other [OF sent(6,7), of w j] sent by auto
  qed (use that in simp)
  show "policy_at t i = Some p' \<and> Pol_TradingEnabled p' = Pol_TradingEnabled p" if "r = Inr p'" using assms
  proof (cases rule: UpdatePolicy_cases)
    case (sent w s1 q s2)
    from sent(11) [OF that] sent(7) update_done [OF sent(6), of i p "()" s2] sent(9) show ?thesis by auto
  qed (use that in simp)
qed

lemma Disable_effect:
  assumes "inv s" "WalletService_Disable svc u i a s = (r, t)"
  shows "inv t \<and> policy_at t = policy_at s \<and> (\<forall>j. wallet_at s j = None \<longrightarrow> wallet_at t j = None)"
    and "wallet_at s j = Some w \<Longrightarrow> \<exists>w'. wallet_at t j = Some w' \<and> (w' = w \<or>
      (wallet_at s i = Some w \<and> Wallet_UserID w = u \<and> CanTransitionTo (Wallet_Status w) WalletDisabled
       \<and> same_wallet w w' \<and> Wallet_Status w' = WalletDisabled))"
    and "r = Inr () \<Longrightarrow> \<exists>w. wallet_at t i = Some w \<and> Wallet_Status w = WalletDisabled"
proof -
  consider (idle) "isl r" "wallet_at t = wallet_at s" "policy_at t = policy_at s" "inv t"
    | (set) w s1 q s2 where "wallet_at s i = Some w" "Wallet_UserID w = u" "wallet_at s1 = wallet_at s"
      "policy_at s1 = policy_at s" "inv s1" "Store_SetStatus (ws_wallets svc) i WalletDisabled s1 = (q, s2)"
      "wallet_at t = wallet_at s2" "policy_at t = policy_at s2" "inv t" "r = q"
    using assms(2) unfolding WalletService_Disable_def
  proof (cases rule: attempt_cases)
    case (err e s1)
    with that(1) show ?thesis using get_frame [OF err(1)] keepsD [OF inv_get assms(1) err(1)] by auto
  next
    case (val w s1)
    note g = get_frame [OF val(1)] get_value [OF val(1)] keepsD [OF inv_get assms(1) val(1)]
    show ?thesis
    proof (cases "Wallet_UserID w = u")
      case True
      with val(2) obtain q s2 where q: "Store_SetStatus (ws_wallets svc) i WalletDisabled s1 = (q, s2)" "r = q"
        and t: "t = s2 \<or> audited svc s2 t" by (auto elim!: attempt_cases simp: after_def)
      with that(2) [of w s1 q s2] True g keepsD [OF inv_set g(3) q(1)] show ?thesis
        using audited_inv [of s2 t] by (auto simp: audited_at)
    qed (use val(2) g that(1) in auto)
  qed
  note disable_cases = this
  show "inv t \<and> policy_at t = policy_at s \<and> (\<forall>j. wallet_at s j = None \<longrightarrow> wallet_at t j = None)"
    using disable_cases
  proof cases
    case (set w s1 q s2)
    with set_policies [OF set(5,6)] set_none [OF set(5,6)] show ?thesis by auto
  qed auto
  show "\<exists>w'. wallet_at t j = Some w' \<and> (w' = w \<or>
      (wallet_at s i = Some w \<and> Wallet_UserID w = u \<and> CanTransitionTo (Wallet_Status w) WalletDisabled
       \<and> same_wallet w w' \<and> Wallet_Status w' = WalletDisabled))" if "wallet_at s j = Some w"
    using disable_cases
  proof cases
    case (set w0 s1 q s2)
    with set_effect [OF set(5,6), of j w] that show ?thesis by auto
  qed (use that in simp)
  show "\<exists>w. wallet_at t i = Some w \<and> Wallet_Status w = WalletDisabled" if "r = Inr ()"
    using disable_cases
  proof cases
    case (set w s1 q s2)
    with set_done [OF set(5), of i WalletDisabled "()" s2] that show ?thesis by auto
  qed (use that in simp)
qed

subsection \<open>Reads\<close>

lemma fill_policy_at:
  "fill_policy svc v s = (v', t) \<Longrightarrow>
   wallet_at t = wallet_at s \<and> policy_at t = policy_at s \<and> (inv s \<longrightarrow> inv t) \<and> View_Wallet v' = View_Wallet v"
  unfolding fill_policy_def
  by (auto dest: get_policy_frame keepsD [OF inv_get_policy] split: prod.splits sum.splits)

lemma fill_balance_at:
  "fill_balance svc v s = (v', t) \<Longrightarrow>
   wallet_at t = wallet_at s \<and> policy_at t = policy_at s \<and> (inv s \<longrightarrow> inv t) \<and> View_Wallet v' = View_Wallet v"
  unfolding fill_balance_def
  by (auto dest: probe_at(2) split: prod.splits sum.splits option.splits)

lemma view_of_at:
  assumes "view_of svc w s = (v, t)"
  shows "wallet_at t = wallet_at s \<and> policy_at t = policy_at s \<and> (inv s \<longrightarrow> inv t) \<and> View_Wallet v = w"
  using assms unfolding view_of_def
  by (auto dest!: fill_policy_at fill_balance_at simp: zero_view_def split: prod.splits)

lemma views_at:
  "views svc ws s = (vs, t) \<Longrightarrow>
   wallet_at t = wallet_at s \<and> policy_at t = policy_at s \<and> (inv s \<longrightarrow> inv t) \<and> map View_Wallet vs = ws"
proof (induction ws arbitrary: s vs)
  case (Cons w ws)
  from Cons.prems obtain v s1 vs' where "view_of svc w s = (v, s1)" "views svc ws s1 = (vs', t)" "vs = v # vs'"
    by (auto split: prod.splits)
  with Cons.IH [of s1 vs'] view_of_at [of w s v s1] show ?case by simp
qed simp

lemma Get_effect:
  assumes "WalletService_Get svc u i s = (r, t)"
  shows "wallet_at t = wallet_at s \<and> policy_at t = policy_at s \<and> (inv s \<longrightarrow> inv t)"
    and "r = Inr v \<Longrightarrow> wallet_at s i = Some (View_Wallet v) \<and> Wallet_UserID (View_Wallet v) = u"
    and "wallet_at s i = Some w \<Longrightarrow> Wallet_UserID w \<noteq> u \<Longrightarrow> isl r"
proof -
  have "wallet_at t = wallet_at s \<and> policy_at t = policy_at s \<and> (inv s \<longrightarrow> inv t)
    \<and> (isl r \<or> (\<exists>v. r = Inr v \<and> wallet_at s i = Some (View_Wallet v) \<and> Wallet_UserID (View_Wallet v) = u))"
    using assms unfolding WalletService_Get_def
  proof (cases rule: attempt_cases)
    case (err e s1)
    then show ?thesis using get_frame [OF err(1)] keepsD [OF inv_get _ err(1)] by auto
  next
    case (val w s1)
    note g = get_frame [OF val(1)] get_value [OF val(1)] keepsD [OF inv_get _ val(1)]
    show ?thesis
    proof (cases "Wallet_UserID w = u")
      case True
      with val(2) obtain v where "view_of svc w s1 = (v, t)" "r = Inr v" by (auto split: prod.splits)
      with view_of_at [of w s1 v t] g True show ?thesis by auto
    qed (use val(2) g in auto)
  qed
  then show "wallet_at t = wallet_at s \<and> policy_at t = policy_at s \<and> (inv s \<longrightarrow> inv t)"
    and "r = Inr v \<Longrightarrow> wallet_at s i = Some (View_Wallet v) \<and> Wallet_UserID (View_Wallet v) = u"
    and "wallet_at s i = Some w \<Longrightarrow> Wallet_UserID w \<noteq> u \<Longrightarrow> isl r"
    by auto
qed

lemma List_effect:
  assumes "inv s" "WalletService_List svc u s = (r, t)"
  shows "inv t \<and> wallet_at t = wallet_at s \<and> policy_at t = policy_at s"
    and "r = Inr vs \<Longrightarrow> v \<in> set vs \<Longrightarrow> wallet_at s (Wallet_ID (View_Wallet v)) = Some (View_Wallet v)
      \<and> user_key s u = Some (Wallet_UserID (View_Wallet v))"
proof -
  show "inv t \<and> wallet_at t = wallet_at s \<and> policy_at t = policy_at s"
    using assms list_frame [of u s] keepsD [OF inv_list assms(1), of u] unfolding WalletService_List_def
    by (auto elim!: attempt_cases split: prod.splits dest!: views_at)
  assume "r = Inr vs" "v \<in> set vs"
  with assms(2) obtain ws s1 where ws: "Store_ListByUser (ws_wallets svc) u s = (Inr ws, s1)" "views svc ws s1 = (vs, t)"
    unfolding WalletService_List_def by (auto elim!: attempt_cases split: prod.splits)
  with views_at [OF ws(2)] \<open>v \<in> set vs\<close> have "View_Wallet v \<in> set ws" by auto
  with list_value [OF assms(1) ws(1)] show "wallet_at s (Wallet_ID (View_Wallet v)) = Some (View_Wallet v)
      \<and> user_key s u = Some (Wallet_UserID (View_Wallet v))" .
qed

end

section \<open>The service on PostgreSQL\<close>

text \<open>The chain node and the queue have no access to the tables.\<close>

definition outside_probe :: "'z AddressProbe \<Rightarrow> 'z pgdb_scheme AddressProbe" where
  "outside_probe c = \<lparr>Probe_ChainID = outside (Probe_ChainID c),
     Probe_BalanceAt = (\<lambda>a n. outside (Probe_BalanceAt c a n))\<rparr>"

definition outside_queue :: "'z TaskEnqueuer \<Rightarrow> 'z pgdb_scheme TaskEnqueuer" where
  "outside_queue q = \<lparr>EnqueueWalletVerify = (\<lambda>i. outside (EnqueueWalletVerify q i)),
     EnqueueNotification = (\<lambda>c m. outside (EnqueueNotification q c m))\<rparr>"

definition pg_wallet_service ::
    "unicode \<Rightarrow> 'z AddressProbe option \<Rightarrow> 'z TaskEnqueuer option \<Rightarrow> u64 \<Rightarrow> WalletPolicy \<Rightarrow>
     ('z pgdb_scheme \<Rightarrow> time) \<Rightarrow> 'z pgdb_scheme WalletService" where
  "pg_wallet_service U ch qu chainID defaults clock =
     NewWalletService (WalletRepo U) (Some AuditRepo) (map_option outside_probe ch) (map_option outside_queue qu)
       chainID defaults None clock"

lemma frames_outside: "frames db_ok (\<lambda>s. (wallet_at s, policy_at s)) (outside m)"
proof -
  have "same_db s (snd (outside m s))" for s by (metis outside_same prod.collapse)
  then show ?thesis using same_db_at keeps_same [OF outside_same] by (auto simp: frames_def)
qed

lemma frames_Record: "frames db_ok (\<lambda>s. (wallet_at s, policy_at s)) (AuditRepo_Record e)"
proof -
  have "appended s (snd (AuditRepo_Record e s))" for s by (metis Record_appended prod.collapse)
  then show ?thesis using appended_at keeps_Record by (auto simp: frames_def)
qed

interpretation pgs: wallet_service "pg_wallet_service U ch qu chainID defaults clock" db_ok wallet_at policy_at "\<lambda>s. pg_uuid_in (engine s)"
  for U ch qu chainID defaults clock
  using pg.wallet_store_axioms [of U]
  by (auto simp: wallet_service_def wallet_service_axioms_def pg_wallet_service_def NewWalletService_def
      bystander_audit_def bystander_queue_def bystander_probe_def AuditRepo_def
      outside_queue_def outside_probe_def frames_outside frames_Record)

section \<open>Properties\<close>

text \<open>
  C10. Linking a wallet changes no wallet and no policy that was there before; every wallet
  it creates belongs to the requesting account and is pending, unverified, on the service's chain, at a well-formed non-zero
  address, and has a policy under which trading is disabled, whatever the configured
  defaults say. A success returns a wallet that is new and stored. All constraints of the
  database hold afterwards, in every outcome.
\<close>

theorem WalletService_Link_safe:
  assumes "db_ok s" "WalletService_Link U (pg_wallet_service U ch qu chainID defaults clock) req s = (r, t)"
  shows "db_ok t
    \<and> (\<forall>i v. wallet_at s i = Some v \<longrightarrow> wallet_at t i = Some v \<and> policy_at t i = policy_at s i)
    \<and> (\<forall>i v. wallet_at s i = None \<longrightarrow> wallet_at t i = Some v \<longrightarrow>
         Wallet_Status v = WalletPending \<and> Wallet_VerifiedAt v = None \<and> Wallet_ChainID v = chainID
         \<and> pg_uuid_in (engine s) (Req_UserID req) = Some (Wallet_UserID v)
         \<and> lower_hex_re 40 (Wallet_Address v) \<and> Wallet_Address v \<noteq> zero_address
         \<and> (\<exists>q. policy_at t i = Some q \<and> \<not> Pol_TradingEnabled q))
    \<and> (\<forall>v. r = Inr v \<longrightarrow> wallet_at s (Wallet_ID v) = None \<and> wallet_at t (Wallet_ID v) = Some v)"
proof -
  have c: "ws_chainID (pg_wallet_service U ch qu chainID defaults clock) = chainID"
    by (simp add: pg_wallet_service_def NewWalletService_def)
  show ?thesis
    using pgs.Link_frame [OF assms] pgs.Link_success [OF assms(1)] assms(2) unfolding c by blast
qed

text \<open>
  C11. Verification activates a wallet only when it was pending and the connected node
  reported that wallet's chain ID and answered for its address; it changes no other
  wallet, no policy and no identity of a wallet. In particular a disabled wallet stays
  disabled. A success returns the stored wallet, no longer pending.
\<close>

theorem WalletService_Verify_safe:
  assumes "db_ok s" "WalletService_Verify (pg_wallet_service U ch qu chainID defaults clock) i s = (r, t)"
  shows "db_ok t \<and> policy_at t = policy_at s \<and> (\<forall>j. wallet_at s j = None \<longrightarrow> wallet_at t j = None)
    \<and> (\<forall>j w. wallet_at s j = Some w \<longrightarrow> (\<exists>w'. wallet_at t j = Some w' \<and> (w' = w \<or>
         (wallet_at s i = Some w \<and> Wallet_Status w = WalletPending \<and> same_wallet w w'
          \<and> Wallet_Status w' = WalletActive \<and> Wallet_VerifiedAt w' \<noteq> None
          \<and> (\<exists>c s1 s2 s3 b. map_option outside_probe ch = Some c \<and> Probe_ChainID c s1 = (Inr (Wallet_ChainID w), s2)
               \<and> Probe_BalanceAt c (Wallet_Address w) None s2 = (Inr b, s3))))))
    \<and> (\<forall>v. r = Inr v \<longrightarrow> wallet_at t i = Some v \<and> Wallet_Status v \<noteq> WalletPending)"
proof -
  have c: "ws_chain (pg_wallet_service U ch qu chainID defaults clock) = map_option outside_probe ch"
    by (simp add: pg_wallet_service_def NewWalletService_def)
  show ?thesis
    using pgs.Verify_effect(1) [OF assms] pgs.Verify_effect(2) [OF assms, unfolded c] pgs.Verify_effect(3) [OF assms] by blast
qed

text \<open>
  C12. Changing a policy needs the owner and a valid policy: if the policy of any wallet
  differs afterwards, the caller owns the wallet named in the request, the new limits pass
  \<open>Validate\<close>, and the changed policy is that wallet's. No wallet changes, and a success
  returns the policy now stored, with the requested trading switch.
\<close>

theorem WalletService_UpdatePolicy_owned:
  assumes "db_ok s"
    and "WalletService_UpdatePolicy (pg_wallet_service U ch qu chainID defaults clock) u i p a s = (r, t)"
  shows "db_ok t \<and> wallet_at t = wallet_at s
    \<and> (\<forall>j. policy_at t j \<noteq> policy_at s j \<longrightarrow> (\<exists>w. wallet_at s i = Some w \<and> Wallet_UserID w = u \<and> Validate p = None
         \<and> (\<forall>v. wallet_at s j = Some v \<longrightarrow> Wallet_ID v = Wallet_ID w)
         \<and> (\<exists>q. policy_at t j = Some q \<and> Pol_TradingEnabled q = Pol_TradingEnabled p)))
    \<and> (\<forall>q. r = Inr q \<longrightarrow> policy_at t i = Some q \<and> Pol_TradingEnabled q = Pol_TradingEnabled p)"
  using pgs.UpdatePolicy_effect [OF assms] by blast

text \<open>
  Disabling needs the owner and a legal transition; it changes the named wallet's
  status and nothing else, and a success leaves the wallet disabled.
\<close>

theorem WalletService_Disable_owned:
  assumes "db_ok s" "WalletService_Disable (pg_wallet_service U ch qu chainID defaults clock) u i a s = (r, t)"
  shows "db_ok t \<and> policy_at t = policy_at s \<and> (\<forall>j. wallet_at s j = None \<longrightarrow> wallet_at t j = None)
    \<and> (\<forall>j w. wallet_at s j = Some w \<longrightarrow> (\<exists>w'. wallet_at t j = Some w' \<and> (w' = w \<or>
         (wallet_at s i = Some w \<and> Wallet_UserID w = u \<and> CanTransitionTo (Wallet_Status w) WalletDisabled
          \<and> same_wallet w w' \<and> Wallet_Status w' = WalletDisabled))))
    \<and> (r = Inr () \<longrightarrow> (\<exists>w. wallet_at t i = Some w \<and> Wallet_Status w = WalletDisabled))"
  using pgs.Disable_effect [OF assms] by blast

text \<open>
  A wallet is shown only to its owner: a successful read returns the wallet with that
  ID, owned by the caller; a wallet of someone else is an error. No read changes a wallet
  or a policy.
\<close>

theorem WalletService_Get_owned:
  assumes "WalletService_Get (pg_wallet_service U ch qu chainID defaults clock) u i s = (r, t)"
  shows "wallet_at t = wallet_at s \<and> policy_at t = policy_at s \<and> (db_ok s \<longrightarrow> db_ok t)
    \<and> (\<forall>v. r = Inr v \<longrightarrow> wallet_at s i = Some (View_Wallet v) \<and> Wallet_UserID (View_Wallet v) = u)
    \<and> (\<forall>w. wallet_at s i = Some w \<longrightarrow> Wallet_UserID w \<noteq> u \<longrightarrow> isl r)"
  using pgs.Get_effect [OF assms] by blast

section \<open>Examples\<close>

definition sample_address :: string where
  "sample_address = ''0x'' @ replicate 40 (CHR ''a'')"

definition sample_wallet_row :: "WalletStatus \<Rightarrow> wallet_row" where
  "sample_wallet_row st = \<lparr>wr_id = ''w1'', wr_user_id = ''alice'', wr_address = sample_address, wr_chain_id = 4663,
     wr_role = ''bot'', wr_status = st, wr_label = None, wr_verified_at = None, wr_created_at = 0, wr_updated_at = 0\<rparr>"

definition sample_policy_row :: policy_row where
  "sample_policy_row = \<lparr>pr_id = ''p1'', pr_wallet_id = ''w1'', pr_max_position_percent = PgFin 5,
     pr_max_open_positions = 5, pr_daily_loss_limit_percent = PgFin 10, pr_stop_loss_percent = PgFin 5,
     pr_capital_recovery_percent = PgFin 100, pr_max_slippage_bps = 100, pr_min_liquidity_usd = PgFin 10000,
     pr_trading_enabled = False, pr_created_at = 0, pr_updated_at = 0\<rparr>"

definition sample_db :: "WalletStatus \<Rightarrow> pgdb" where
  "sample_db st = (empty_db ())\<lparr>users := [\<lparr>User_ID = ''alice'', User_Status = UserActive, User_CreatedAt = 0, User_UpdatedAt = 0\<rparr>],
     wallets := [sample_wallet_row st], wallet_policies := [sample_policy_row]\<rparr>"

definition sample_probe :: "unit AddressProbe" where
  "sample_probe = \<lparr>Probe_ChainID = ok 4663, Probe_BalanceAt = (\<lambda>a n. ok (Wei (Some 0)))\<rparr>"

definition sample_service :: "pgdb WalletService" where
  "sample_service = pg_wallet_service ascii_tables (Some sample_probe) None 4663 sample_policy pg_clock"

lemma sample_db_ok: "WalletStatus_Valid st \<Longrightarrow> db_ok (sample_db st)"
proof -
  assume st: "WalletStatus_Valid st"
  have "lower_hex_re 40 sample_address" "sample_address \<noteq> zero_address" by code_simp+
  with st have w: "wallet_row_checked (sample_wallet_row st)"
    by (auto simp: wallet_row_checked_def sample_wallet_row_def WalletStatus_Valid_def go_consts)
  have p: "policy_row_checked sample_policy_row"
    by (simp add: policy_row_checked_def sample_policy_row_def pg_le_def)
  have e: "engine (sample_db st) = plain_engine" by (simp add: sample_db_def empty_db_def)
  show ?thesis unfolding db_ok_def e
    using w p by (simp add: sample_db_def empty_db_def users_ok_def wallets_ok_def wallets_unique_def
        policies_unique_def sync_ok_def sample_wallet_row_def sample_policy_row_def UserStatus_Valid_def)
qed

lemma sample_states: "db_ok (sample_db WalletPending)" "db_ok (sample_db WalletActive)" "db_ok (sample_db WalletDisabled)"
  by (simp_all add: sample_db_ok WalletStatus_Valid_def)

definition sample_request :: LinkRequest where
  "sample_request = \<lparr>Req_UserID = ''alice'', Req_Address = ''0x'' @ replicate 40 (CHR ''B''), Req_Role = ''owner'',
     Req_Label = ''main'', Req_ActorID = ''7''\<rparr>"

theorem WalletService_Link_safe_witness:
  "let (r, t) = WalletService_Link ascii_tables sample_service sample_request (sample_db WalletActive) in
   db_ok t \<and> (\<exists>v. r = Inr v \<and> wallet_at t (Wallet_ID v) = Some v \<and> Wallet_Status v = WalletPending
     \<and> (\<exists>q. policy_at t (Wallet_ID v) = Some q \<and> \<not> Pol_TradingEnabled q))"
proof -
  obtain r t where eq: "WalletService_Link ascii_tables sample_service sample_request (sample_db WalletActive) = (r, t)"
    by fastforce
  note facts = WalletService_Link_safe [OF sample_states(2) eq [unfolded sample_service_def]]
  have "\<not> isl (fst (WalletService_Link ascii_tables sample_service sample_request (sample_db WalletActive)))"
    by code_simp
  then obtain v where v: "r = Inr v" unfolding eq by (cases r) auto
  with facts have "wallet_at (sample_db WalletActive) (Wallet_ID v) = None" "wallet_at t (Wallet_ID v) = Some v" by auto
  with facts have "Wallet_Status v = WalletPending \<and> (\<exists>q. policy_at t (Wallet_ID v) = Some q \<and> \<not> Pol_TradingEnabled q)"
    by blast
  with v facts eq show ?thesis by simp
qed

theorem WalletService_Verify_safe_witness:
  "let (r, t) = WalletService_Verify sample_service ''w1'' (sample_db WalletPending) in
   db_ok t \<and> (\<exists>v. r = Inr v \<and> wallet_at t ''w1'' = Some v \<and> Wallet_Status v = WalletActive)"
proof -
  obtain r t where eq: "WalletService_Verify sample_service ''w1'' (sample_db WalletPending) = (r, t)" by fastforce
  note facts = WalletService_Verify_safe [OF sample_states(1) eq [unfolded sample_service_def]]
  have "\<not> isl (fst (WalletService_Verify sample_service ''w1'' (sample_db WalletPending)))" by code_simp
  then obtain v where v: "r = Inr v" unfolding eq by (cases r) auto
  moreover obtain w where w: "wallet_at (sample_db WalletPending) ''w1'' = Some w" "Wallet_Status w = WalletPending"
    by (simp add: wallet_at_def find_wallet_def sample_db_def empty_db_def plain_engine_def sample_wallet_row_def)
  moreover have "wallet_at t ''w1'' = Some v" "Wallet_Status v \<noteq> WalletPending" using facts v by auto
  ultimately have "Wallet_Status v = WalletActive" using facts by (metis option.inject)
  with v facts eq show ?thesis by simp
qed

theorem WalletService_UpdatePolicy_owned_witness:
  "let (r, t) = WalletService_UpdatePolicy sample_service ''alice'' ''w1'' (sample_policy\<lparr>Pol_TradingEnabled := True\<rparr>) ''7''
                  (sample_db WalletActive) in
   db_ok t \<and> (\<exists>q. r = Inr q \<and> policy_at t ''w1'' = Some q \<and> Pol_TradingEnabled q)"
proof -
  let ?run = "WalletService_UpdatePolicy sample_service ''alice'' ''w1'' (sample_policy\<lparr>Pol_TradingEnabled := True\<rparr>) ''7''
    (sample_db WalletActive)"
  obtain r t where eq: "?run = (r, t)" by fastforce
  note facts = WalletService_UpdatePolicy_owned [OF sample_states(2) eq [unfolded sample_service_def]]
  have "\<not> isl (fst ?run)" by code_simp
  then obtain q where "r = Inr q" unfolding eq by (cases r) auto
  with facts eq show ?thesis by simp
qed

theorem WalletService_Disable_owned_witness:
  "let (r, t) = WalletService_Disable sample_service ''alice'' ''w1'' ''7'' (sample_db WalletActive) in
   db_ok t \<and> r = Inr () \<and> (\<exists>w. wallet_at t ''w1'' = Some w \<and> Wallet_Status w = WalletDisabled)"
proof -
  obtain r t where eq: "WalletService_Disable sample_service ''alice'' ''w1'' ''7'' (sample_db WalletActive) = (r, t)"
    by fastforce
  note facts = WalletService_Disable_owned [OF sample_states(2) eq [unfolded sample_service_def]]
  have "fst (WalletService_Disable sample_service ''alice'' ''w1'' ''7'' (sample_db WalletActive)) = Inr ()" by code_simp
  with facts eq show ?thesis by simp
qed

theorem WalletService_Get_owned_witness:
  "let (r, t) = WalletService_Get sample_service ''mallory'' ''w1'' (sample_db WalletActive) in isl r \<and> db_ok t"
proof -
  obtain r t where eq: "WalletService_Get sample_service ''mallory'' ''w1'' (sample_db WalletActive) = (r, t)" by fastforce
  note facts = WalletService_Get_owned [OF eq [unfolded sample_service_def]]
  have "\<exists>w. wallet_at (sample_db WalletActive) ''w1'' = Some w \<and> Wallet_UserID w = ''alice''"
    by (simp add: wallet_at_def find_wallet_def sample_db_def empty_db_def plain_engine_def sample_wallet_row_def)
  then have "isl r" using facts by auto
  with facts eq sample_states(2) show ?thesis by simp
qed

text \<open>
  Verifying a wallet that an operator has disabled leaves it disabled, as intended,
  but the call succeeds and the audit trail records \<open>wallet:verified\<close> with outcome ok: the
  caller of \<open>MarkVerified\<close> cannot tell that no row was updated.
\<close>

theorem Verify_reports_disabled_as_verified:
  "let (r, t) = WalletService_Verify sample_service ''w1'' (sample_db WalletDisabled) in
   map_sum (\<lambda>_. ()) Wallet_Status r = Inr WalletDisabled
   \<and> map (\<lambda>e. (ar_action e, ar_outcome e)) (audit_logs t) = [(ActionWalletVerified, OutcomeOK)]"
  by code_simp

text \<open>
  A policy whose recovery threshold is NaN passes the checks of the use case, of the
  repository and of the database (for \<open>numeric\<close>, NaN is larger than every number), is stored
  with trading enabled, and leaves no audit event: the event carries the NaN and cannot be
  marshalled to JSON.
\<close>

theorem NaN_policy_stored_unaudited:
  "let (r, t) = WalletService_UpdatePolicy sample_service ''alice'' ''w1''
         (sample_policy\<lparr>Pol_CapitalRecoveryPercent := NaN, Pol_TradingEnabled := True\<rparr>) ''7'' (sample_db WalletActive) in
   map_option Pol_CapitalRecoveryPercent (policy_at t ''w1'') = Some NaN
   \<and> map_option Pol_TradingEnabled (policy_at t ''w1'') = Some True \<and> \<not> isl r \<and> audit_logs t = []"
  by code_simp

end
