(* ===== verification/Onboarding.thy ===== *)
theory Onboarding
  imports WalletService
begin

text \<open>
  \<open>internal/application/onboarding.go\<close>: the one place where authorization is decided. The
  allowlist is checked before anything is written, an account is created on first contact,
  and a suspended account is refused. The locale \<open>onboarding\<close> extends the contract of the
  user store by the audit store being a bystander; it is interpreted on PostgreSQL.
\<close>

record 's Onboarding =
  ob_users :: "'s UserStore"
  ob_audit :: "'s AuditStore option"
  ob_allowlist :: Allowlist
  ob_clock :: "'s \<Rightarrow> time"

definition NewOnboarding :: "'s UserStore \<Rightarrow> 's AuditStore option \<Rightarrow> Allowlist \<Rightarrow> ('s \<Rightarrow> time) \<Rightarrow> 's Onboarding" where
  "NewOnboarding store au allowlist clock =
     \<lparr>ob_users = store, ob_audit = au, ob_allowlist = allowlist, ob_clock = clock\<rparr>"

record Identity =
  Id_User :: User
  Id_Telegram :: TelegramUser
  Id_FirstContact :: bool

definition telegramActorID :: "TelegramUserID \<Rightarrow> string" where
  "telegramActorID i = ''telegram:'' @ dec_int (sint i)"

definition Onboarding_recordAudit :: "'s Onboarding \<Rightarrow> (time \<Rightarrow> AuditEvent) \<Rightarrow> 's \<Rightarrow> 's" where
  "Onboarding_recordAudit ob ev s =
     (case ob_audit ob of None \<Rightarrow> s | Some a \<Rightarrow> snd (Audit_Record a (ev (ob_clock ob s)) s))"

definition Authorize :: "'s Onboarding \<Rightarrow> TelegramUser \<Rightarrow> ('s, Identity) op" where
  "Authorize ob tu =
     (let event = (\<lambda>action now. NewAuditEvent now ActorTelegramUser (telegramActorID (TU_TelegramID tu)) action) in
      if \<not> TelegramUserID_Valid (TU_TelegramID tu) then throw (Sentinel ErrUnauthorized)
      else if \<not> Allows (ob_allowlist ob) (TU_TelegramID tu) then
        after (Onboarding_recordAudit ob (\<lambda>now. WithDetail ''reason'' (DString ''not in allowlist'')
                 (WithOutcome OutcomeRejected (event ActionTelegramUnauthorized now))))
          (throw (Sentinel ErrUnauthorized))
      else attempt (EnsureTelegramUser (ob_users ob) tu) (\<lambda>err. throw (Wrap ''ensure telegram user: '' err []))
        (\<lambda>(user, stored, created).
           if User_Status user \<noteq> UserActive then
             after (Onboarding_recordAudit ob (\<lambda>now. WithDetail ''reason'' (DString (''account '' @ User_Status user))
                      (WithOutcome OutcomeRejected (WithSubject ''user'' (User_ID user)
                      (event ActionTelegramUnauthorized now)))))
               (throw (Sentinel ErrUnauthorized))
           else
             after (\<lambda>s. if created then Onboarding_recordAudit ob (\<lambda>now. WithSubject ''user'' (User_ID user)
                           (event ActionUserOnboarded now)) s else s)
               (ok \<lparr>Id_User = user, Id_Telegram = stored, Id_FirstContact = created\<rparr>)))"

definition RecordCommand :: "'s Onboarding \<Rightarrow> TelegramUserID \<Rightarrow> string \<Rightarrow> string \<Rightarrow> 's \<Rightarrow> 's" where
  "RecordCommand ob i command outcome = Onboarding_recordAudit ob (\<lambda>now.
     WithDetail ''command'' (DString command) (WithOutcome outcome
       (NewAuditEvent now ActorTelegramUser (telegramActorID i) ActionTelegramCommand)))"

definition RecordRateLimited :: "'s Onboarding \<Rightarrow> TelegramUserID \<Rightarrow> string \<Rightarrow> 's \<Rightarrow> 's" where
  "RecordRateLimited ob i command = Onboarding_recordAudit ob (\<lambda>now.
     WithDetail ''command'' (DString command) (WithOutcome OutcomeRejected
       (NewAuditEvent now ActorTelegramUser (telegramActorID i) ActionTelegramRateLimited)))"

definition AllowlistEmpty :: "'s Onboarding \<Rightarrow> bool" where
  "AllowlistEmpty ob = Allowlist_Empty (ob_allowlist ob)"

section \<open>Authorization\<close>

locale onboarding = user_store "ob_users ob" inv account_of
  for ob :: "'s Onboarding" and inv account_of +
  assumes audit_bystander: "bystander_audit inv account_of (ob_audit ob)"
begin

lemma recordAudit_frame:
  "account_of (Onboarding_recordAudit ob ev s) = account_of s" "inv s \<Longrightarrow> inv (Onboarding_recordAudit ob ev s)"
  using audit_bystander
  by (auto simp: Onboarding_recordAudit_def bystander_audit_def frames_def keeps_def split: option.splits)

lemma Authorize_cases:
  assumes "Authorize ob tu s = (r, t)"
  obtains (refused) "r = Inl (Sentinel ErrUnauthorized)" "account_of t = account_of s" "inv s \<Longrightarrow> inv t"
      "\<not> TelegramUserID_Valid (TU_TelegramID tu) \<or> \<not> Allows (ob_allowlist ob) (TU_TelegramID tu)"
    | (failed) e where "Allows (ob_allowlist ob) (TU_TelegramID tu)"
      "EnsureTelegramUser (ob_users ob) tu s = (Inl e, t)" "r = Inl (Wrap ''ensure telegram user: '' e [])"
    | (known) u tg c s1 where "Allows (ob_allowlist ob) (TU_TelegramID tu)"
      "EnsureTelegramUser (ob_users ob) tu s = (Inr (u, tg, c), s1)" "account_of t = account_of s1" "inv s1 \<Longrightarrow> inv t"
      "r = (if User_Status u = UserActive then Inr \<lparr>Id_User = u, Id_Telegram = tg, Id_FirstContact = c\<rparr>
            else Inl (Sentinel ErrUnauthorized))"
proof -
  consider "\<not> TelegramUserID_Valid (TU_TelegramID tu)"
    | "TelegramUserID_Valid (TU_TelegramID tu)" "\<not> Allows (ob_allowlist ob) (TU_TelegramID tu)"
    | "TelegramUserID_Valid (TU_TelegramID tu)" "Allows (ob_allowlist ob) (TU_TelegramID tu)" by blast
  then show thesis
  proof cases
    case 1
    with assms refused show thesis by (simp add: Authorize_def)
  next
    case 2
    with assms refused recordAudit_frame show thesis by (auto simp: Authorize_def after_def)
  next
    case 3
    obtain q s1 where q: "EnsureTelegramUser (ob_users ob) tu s = (q, s1)" by fastforce
    show thesis
    proof (cases q)
      case (Inl e)
      with 3 q assms failed show thesis by (simp add: Authorize_def)
    next
      case (Inr x)
      then obtain u tg c where "q = Inr (u, tg, c)" by (cases x) auto
      with 3 q assms known [of u tg c s1] recordAudit_frame show thesis
        by (cases c) (auto simp: Authorize_def after_def split: if_splits)
    qed
  qed
qed

lemma Authorize_inv:
  assumes "inv s" "Authorize ob tu s = (r, t)"
  shows "inv t"
  using assms(2) by (cases rule: Authorize_cases) (use assms(1) keepsD [OF inv_ensure] in auto)

lemma Authorize_success:
  assumes "inv s" "Authorize ob tu s = (Inr idn, t)"
  shows "Allows (ob_allowlist ob) (TU_TelegramID tu) \<and> account_of t (TU_TelegramID tu) = Some (Id_User idn)
    \<and> User_Status (Id_User idn) = UserActive \<and> TU_TelegramID (Id_Telegram idn) = TU_TelegramID tu
    \<and> TU_UserID (Id_Telegram idn) = User_ID (Id_User idn)
    \<and> (Id_FirstContact idn \<longleftrightarrow> account_of s (TU_TelegramID tu) = None)"
  using assms(2)
proof (cases rule: Authorize_cases)
  case (known u tg c s1)
  with ensure_value [OF assms(1) known(2)] show ?thesis by (auto split: if_splits)
qed auto

lemma Authorize_accounts:
  assumes "inv s" "Authorize ob tu s = (r, t)"
  shows "account_of s i = Some u \<Longrightarrow> account_of t i = Some u"
    and "account_of t i \<noteq> account_of s i \<Longrightarrow> i = TU_TelegramID tu \<and> Allows (ob_allowlist ob) i"
proof -
  from assms(2) show "account_of t i = Some u" if "account_of s i = Some u"
    by (cases rule: Authorize_cases) (use that ensure_old [OF assms(1), of tu] in auto)
  from assms(2) show "i = TU_TelegramID tu \<and> Allows (ob_allowlist ob) i" if "account_of t i \<noteq> account_of s i"
    by (cases rule: Authorize_cases) (use that ensure_other [OF assms(1), of tu _ _ i] in auto)
qed

end

section \<open>On PostgreSQL\<close>

definition pg_onboarding :: "Allowlist \<Rightarrow> ('z pgdb_scheme \<Rightarrow> time) \<Rightarrow> 'z pgdb_scheme Onboarding" where
  "pg_onboarding allowlist clock = NewOnboarding UserRepo (Some AuditRepo) allowlist clock"

lemma frames_Record_account: "frames db_ok account_of (AuditRepo_Record e)"
proof -
  have "appended s (snd (AuditRepo_Record e s))" for s by (metis Record_appended prod.collapse)
  then show ?thesis using appended_at keeps_Record by (auto simp: frames_def)
qed

interpretation pgo: onboarding "pg_onboarding allowlist clock" db_ok account_of for allowlist clock
  using pgu.user_store_axioms
  by (auto simp: onboarding_def onboarding_axioms_def pg_onboarding_def NewOnboarding_def bystander_audit_def
      AuditRepo_def frames_Record_account)

lemma pg_onboarding_allowlist [simp]: "ob_allowlist (pg_onboarding allowlist clock) = allowlist"
  by (simp add: pg_onboarding_def NewOnboarding_def)

lemma pg_Authorize_refused:
  assumes "Authorize (pg_onboarding allowlist clock) tu s = (r, t)" "\<not> Allows allowlist (TU_TelegramID tu)"
  shows "r = Inl (Sentinel ErrUnauthorized) \<and> appended s t"
proof -
  have "appended s (Onboarding_recordAudit (pg_onboarding allowlist clock) ev s)" for ev
    by (auto simp: Onboarding_recordAudit_def pg_onboarding_def NewOnboarding_def AuditRepo_def
        intro: Record_appended [OF prod.collapse [symmetric]])
  with assms show ?thesis
    by (cases "TelegramUserID_Valid (TU_TelegramID tu)") (auto simp: Authorize_def after_def appended_same)
qed

text \<open>
  C13. Authorization succeeds only for a Telegram ID on the allowlist whose account is
  active, and gives back the account linked to that ID. A caller who is not on the list is
  refused with at most an audit row written: no account and no identity. No existing
  account is ever relinked, and the only new link is the caller's own.
\<close>

theorem Authorize_only_allowlisted:
  assumes "db_ok s" "Authorize (pg_onboarding allowlist clock) tu s = (r, t)"
  shows "db_ok t
    \<and> (\<forall>idn. r = Inr idn \<longrightarrow> Allows allowlist (TU_TelegramID tu)
         \<and> account_of t (TU_TelegramID tu) = Some (Id_User idn) \<and> User_Status (Id_User idn) = UserActive
         \<and> (Id_FirstContact idn \<longleftrightarrow> account_of s (TU_TelegramID tu) = None))
    \<and> (\<not> Allows allowlist (TU_TelegramID tu) \<longrightarrow> r = Inl (Sentinel ErrUnauthorized) \<and> appended s t)
    \<and> (\<forall>i u. account_of s i = Some u \<longrightarrow> account_of t i = Some u)
    \<and> (\<forall>i. account_of t i \<noteq> account_of s i \<longrightarrow> i = TU_TelegramID tu \<and> Allows allowlist i)"
  using pgo.Authorize_inv [OF assms] pgo.Authorize_success [OF assms(1)] assms(2)
    pg_Authorize_refused [OF assms(2)] pgo.Authorize_accounts [OF assms]
  by (simp only: pg_onboarding_allowlist) blast

definition sample_telegram_user :: "TelegramUserID \<Rightarrow> TelegramUser" where
  "sample_telegram_user i = \<lparr>TU_TelegramID = i, TU_UserID = [], TU_Username = ''bob'', TU_FirstName = [],
     TU_LastName = [], TU_LanguageCode = ''en'', TU_ChatID = i, TU_CreatedAt = 0, TU_UpdatedAt = 0, TU_LastSeenAt = 0\<rparr>"

theorem Authorize_only_allowlisted_witness:
  "let s = empty_db (); ob = pg_onboarding (NewAllowlist [7]) pg_clock in
   (\<exists>idn t. Authorize ob (sample_telegram_user 7) s = (Inr idn, t) \<and> account_of t 7 = Some (Id_User idn))
   \<and> (\<exists>t. Authorize ob (sample_telegram_user 8) s = (Inl (Sentinel ErrUnauthorized), t) \<and> appended s t)"
proof -
  let ?ob = "pg_onboarding (NewAllowlist [7]) pg_clock :: pgdb Onboarding"
  obtain r t where 7: "Authorize ?ob (sample_telegram_user 7) (empty_db ()) = (r, t)" by fastforce
  obtain r' t' where 8: "Authorize ?ob (sample_telegram_user 8) (empty_db ()) = (r', t')" by fastforce
  have "\<not> isl (fst (Authorize ?ob (sample_telegram_user 7) (empty_db ())))" by code_simp
  then obtain idn where "r = Inr idn" unfolding 7 by (cases r) auto
  with Authorize_only_allowlisted [OF empty_db_ok 7] have "r = Inr idn" "account_of t 7 = Some (Id_User idn)"
    by (simp_all add: sample_telegram_user_def)
  moreover have "\<not> Allows (NewAllowlist [7]) 8" by code_simp
  with Authorize_only_allowlisted [OF empty_db_ok 8] have "r' = Inl (Sentinel ErrUnauthorized)" "appended (empty_db ()) t'"
    by (simp_all add: sample_telegram_user_def)
  ultimately show ?thesis using 7 8 by auto
qed

end
