(* ===== verification/RedisGuard.thy ===== *)
theory RedisGuard
  imports GoStrings
begin

text \<open>
  \<open>internal/persistence/redis/guard.go\<close>: the replay guard and the fixed-window rate
  limiter. The Redis client is a parameter (a record of the two commands the source sends);
  what is documented of those commands is stated as the predicates \<open>setnx_documented\<close> and
  \<open>incr_documented\<close> over the keys of the server.
\<close>

section \<open>The client\<close>

text \<open>\<open>INCR\<close> and \<open>EXPIRE\<close> are sent as one transaction; the value is the counter's.\<close>

record 's redis =
  SetNX :: "string \<Rightarrow> string \<Rightarrow> duration \<Rightarrow> ('s, bool) op"
  IncrExpire :: "string \<Rightarrow> duration \<Rightarrow> ('s, int) op"

section \<open>The guard\<close>

record 's ReplayGuard =
  guard_client :: "'s redis"
  guard_prefix :: string

definition NewReplayGuard :: "'s redis \<Rightarrow> string \<Rightarrow> 's ReplayGuard" where
  "NewReplayGuard client prefix = \<lparr>guard_client = client,
     guard_prefix = (if prefix = [] then ''replay'' else prefix)\<rparr>"

definition guard_key :: "'s ReplayGuard \<Rightarrow> string \<Rightarrow> string" where
  "guard_key g hash = guard_prefix g @ '':initdata:'' @ hash"

definition FirstUse :: "'s ReplayGuard \<Rightarrow> string \<Rightarrow> duration \<Rightarrow> ('s, bool) op" where
  "FirstUse g hash ttl = attempt (SetNX (guard_client g) (guard_key g hash) ''1'' ttl)
     (\<lambda>err. throw (Wrap ''replay guard unavailable: '' err [])) ok"

lemma guard_key_inj [simp]: "guard_key g h = guard_key g h' \<longleftrightarrow> h = h'"
  by (simp add: guard_key_def)

section \<open>The limiter\<close>

record 's RateLimiter =
  limiter_client :: "'s redis"
  limiter_prefix :: string

definition NewRateLimiter :: "'s redis \<Rightarrow> string \<Rightarrow> 's RateLimiter" where
  "NewRateLimiter client prefix = \<lparr>limiter_client = client,
     limiter_prefix = (if prefix = [] then ''ratelimit'' else prefix)\<rparr>"

text \<open>\<open>Time.Truncate\<close> rounds down to a multiple of the window since the zero time.\<close>

definition Truncate :: "time \<Rightarrow> duration \<Rightarrow> time" where
  "Truncate t d = (if d \<le> 0 then t else t - t mod d)"

definition Unix :: "time \<Rightarrow> int" where
  "Unix t = t div second - 62135596800"

definition window_key :: "'s RateLimiter \<Rightarrow> string \<Rightarrow> duration \<Rightarrow> time \<Rightarrow> string" where
  "window_key r identity window now =
     limiter_prefix r @ '':'' @ identity @ '':'' @ dec_int (Unix (Truncate now window))"

text \<open>
  The three results: allowed, remaining, error. On an error of the server the caller is
  allowed. The first argument is \<open>time.Now\<close>.
\<close>

definition Allow :: "('s \<Rightarrow> time) \<Rightarrow> 's RateLimiter \<Rightarrow> string \<Rightarrow> int \<Rightarrow> duration \<Rightarrow> 's \<Rightarrow> (bool \<times> int \<times> error option) \<times> 's" where
  "Allow clock r identity limit window s =
     (if limit \<le> 0 then ((False, 0, None), s)
      else case IncrExpire (limiter_client r) (window_key r identity window (clock s)) window s of
        (Inl err, s') \<Rightarrow> ((True, 0, Some (Wrap ''rate limiter unavailable: '' err [])), s')
      | (Inr count, s') \<Rightarrow>
          (let remaining = limit - count; remaining = (if remaining < 0 then 0 else remaining)
           in ((count \<le> limit, remaining, None), s')))"

section \<open>Documented behaviour of the commands\<close>

text \<open>
  \<open>deadline s k\<close> is the time at which the key expires, if it is set. A command runs on
  the server at some instant between the call and the return. \<open>SET NX\<close> succeeds exactly
  when the key is absent at that instant, and then sets it with its time to live.
\<close>

definition setnx_documented :: "'s redis \<Rightarrow> ('s \<Rightarrow> time) \<Rightarrow> ('s \<Rightarrow> string \<Rightarrow> time option) \<Rightarrow> bool" where
  "setnx_documented C clock deadline \<longleftrightarrow> (\<forall>k v d s b t. SetNX C k v d s = (Inr b, t) \<longrightarrow>
     (\<exists>x. clock s \<le> x \<and> x \<le> clock t
        \<and> (b \<longleftrightarrow> (\<forall>T. deadline s k = Some T \<longrightarrow> T \<le> x))
        \<and> (b \<longrightarrow> deadline t k = Some (x + d))))"

text \<open>
  \<open>INCR\<close> adds one to the counter of the key (0 when absent) and returns it; it touches no
  other key.
\<close>

definition incr_documented :: "'s redis \<Rightarrow> ('s \<Rightarrow> string \<Rightarrow> int) \<Rightarrow> bool" where
  "incr_documented C counter \<longleftrightarrow> (\<forall>k d s n t. IncrExpire C k d s = (Inr n, t) \<longrightarrow>
     n = counter s k + 1 \<and> counter t k = n \<and> (\<forall>j. j \<noteq> k \<longrightarrow> counter t j = counter s j))"

text \<open>A server that answers at once, for examples.\<close>

record keyspace =
  ks_clock :: time
  ks_deadlines :: "(string \<times> time) list"
  ks_counters :: "(string \<times> int) list"

definition simple_redis :: "keyspace redis" where
  "simple_redis =
     \<lparr>SetNX = (\<lambda>k v d s. case map_of (ks_deadlines s) k of
         Some T \<Rightarrow> if ks_clock s < T then (Inr False, s)
                   else (Inr True, s\<lparr>ks_deadlines := (k, ks_clock s + d) # ks_deadlines s\<rparr>)
       | None \<Rightarrow> (Inr True, s\<lparr>ks_deadlines := (k, ks_clock s + d) # ks_deadlines s\<rparr>)),
      IncrExpire = (\<lambda>k d s.
         let n = (case map_of (ks_counters s) k of None \<Rightarrow> 1 | Some m \<Rightarrow> m + 1)
         in (Inr n, s\<lparr>ks_counters := (k, n) # ks_counters s\<rparr>))\<rparr>"

definition ks_counter :: "keyspace \<Rightarrow> string \<Rightarrow> int" where
  "ks_counter s k = (case map_of (ks_counters s) k of None \<Rightarrow> 0 | Some n \<Rightarrow> n)"

lemma simple_redis_setnx: "setnx_documented simple_redis ks_clock (\<lambda>s. map_of (ks_deadlines s))"
  by (auto simp: setnx_documented_def simple_redis_def split: option.splits if_splits)

lemma simple_redis_incr: "incr_documented simple_redis ks_counter"
  by (auto simp: incr_documented_def simple_redis_def ks_counter_def Let_def split: option.splits)

section \<open>The limiter counts\<close>

text \<open>A run of calls for one identity that all fall into one window.\<close>

fun allow_run :: "('s \<Rightarrow> time) \<Rightarrow> 's RateLimiter \<Rightarrow> string \<Rightarrow> int \<Rightarrow> duration \<Rightarrow> nat \<Rightarrow> 's \<Rightarrow> (bool \<times> int \<times> error option) list" where
  "allow_run clock r i limit window 0 s = []"
| "allow_run clock r i limit window (Suc n) s =
     (case Allow clock r i limit window s of (x, s') \<Rightarrow> x # allow_run clock r i limit window n s')"

lemma allow_run_counts:
  assumes doc: "incr_documented (limiter_client r) counter" and lim: "0 < limit"
    and up: "\<And>k d s. \<exists>c t. IncrExpire (limiter_client r) k d s = (Inr c, t)"
    and win: "\<And>s. window_key r i window (clock s) = key"
    and i: "j < n"
  shows "allow_run clock r i limit window n s ! j
    = (counter s key + int j < limit, max 0 (limit - (counter s key + int j + 1)), None)"
  using i
proof (induction n arbitrary: s j)
  case (Suc n)
  obtain c t where c: "IncrExpire (limiter_client r) key window s = (Inr c, t)" using up by blast
  from doc have step: "c = counter s key + 1" "counter t key = c" using c unfolding incr_documented_def by blast+
  have allow: "Allow clock r i limit window s = ((c \<le> limit, max 0 (limit - c), None), t)"
    using lim c win by (simp add: Allow_def)
  show ?case
  proof (cases j)
    case 0
    then show ?thesis using allow step by auto
  next
    case (Suc j')
    with Suc.prems Suc.IH [of j' t] allow step show ?thesis by (auto simp: algebra_simps)
  qed
qed simp

text \<open>
  C30. In one window, an identity is allowed exactly its first \<open>limit\<close> calls (counting from
  what the window's counter holds already) and told how many remain, for a server that
  counts as documented and answers; and a limit of zero allows nothing.
\<close>

theorem Allow_fixed_window:
  assumes "incr_documented (limiter_client r) counter" "0 < limit"
    and "\<And>k d s. \<exists>c t. IncrExpire (limiter_client r) k d s = (Inr c, t)"
    and "\<And>s. window_key r i window (clock s) = key" "j < n"
  shows "allow_run clock r i limit window n s ! j
      = (counter s key + int j < limit, max 0 (limit - (counter s key + int j + 1)), None)
    \<and> (\<forall>s. Allow clock r i 0 window s = ((False, 0, None), s))"
  using allow_run_counts [OF assms] by (simp add: Allow_def)

definition sample_keys :: keyspace where
  "sample_keys = \<lparr>ks_clock = 63000000000000000000, ks_deadlines = [], ks_counters = []\<rparr>"

theorem Allow_fixed_window_witness:
  "allow_run (\<lambda>_. ks_clock sample_keys) (NewRateLimiter simple_redis []) ''telegram:7'' 2 minute 3 sample_keys ! 2
   = (False, 0, None)"
proof -
  let ?r = "NewRateLimiter simple_redis []"
  have c: "limiter_client ?r = simple_redis" by (simp add: NewRateLimiter_def)
  have up: "\<exists>c t. IncrExpire (limiter_client ?r) k d s = (Inr c, t)" for k d s
    unfolding c by (simp add: simple_redis_def Let_def)
  have "allow_run (\<lambda>_. ks_clock sample_keys) ?r ''telegram:7'' 2 minute 3 sample_keys ! 2
     = (ks_counter sample_keys (window_key ?r ''telegram:7'' minute (ks_clock sample_keys)) + int 2 < 2,
        max 0 (2 - (ks_counter sample_keys (window_key ?r ''telegram:7'' minute (ks_clock sample_keys)) + int 2 + 1)), None)"
    using Allow_fixed_window [of ?r ks_counter 2 "''telegram:7''" minute "\<lambda>_. ks_clock sample_keys" _ 2 3, OF _ _ up refl]
    by (simp add: c simple_redis_incr)
  then show ?thesis by (simp add: ks_counter_def sample_keys_def)
qed

end
