(* ===== verification/InitData.thy ===== *)
theory InitData
  imports RedisGuard
begin

text \<open>
  \<open>internal/telegram/initdata\<close>: the verification of the signed query string a Mini App
  sends. Query parsing, the data-check string, hexadecimal decoding, the timestamp checks and
  their order are modelled; HMAC-SHA256, Ed25519, base64 and the JSON decoding of the user
  object are parameters.
\<close>

section \<open>Query strings\<close>

text \<open>\<open>strings.Cut\<close> at the first occurrence of a byte.\<close>

definition cut :: "char \<Rightarrow> string \<Rightarrow> string \<times> string" where
  "cut c s = (takeWhile (\<lambda>x. x \<noteq> c) s, drop 1 (dropWhile (\<lambda>x. x \<noteq> c) s))"

text \<open>\<open>url.QueryUnescape\<close>; the error carries at most three bytes from the bad escape on.\<close>

fun unescape :: "string \<Rightarrow> string + string" where
  "unescape [] = Inr []"
| "unescape (c # s) =
     (if c = CHR ''%'' then
        (case s of a # b # s' \<Rightarrow>
           (case (hex_val a, hex_val b) of
              (Some x, Some y) \<Rightarrow> map_sum (\<lambda>e. e) (\<lambda>t. char_of (16 * x + y) # t) (unescape s')
            | _ \<Rightarrow> Inl (take 3 (c # s)))
         | _ \<Rightarrow> Inl (take 3 (c # s)))
      else map_sum (\<lambda>e. e) (\<lambda>t. (if c = CHR ''+'' then CHR '' '' else c) # t) (unescape s))"

definition QueryUnescape :: "unicode \<Rightarrow> string \<Rightarrow> error + string" where
  "QueryUnescape U s = (case unescape s of
       Inl e \<Rightarrow> Inl (New (''invalid URL escape '' @ Quote U e)) | Inr t \<Rightarrow> Inr t)"

type_synonym Values = "(string \<times> string) list"

text \<open>
  \<open>url.ParseQuery\<close>: the pairs in the order of the query, and the error to report. A bad
  pair is dropped; a semicolon error replaces an earlier one, an escape error does not.
\<close>

fun parse_pairs :: "unicode \<Rightarrow> string list \<Rightarrow> Values \<Rightarrow> error option \<Rightarrow> Values \<times> error option" where
  "parse_pairs U [] m err = (m, err)"
| "parse_pairs U (p # ps) m err =
     (if CHR '';'' \<in> set p then parse_pairs U ps m (Some (New ''invalid semicolon separator in query''))
      else if p = [] then parse_pairs U ps m err
      else case cut (CHR ''='') p of (k, v) \<Rightarrow>
        (case QueryUnescape U k of
           Inl e \<Rightarrow> parse_pairs U ps m (if err = None then Some e else err)
         | Inr k' \<Rightarrow> (case QueryUnescape U v of
             Inl e \<Rightarrow> parse_pairs U ps m (if err = None then Some e else err)
           | Inr v' \<Rightarrow> parse_pairs U ps (m @ [(k', v')]) err)))"

definition ParseQuery :: "unicode \<Rightarrow> string \<Rightarrow> error + Values" where
  "ParseQuery U raw = (case parse_pairs U (split_on (CHR ''&'') raw) [] None of
       (m, None) \<Rightarrow> Inr m | (m, Some e) \<Rightarrow> Inl e)"

text \<open>\<open>Values.Get\<close>: the first value of the key, or the empty string.\<close>

definition values_Get :: "Values \<Rightarrow> string \<Rightarrow> string" where
  "values_Get m k = (case map_of m k of None \<Rightarrow> [] | Some v \<Rightarrow> v)"

section \<open>The data-check string\<close>

definition check_keys :: "Values \<Rightarrow> string list" where
  "check_keys m = sort (filter (\<lambda>k. \<not> (k = ''hash'' \<or> k = ''signature'')) (remdups (map fst m)))"

fun write_fields :: "Values \<Rightarrow> bool \<Rightarrow> string list \<Rightarrow> string" where
  "write_fields m started [] = []"
| "write_fields m started (k # ks) =
     (if started then [CHR 0x0A] else []) @ k @ ''='' @ values_Get m k @ write_fields m True ks"

definition data_check_string :: "Values \<Rightarrow> string" where
  "data_check_string m = write_fields m False (check_keys m)"

section \<open>Verification\<close>

record TgUser =
  Tg_ID :: i64
  Tg_IsBot :: bool
  Tg_FirstName :: string
  Tg_LastName :: string
  Tg_Username :: string
  Tg_LanguageCode :: string
  Tg_IsPremium :: bool
  Tg_PhotoURL :: string

record Data =
  Data_User :: TgUser
  Data_AuthDate :: time
  Data_QueryID :: string
  Data_ChatType :: string
  Data_ChatID :: i64
  Data_StartParam :: string
  Data_Hash :: string

text \<open>
  The primitives: HMAC-SHA256 of key and data, \<open>ed25519.Verify\<close> of key, message and
  signature, the two base64 decoders, and \<open>json.Unmarshal\<close> into a user.
\<close>

record primitives =
  hmac_sha256 :: "string \<Rightarrow> string \<Rightarrow> string"
  ed25519_Verify :: "string \<Rightarrow> string \<Rightarrow> string \<Rightarrow> bool"
  RawURLEncoding :: "string \<Rightarrow> string option"
  URLEncoding :: "string \<Rightarrow> string option"
  json_user :: "string \<Rightarrow> TgUser option"

record 's Verifier =
  vf_secretKey :: string
  vf_ttl :: duration
  vf_guard :: "'s ReplayGuard option"
  vf_now :: "'s \<Rightarrow> time"
  vf_clockSkew :: duration

record 's Options =
  Opt_BotToken :: string
  Opt_TTL :: duration
  Opt_Guard :: "'s ReplayGuard option"
  Opt_Now :: "('s \<Rightarrow> time) option"
  Opt_ClockSkew :: duration

definition NewVerifier :: "primitives \<Rightarrow> ('s \<Rightarrow> time) \<Rightarrow> 's Options \<Rightarrow> error + 's Verifier" where
  "NewVerifier P clock opts =
     (if Opt_BotToken opts = [] then Inl (New ''bot token is required to verify init data'')
      else Inr \<lparr>vf_secretKey = hmac_sha256 P ''WebAppData'' (Opt_BotToken opts),
                vf_ttl = (if Opt_TTL opts \<le> 0 then 24 * hour else Opt_TTL opts),
                vf_guard = Opt_Guard opts,
                vf_now = (case Opt_Now opts of None \<Rightarrow> clock | Some f \<Rightarrow> f),
                vf_clockSkew = (if Opt_ClockSkew opts \<le> 0 then minute else Opt_ClockSkew opts)\<rparr>)"

definition malformed :: "string \<Rightarrow> error" where
  "malformed m = Wrap [] (Sentinel ErrMalformed) ('': '' @ m)"

text \<open>Everything up to the replay check, which is the only part that changes the state.\<close>

definition verify_payload :: "unicode \<Rightarrow> primitives \<Rightarrow> string \<Rightarrow> duration \<Rightarrow> duration \<Rightarrow> time \<Rightarrow> string \<Rightarrow> error + Data" where
  "verify_payload U P secretKey ttl clockSkew now raw =
     (if TrimSpace raw = [] then Inl (Sentinel ErrMalformed)
      else case ParseQuery U raw of Inl err \<Rightarrow> Inl (malformed (Error err)) | Inr values \<Rightarrow>
      (let providedHash = values_Get values ''hash'' in
      if providedHash = [] then Inl (Sentinel ErrMissingHash)
      else let expected = hmac_sha256 P secretKey (data_check_string values) in
      case hex_DecodeString providedHash of None \<Rightarrow> Inl (Sentinel ErrInvalidSignature) | Some provided \<Rightarrow>
      if expected \<noteq> provided then Inl (Sentinel ErrInvalidSignature)
      else let authDateRaw = values_Get values ''auth_date'' in
      if authDateRaw = [] then Inl (Sentinel ErrMissingAuthDate)
      else case ParseInt64 authDateRaw of
        None \<Rightarrow> Inl (malformed ''auth_date is not a unix timestamp'')
      | Some authUnix \<Rightarrow>
      (let authDate = time_unix (word_of_int authUnix) in
      if time_sub now authDate > ttl then Inl (Sentinel ErrExpired)
      else if time_sub authDate now > clockSkew then Inl (Sentinel ErrFutureAuthDate)
      else let userRaw = values_Get values ''user'' in
      if userRaw = [] then Inl (Sentinel ErrMissingUser)
      else case json_user P userRaw of None \<Rightarrow> Inl (malformed ''user is not valid json'') | Some user \<Rightarrow>
      if sint (Tg_ID user) \<le> 0 then Inl (Sentinel ErrMissingUser)
      else Inr \<lparr>Data_User = user, Data_AuthDate = authDate, Data_QueryID = values_Get values ''query_id'',
                Data_ChatType = values_Get values ''chat_type'',
                Data_ChatID = (case ParseInt64 (values_Get values ''chat_instance'') of
                    None \<Rightarrow> 0 | Some n \<Rightarrow> word_of_int n),
                Data_StartParam = values_Get values ''start_param'', Data_Hash = providedHash\<rparr>)))"

definition Verify :: "unicode \<Rightarrow> primitives \<Rightarrow> 's Verifier \<Rightarrow> string \<Rightarrow> ('s, Data) op" where
  "Verify U P v raw s =
     (case verify_payload U P (vf_secretKey v) (vf_ttl v) (vf_clockSkew v) (vf_now v s) raw of
        Inl err \<Rightarrow> (Inl err, s)
      | Inr data \<Rightarrow> (case vf_guard v of None \<Rightarrow> (Inr data, s)
        | Some g \<Rightarrow> attempt (FirstUse g (Data_Hash data) (vf_ttl v + minute))
            (\<lambda>err. throw (Wrap ''replay check: '' err []))
            (\<lambda>first. if \<not> first then throw (Sentinel ErrReplayed) else ok data) s))"

section \<open>Third-party verification\<close>

definition decodeBase64URL :: "primitives \<Rightarrow> string \<Rightarrow> string option" where
  "decodeBase64URL P s = (case RawURLEncoding P s of Some b \<Rightarrow> Some b | None \<Rightarrow> URLEncoding P s)"

definition PublicKeyProduction :: string where
  "PublicKeyProduction = ''e7bf03a2fa4602af4580703d88dda5bb59f32ed8b02a56c187fe7d34caed242d''"

definition PublicKeyTest :: string where
  "PublicKeyTest = ''40055058a4ee38156a06562e52eece92a771bcd8346a8c4615cb7376eddf72ec''"

definition VerifyThirdParty :: "unicode \<Rightarrow> primitives \<Rightarrow> string \<Rightarrow> i64 \<Rightarrow> string \<Rightarrow> error + Data" where
  "VerifyThirdParty U P raw botID publicKeyHex =
     (case ParseQuery U raw of Inl err \<Rightarrow> Inl (malformed (Error err)) | Inr values \<Rightarrow>
      (let sigRaw = values_Get values ''signature'' in
      if sigRaw = [] then Inl (Sentinel ErrMissingHash)
      else case decodeBase64URL P sigRaw of None \<Rightarrow> Inl (Sentinel ErrInvalidSignature) | Some sig \<Rightarrow>
      (case hex_DecodeString publicKeyHex of None \<Rightarrow> Inl (New ''invalid telegram public key'') | Some pub \<Rightarrow>
      if length pub \<noteq> 32 then Inl (New ''invalid telegram public key'')
      else let message = dec_int (sint botID) @ '':WebAppData'' @ write_fields values True (check_keys values) in
      if \<not> ed25519_Verify P pub message sig then Inl (Sentinel ErrInvalidSignature)
      else let authDateRaw = values_Get values ''auth_date'' in
      if authDateRaw = [] then Inl (Sentinel ErrMissingAuthDate)
      else case ParseInt64 authDateRaw of
        None \<Rightarrow> Inl (malformed ''auth_date is not a unix timestamp'')
      | Some authUnix \<Rightarrow>
      (let userRaw = values_Get values ''user'' in
      if userRaw = [] then Inl (Sentinel ErrMissingUser)
      else case json_user P userRaw of None \<Rightarrow> Inl (malformed ''user is not valid json'') | Some user \<Rightarrow>
      if sint (Tg_ID user) \<le> 0 then Inl (Sentinel ErrMissingUser)
      else Inr \<lparr>Data_User = user, Data_AuthDate = time_unix (word_of_int authUnix),
                Data_QueryID = values_Get values ''query_id'', Data_ChatType = values_Get values ''chat_type'',
                Data_ChatID = 0, Data_StartParam = values_Get values ''start_param'',
                Data_Hash = values_Get values ''hash''\<rparr>))))"

section \<open>What acceptance means\<close>

lemma verify_payload_Inr:
  assumes "verify_payload U P k ttl skew now raw = Inr d"
  obtains m z where "ParseQuery U raw = Inr m"
    "hex_DecodeString (Data_Hash d) = Some (hmac_sha256 P k (data_check_string m))"
    "Data_Hash d = values_Get m ''hash''" "Data_Hash d \<noteq> []"
    "ParseInt64 (values_Get m ''auth_date'') = Some z" "Data_AuthDate d = time_unix (word_of_int z)"
    "time_sub now (Data_AuthDate d) \<le> ttl" "time_sub (Data_AuthDate d) now \<le> skew"
    "json_user P (values_Get m ''user'') = Some (Data_User d)" "0 < sint (Tg_ID (Data_User d))"
  using assms unfolding verify_payload_def Let_def
  by (auto split: sum.splits option.splits if_split_asm)

lemma Verify_Inr:
  assumes "Verify U P v raw s = (Inr d, t)"
  shows "verify_payload U P (vf_secretKey v) (vf_ttl v) (vf_clockSkew v) (vf_now v s) raw = Inr d"
    and "vf_guard v = Some g \<Longrightarrow> FirstUse g (Data_Hash d) (vf_ttl v + minute) s = (Inr True, t)"
  using assms unfolding Verify_def
  by (auto elim!: attempt_cases split: sum.splits option.splits if_splits)

lemma Verify_deterministic_hash:
  assumes "Verify U P v raw s = (Inr d, t)" "Verify U P v raw s' = (Inr d', t')"
  shows "Data_Hash d = Data_Hash d' \<and> Data_AuthDate d = Data_AuthDate d'"
proof -
  from Verify_Inr(1) [OF assms(1)] obtain m z where "ParseQuery U raw = Inr m" "Data_Hash d = values_Get m ''hash''"
    "ParseInt64 (values_Get m ''auth_date'') = Some z" "Data_AuthDate d = time_unix (word_of_int z)"
    by (rule verify_payload_Inr)
  moreover from Verify_Inr(1) [OF assms(2)] obtain m' z' where "ParseQuery U raw = Inr m'" "Data_Hash d' = values_Get m' ''hash''"
    "ParseInt64 (values_Get m' ''auth_date'') = Some z'" "Data_AuthDate d' = time_unix (word_of_int z')"
    by (rule verify_payload_Inr)
  ultimately show ?thesis by simp
qed

text \<open>
  C16. A payload is accepted only when the hexadecimal hash it carries decodes to the HMAC,
  under the key derived from the bot token, of all its other fields; its timestamp is at
  most the TTL old and at most the tolerated skew ahead; it names a user with a positive ID;
  and the guard, where there is one, reports its first use.
\<close>

theorem Verify_accepts_only_signed_fresh_first:
  assumes "Verify U P v raw s = (Inr d, t)"
  shows "\<exists>m z. ParseQuery U raw = Inr m \<and> Data_Hash d = values_Get m ''hash''
    \<and> hex_DecodeString (Data_Hash d) = Some (hmac_sha256 P (vf_secretKey v) (data_check_string m))
    \<and> ParseInt64 (values_Get m ''auth_date'') = Some z \<and> Data_AuthDate d = time_unix (word_of_int z)
    \<and> time_sub (vf_now v s) (Data_AuthDate d) \<le> vf_ttl v
    \<and> time_sub (Data_AuthDate d) (vf_now v s) \<le> vf_clockSkew v
    \<and> json_user P (values_Get m ''user'') = Some (Data_User d) \<and> 0 < sint (Tg_ID (Data_User d))
    \<and> (\<forall>g. vf_guard v = Some g \<longrightarrow> FirstUse g (Data_Hash d) (vf_ttl v + minute) s = (Inr True, t))"
  using Verify_Inr(2) [OF assms] verify_payload_Inr [OF Verify_Inr(1) [OF assms]] by metis

section \<open>Replays\<close>

lemma FirstUse_True:
  assumes "setnx_documented (guard_client g) clock deadline" "FirstUse g h ttl s = (Inr True, t)"
  obtains x where "clock s \<le> x" "x \<le> clock t" "\<forall>T. deadline s (guard_key g h) = Some T \<longrightarrow> T \<le> x"
    "deadline t (guard_key g h) = Some (x + ttl)"
proof -
  have "SetNX (guard_client g) (guard_key g h) ''1'' ttl s = (Inr True, t)"
    using assms(2) unfolding FirstUse_def by (auto elim!: attempt_cases)
  with assms(1) that show thesis unfolding setnx_documented_def by blast
qed

text \<open>
  C17. One payload is not accepted twice: after an acceptance, as long as the guard's entry
  is kept until it expires, a later verification of the same string fails, provided that
  the guard answers within three seconds (the call's timeout) and that the payload's
  timestamp was less than 57 seconds ahead of the server's clock at the first use. The
  server and Redis share a clock here. With the default skew of one minute the condition can
  fail for a timestamp 57 to 60 seconds ahead.
\<close>

theorem Verify_rejects_replay:
  assumes first: "Verify U P v raw s1 = (Inr d, t1)" and guard: "vf_guard v = Some g"
    and redis: "setnx_documented (guard_client g) (vf_now v) deadline"
    and kept: "deadline s2 (guard_key g (Data_Hash d)) = deadline t1 (guard_key g (Data_Hash d))"
    and timeout: "\<And>r t. Verify U P v raw s2 = (r, t) \<Longrightarrow> vf_now v t < vf_now v s2 + 3 * second"
    and ahead: "Data_AuthDate d \<le> vf_now v s1 + 57 * second"
    and ttl: "0 < vf_ttl v" "vf_ttl v < max_duration"
  shows "isl (fst (Verify U P v raw s2))"
proof (rule ccontr)
  assume "\<not> isl (fst (Verify U P v raw s2))"
  then obtain d' t2 where second: "Verify U P v raw s2 = (Inr d', t2)"
    by (cases "Verify U P v raw s2"; cases "fst (Verify U P v raw s2)") auto
  have same: "Data_Hash d' = Data_Hash d" "Data_AuthDate d' = Data_AuthDate d"
    using Verify_deterministic_hash [OF first second] by simp_all
  obtain x1 where x1: "vf_now v s1 \<le> x1" "deadline t1 (guard_key g (Data_Hash d)) = Some (x1 + (vf_ttl v + minute))"
    using FirstUse_True [OF redis Verify_Inr(2) [OF first guard]] by blast
  obtain x2 where x2: "x2 \<le> vf_now v t2" "x1 + (vf_ttl v + minute) \<le> x2"
    using FirstUse_True [OF redis Verify_Inr(2) [OF second guard]] same(1) kept x1(2) by (metis (no_types, lifting))
  have "time_sub (vf_now v s2) (Data_AuthDate d) \<le> vf_ttl v"
    using verify_payload_Inr [OF Verify_Inr(1) [OF second]] same by metis
  then have "vf_now v s2 - Data_AuthDate d \<le> vf_ttl v"
    using ttl by (subst (asm) time_sub_le_iff) (auto simp: min_duration_def)
  with x1(1) x2 timeout [OF second] ahead show False by (simp add: duration_defs)
qed

section \<open>What the signature covers\<close>

definition field :: "Values \<Rightarrow> string \<Rightarrow> string" where
  "field m k = k @ ''='' @ values_Get m k"

lemma write_fields_join:
  "write_fields m True ks = concat (map (\<lambda>k. [CHR 0x0A] @ field m k) ks)"
  by (induction ks) (simp_all add: field_def)

lemma str_join_concat: "str_join [c] (x # xs) = x @ concat (map (\<lambda>y. [c] @ y) xs)"
  by (induction xs arbitrary: x) simp_all

lemma data_check_join: "data_check_string m = str_join [CHR 0x0A] (map (field m) (check_keys m))"
proof (cases "check_keys m")
  case (Cons k ks)
  then show ?thesis
    by (simp add: data_check_string_def write_fields_join str_join_concat field_def comp_def del: str_join.simps)
qed (simp add: data_check_string_def)

text \<open>Keys without \<open>=\<close> and line feeds, values without line feeds.\<close>

definition clean :: "Values \<Rightarrow> bool" where
  "clean m \<longleftrightarrow> (\<forall>(k, v) \<in> set m. CHR ''='' \<notin> set k \<and> CHR 0x0A \<notin> set k \<and> CHR 0x0A \<notin> set v)"

lemma clean_field:
  assumes "clean m" "k \<in> set (check_keys m)"
  shows "CHR 0x0A \<notin> set (field m k)" "cut (CHR ''='') (field m k) = (k, values_Get m k)"
proof -
  from assms(2) obtain v where "map_of m k = Some v" by (auto simp: check_keys_def map_of_eq_Some_iff dest: weak_map_of_SomeI)
  moreover from this have "(k, v) \<in> set m" by (rule map_of_SomeD)
  ultimately have c: "CHR ''='' \<notin> set k" "CHR 0x0A \<notin> set k" "CHR 0x0A \<notin> set (values_Get m k)"
    using assms(1) by (auto simp: clean_def values_Get_def)
  then show "CHR 0x0A \<notin> set (field m k)" by (simp add: field_def)
  from c(1) show "cut (CHR ''='') (field m k) = (k, values_Get m k)"
    by (simp add: cut_def field_def takeWhile_append dropWhile_append)
qed

lemma fields_of_check_string:
  assumes "clean m"
  shows "map (field m) (check_keys m) = (if data_check_string m = [] then [] else split_on (CHR 0x0A) (data_check_string m))"
proof (cases "check_keys m = []")
  case False
  have "\<forall>p \<in> set (map (field m) (check_keys m)). CHR 0x0A \<notin> set p" using clean_field(1) [OF assms] by auto
  with False have "split_on (CHR 0x0A) (data_check_string m) = map (field m) (check_keys m)"
    unfolding data_check_join by (intro split_on_str_join) auto
  moreover have "data_check_string m \<noteq> []"
    using False by (cases "check_keys m") (simp_all add: data_check_string_def)
  ultimately show ?thesis by simp
qed (simp add: data_check_string_def)

lemma fields_inj:
  assumes "clean m" "clean m'" "map (field m) ks = map (field m') ks'"
    and "set ks \<subseteq> set (check_keys m)" "set ks' \<subseteq> set (check_keys m')"
  shows "map (\<lambda>k. (k, values_Get m k)) ks = map (\<lambda>k. (k, values_Get m' k)) ks'"
proof -
  have "map (\<lambda>k. (k, values_Get m k)) ks = map (cut (CHR ''='')) (map (field m) ks)"
    using clean_field(2) [OF assms(1)] assms(4) by auto
  also have "\<dots> = map (\<lambda>k. (k, values_Get m' k)) ks'"
    unfolding assms(3) using clean_field(2) [OF assms(2)] assms(5) by auto
  finally show ?thesis .
qed

text \<open>
  C27. For payloads whose keys have no \<open>=\<close> and no line feed and whose values have no line feed:
  two of them with the same data-check string, hence accepted under the same hash, agree on
  every parameter except \<open>hash\<close> and \<open>signature\<close>, which the string leaves out. The order of the
  parameters and the later copies of a repeated key do not matter. Without the condition
  this fails (\<open>data_check_string_ambiguous\<close>).
\<close>

theorem data_check_string_binds_fields:
  assumes "clean m" "clean m'" "data_check_string m = data_check_string m'" "k \<noteq> ''hash''" "k \<noteq> ''signature''"
  shows "values_Get m k = values_Get m' k"
proof -
  have "map (field m) (check_keys m) = map (field m') (check_keys m')"
    using fields_of_check_string [OF assms(1)] fields_of_check_string [OF assms(2)] assms(3) by simp
  then have eq: "map (\<lambda>k. (k, values_Get m k)) (check_keys m) = map (\<lambda>k. (k, values_Get m' k)) (check_keys m')"
    by (rule fields_inj [OF assms(1,2)]) simp_all
  have val: "values_Get n k = (case map_of (map (\<lambda>k. (k, values_Get n k)) (check_keys n)) k of None \<Rightarrow> [] | Some v \<Rightarrow> v)" for n
  proof (cases "k \<in> set (check_keys n)")
    case True
    then show ?thesis by (simp add: map_of_map_restrict restrict_map_def)
  next
    case False
    then have "k \<notin> fst ` set n" using assms(4,5) by (auto simp: check_keys_def)
    then have "map_of n k = None" by (simp add: map_of_eq_None_iff)
    with False show ?thesis by (simp add: map_of_map_restrict restrict_map_def values_Get_def)
  qed
  show ?thesis by (subst (1 2) val) (simp only: eq)
qed

theorem data_check_string_binds_fields_witness:
  "values_Get [(''user'', ''x''), (''auth_date'', ''1''), (''hash'', ''ab'')] ''user''
   = values_Get [(''hash'', ''cd''), (''auth_date'', ''1''), (''user'', ''x''), (''user'', ''y'')] ''user''"
  by (rule data_check_string_binds_fields) code_simp+

text \<open>A line feed in a value reads like the end of the field: the condition cannot be dropped.\<close>

theorem data_check_string_ambiguous:
  "let m = [(''a'', ''1'' @ [CHR 0x0A] @ ''b=2'')]; m' = [(''a'', ''1''), (''b'', ''2'')]
   in data_check_string m = data_check_string m' \<and> values_Get m ''a'' \<noteq> values_Get m' ''a'' \<and> \<not> clean m \<and> clean m'"
  by code_simp

section \<open>Examples\<close>

text \<open>A verifier over primitives with a one-byte tag, and a Redis that answers at once.\<close>

definition sample_tg_user :: TgUser where
  "sample_tg_user = \<lparr>Tg_ID = 7, Tg_IsBot = False, Tg_FirstName = [], Tg_LastName = [], Tg_Username = ''bob'',
     Tg_LanguageCode = ''en'', Tg_IsPremium = False, Tg_PhotoURL = []\<rparr>"

definition sample_primitives :: primitives where
  "sample_primitives = \<lparr>hmac_sha256 = (\<lambda>k d. [CHR 0xAB]), ed25519_Verify = (\<lambda>k m s. True),
     RawURLEncoding = Some, URLEncoding = Some, json_user = (\<lambda>s. Some sample_tg_user)\<rparr>"

definition sample_verifier :: "keyspace Verifier" where
  "sample_verifier = \<lparr>vf_secretKey = ''k'', vf_ttl = hour, vf_guard = Some (NewReplayGuard simple_redis ''miniapp''),
     vf_now = ks_clock, vf_clockSkew = minute\<rparr>"

definition sample_instant :: keyspace where
  "sample_instant = \<lparr>ks_clock = time_unix 100, ks_deadlines = [], ks_counters = []\<rparr>"

definition sample_raw :: "string \<Rightarrow> string" where
  "sample_raw hash = ''auth_date=100&user=bob&hash='' @ hash"

text \<open>
  The replay guard is keyed by the hash as the client spelled it, while the signature
  check decodes it: the same signed payload, with the hash in the other letter case, is
  accepted a second time (and only then refused).
\<close>

theorem replay_bypassed_by_hash_case:
  "let (r1, s1) = Verify ascii_tables sample_primitives sample_verifier (sample_raw ''ab'') sample_instant;
       (r2, s2) = Verify ascii_tables sample_primitives sample_verifier (sample_raw ''AB'') s1;
       (r3, s3) = Verify ascii_tables sample_primitives sample_verifier (sample_raw ''ab'') s2
   in \<not> isl r1 \<and> \<not> isl r2 \<and> r3 = Inl (Sentinel ErrReplayed)"
  by code_simp

theorem Verify_accepts_only_signed_fresh_first_witness:
  "\<exists>d t m. Verify ascii_tables sample_primitives sample_verifier (sample_raw ''ab'') sample_instant = (Inr d, t)
     \<and> ParseQuery ascii_tables (sample_raw ''ab'') = Inr m
     \<and> hex_DecodeString (Data_Hash d) = Some (hmac_sha256 sample_primitives ''k'' (data_check_string m))"
proof -
  let ?run = "Verify ascii_tables sample_primitives sample_verifier (sample_raw ''ab'') sample_instant"
  have "\<not> isl (fst ?run)" by code_simp
  then obtain d t where run: "?run = (Inr d, t)" by (cases "?run"; cases "fst ?run") auto
  from Verify_accepts_only_signed_fresh_first [OF run] run show ?thesis
    by (auto simp: sample_verifier_def)
qed

theorem Verify_rejects_replay_witness:
  "let (r1, s1) = Verify ascii_tables sample_primitives sample_verifier (sample_raw ''ab'') sample_instant
   in \<not> isl r1 \<and> isl (fst (Verify ascii_tables sample_primitives sample_verifier (sample_raw ''ab'') s1))"
proof -
  let ?V = "Verify ascii_tables sample_primitives sample_verifier (sample_raw ''ab'')"
  let ?g = "NewReplayGuard simple_redis ''miniapp''"
  have 1: "\<not> isl (fst (?V sample_instant))" by code_simp
  then obtain d t where run: "?V sample_instant = (Inr d, t)" by (cases "?V sample_instant"; cases "fst (?V sample_instant)") auto
  have clock: "ks_clock (snd (?V s)) = ks_clock s" for s
    by (auto simp: Verify_def sample_verifier_def FirstUse_def NewReplayGuard_def simple_redis_def attempt_def ok_def throw_def
        split: sum.splits option.splits prod.splits if_splits)
  have "map_sum (\<lambda>_. ()) Data_AuthDate (fst (?V sample_instant)) = Inr (time_unix 100)" by code_simp
  then have "Data_AuthDate d = time_unix 100" unfolding run by simp
  then have "isl (fst (?V t))"
    using clock [of t] simple_redis_setnx
    by (intro Verify_rejects_replay [OF run, where g = ?g and deadline = "\<lambda>s. map_of (ks_deadlines s)"])
      (auto simp: sample_verifier_def NewReplayGuard_def sample_instant_def duration_defs max_duration_def)
  with 1 run show ?thesis by simp
qed

end
