(* ===== verification/MiniAppAuth.thy ===== *)
theory MiniAppAuth
  imports Onboarding InitData
begin

text \<open>
  \<open>internal/application/miniapp.go\<close>: the authentication of a Mini App request, which
  composes the verifier of signed payloads with onboarding. Two gates must both pass.
\<close>

record 's MiniAppAuth =
  ma_verifier :: "(string \<Rightarrow> ('s, Data) op) option"
  ma_onboarding :: "'s Onboarding"
  ma_audit :: "'s AuditStore option"
  ma_clock :: "'s \<Rightarrow> time"

definition NewMiniAppAuth ::
    "(string \<Rightarrow> ('s, Data) op) option \<Rightarrow> 's Onboarding \<Rightarrow> 's AuditStore option \<Rightarrow> ('s \<Rightarrow> time) \<Rightarrow> 's MiniAppAuth" where
  "NewMiniAppAuth verifier ob au clock =
     \<lparr>ma_verifier = verifier, ma_onboarding = ob, ma_audit = au, ma_clock = clock\<rparr>"

definition MiniAppAuth_recordAudit :: "'s MiniAppAuth \<Rightarrow> (time \<Rightarrow> AuditEvent) \<Rightarrow> 's \<Rightarrow> 's" where
  "MiniAppAuth_recordAudit m ev s =
     (case ma_audit m of None \<Rightarrow> s | Some a \<Rightarrow> snd (Audit_Record a (ev (ma_clock m s)) s))"

definition telegram_user_of :: "Data \<Rightarrow> TelegramUser" where
  "telegram_user_of d = \<lparr>TU_TelegramID = Tg_ID (Data_User d), TU_UserID = [], TU_Username = Tg_Username (Data_User d),
     TU_FirstName = Tg_FirstName (Data_User d), TU_LastName = Tg_LastName (Data_User d),
     TU_LanguageCode = Tg_LanguageCode (Data_User d), TU_ChatID = Tg_ID (Data_User d),
     TU_CreatedAt = zero_time, TU_UpdatedAt = zero_time, TU_LastSeenAt = zero_time\<rparr>"

definition Authenticate :: "'s MiniAppAuth \<Rightarrow> string \<Rightarrow> ('s, Identity) op" where
  "Authenticate m rawInitData = (case ma_verifier m of
       None \<Rightarrow> throw (New ''mini app verification is not configured'')
     | Some verify \<Rightarrow> attempt (verify rawInitData)
         (\<lambda>err. after (MiniAppAuth_recordAudit m (\<lambda>now. WithDetail ''reason'' (DString (Error err))
                  (WithOutcome OutcomeRejected (NewAuditEvent now ActorSystem [] ActionMiniAppAuthRejected))))
                  (throw (Wrap [] (Sentinel ErrUnauthorized) ('': '' @ Error err))))
         (\<lambda>data.
            if Tg_IsBot (Data_User data) then
              after (MiniAppAuth_recordAudit m (\<lambda>now. WithDetail ''reason'' (DString ''bot accounts may not authenticate'')
                  (WithOutcome OutcomeRejected (NewAuditEvent now ActorTelegramUser
                     (telegramActorID (Tg_ID (Data_User data))) ActionMiniAppAuthRejected))))
                (throw (Sentinel ErrUnauthorized))
            else attempt (Authorize (ma_onboarding m) (telegram_user_of data)) throw
              (\<lambda>identity. after (MiniAppAuth_recordAudit m (\<lambda>now. WithSubject ''user'' (User_ID (Id_User identity))
                  (NewAuditEvent now ActorTelegramUser (telegramActorID (TU_TelegramID (Id_Telegram identity))) ActionMiniAppAuth)))
                (ok identity))))"

section \<open>On PostgreSQL and Redis\<close>

text \<open>The verifier's state (Redis and its clock) lies outside the database.\<close>

definition pg_miniapp ::
    "unicode \<Rightarrow> primitives \<Rightarrow> 'z Verifier \<Rightarrow> Allowlist \<Rightarrow> ('z pgdb_scheme \<Rightarrow> time) \<Rightarrow> 'z pgdb_scheme MiniAppAuth" where
  "pg_miniapp U P v allowlist clock =
     NewMiniAppAuth (Some (\<lambda>raw. outside (Verify U P v raw))) (pg_onboarding allowlist clock) (Some AuditRepo) clock"

lemma pg_miniapp_audit: "appended s (MiniAppAuth_recordAudit (pg_miniapp U P v allowlist clock) ev s)"
  by (auto simp: MiniAppAuth_recordAudit_def pg_miniapp_def NewMiniAppAuth_def AuditRepo_def
      intro: Record_appended [OF prod.collapse [symmetric]])

lemma outside_Inr:
  assumes "outside m s = (Inr a, t)"
  obtains z where "m (pgdb.more s) = (Inr a, z)"
  using assms by (auto simp: outside_def split: prod.splits)

lemma Authenticate_steps:
  assumes "Authenticate m raw s = (Inr idn, t)" "ma_verifier m = Some verify"
  obtains d s1 s2 ev where "verify raw s = (Inr d, s1)" "\<not> Tg_IsBot (Data_User d)"
    "Authorize (ma_onboarding m) (telegram_user_of d) s1 = (Inr idn, s2)" "t = MiniAppAuth_recordAudit m ev s2"
proof -
  obtain q s1 where q: "verify raw s = (q, s1)" by fastforce
  with assms obtain d where d: "q = Inr d" by (cases q) (auto simp: Authenticate_def after_def)
  have bot: "\<not> Tg_IsBot (Data_User d)"
    using assms q d by (auto simp: Authenticate_def after_def)
  obtain r s2 where r: "Authorize (ma_onboarding m) (telegram_user_of d) s1 = (r, s2)" by fastforce
  with assms q d bot have "r = Inr idn" by (cases r) (auto simp: Authenticate_def after_def)
  with r have r: "Authorize (ma_onboarding m) (telegram_user_of d) s1 = (Inr idn, s2)" by simp
  show thesis
    by (rule that [OF q [unfolded d] bot r]) (use assms q d bot r in \<open>simp add: Authenticate_def after_def\<close>)
qed

lemma Authenticate_Inr:
  assumes "Authenticate (pg_miniapp U P v allowlist clock) raw s = (Inr idn, t)"
  obtains d s1 s2 z where "Verify U P v raw (pgdb.more s) = (Inr d, z)" "same_db s s1" "\<not> Tg_IsBot (Data_User d)"
    "Authorize (pg_onboarding allowlist clock) (telegram_user_of d) s1 = (Inr idn, s2)" "appended s2 t"
proof -
  let ?m = "pg_miniapp U P v allowlist clock"
  have m: "ma_verifier ?m = Some (\<lambda>raw. outside (Verify U P v raw))" "ma_onboarding ?m = pg_onboarding allowlist clock"
    by (simp_all add: pg_miniapp_def NewMiniAppAuth_def)
  from Authenticate_steps [OF assms m(1)] obtain d s1 s2 ev where
    1: "outside (Verify U P v raw) s = (Inr d, s1)" "\<not> Tg_IsBot (Data_User d)"
    "Authorize (pg_onboarding allowlist clock) (telegram_user_of d) s1 = (Inr idn, s2)"
    "t = MiniAppAuth_recordAudit ?m ev s2" unfolding m(2) by metis
  from 1(1) obtain z where "Verify U P v raw (pgdb.more s) = (Inr d, z)" by (rule outside_Inr)
  with 1 outside_same [OF 1(1)] pg_miniapp_audit show thesis by (intro that) auto
qed

lemma Authenticated:
  assumes "db_ok s" "Authenticate (pg_miniapp U P v allowlist clock) raw s = (Inr idn, t)"
  obtains d z where "Verify U P v raw (pgdb.more s) = (Inr d, z)" "\<not> Tg_IsBot (Data_User d)"
    "Allows allowlist (Tg_ID (Data_User d))" "User_Status (Id_User idn) = UserActive"
    "account_of t (Tg_ID (Data_User d)) = Some (Id_User idn)" "db_ok t"
  using assms(2)
proof (rule Authenticate_Inr)
  fix d s1 s2 z
  assume 1: "Verify U P v raw (pgdb.more s) = (Inr d, z)" "same_db s s1" "\<not> Tg_IsBot (Data_User d)"
    and 2: "Authorize (pg_onboarding allowlist clock) (telegram_user_of d) s1 = (Inr idn, s2)" and 3: "appended s2 t"
  have s1: "db_ok s1" using 1(2) assms(1) by (rule db_ok_sameI)
  from pgo.Authorize_success [OF s1 2] have "Allows allowlist (Tg_ID (Data_User d))"
    "User_Status (Id_User idn) = UserActive" "account_of s2 (Tg_ID (Data_User d)) = Some (Id_User idn)"
    by (simp_all add: telegram_user_of_def)
  with 1 3 appended_at [OF 3] appended_db_ok [OF 3 pgo.Authorize_inv [OF s1 2]] show thesis by (intro that) auto
qed

text \<open>
  C14. A Mini App request is authenticated only when both gates pass: the verifier accepted
  the payload (with everything that implies), and the user it names is not a bot, is on the
  allowlist and has an active account; the identity returned is that account.
\<close>

theorem Authenticate_two_gates:
  assumes "db_ok s" "Authenticate (pg_miniapp U P v allowlist clock) raw s = (Inr idn, t)"
  shows "\<exists>d z. Verify U P v raw (pgdb.more s) = (Inr d, z) \<and> \<not> Tg_IsBot (Data_User d)
    \<and> Allows allowlist (Tg_ID (Data_User d)) \<and> User_Status (Id_User idn) = UserActive
    \<and> account_of t (Tg_ID (Data_User d)) = Some (Id_User idn) \<and> db_ok t"
  using assms by (rule Authenticated) blast

definition sample_world :: "keyspace pgdb_scheme" where
  "sample_world = empty_db sample_instant"

theorem Authenticate_two_gates_witness:
  "\<exists>idn t. Authenticate (pg_miniapp ascii_tables sample_primitives sample_verifier (NewAllowlist [7]) pg_clock)
       (sample_raw ''ab'') sample_world = (Inr idn, t)
     \<and> account_of t 7 = Some (Id_User idn) \<and> User_Status (Id_User idn) = UserActive"
proof -
  let ?run = "Authenticate (pg_miniapp ascii_tables sample_primitives sample_verifier (NewAllowlist [7]) pg_clock)
       (sample_raw ''ab'') sample_world"
  have "\<not> isl (fst ?run)" by code_simp
  then obtain idn t where run: "?run = (Inr idn, t)" by (cases "?run"; cases "fst ?run") auto
  have "db_ok sample_world" by (simp add: sample_world_def)
  from Authenticate_two_gates [OF this run] obtain d z where
    d: "Verify ascii_tables sample_primitives sample_verifier (sample_raw ''ab'') (pgdb.more sample_world) = (Inr d, z)"
    and a: "account_of t (Tg_ID (Data_User d)) = Some (Id_User idn)" "User_Status (Id_User idn) = UserActive" by blast
  have "Tg_ID (Data_User d) = 7"
    by (rule verify_payload_Inr [OF Verify_Inr(1) [OF d]]) (simp add: sample_primitives_def sample_tg_user_def, metis TgUser.select_convs(1))
  with a run show ?thesis by auto
qed

end
