(* ===== verification/ChainSync.thy ===== *)
theory ChainSync
  imports LogRepos
begin

text \<open>
  \<open>internal/application/chainsync.go\<close>: recording chain progress. The contract of the store
  (a recorded height only rises) is the locale \<open>sync_store\<close>, interpreted on the PostgreSQL
  repository; from it follows what any sequence of observations leaves behind, in whatever
  order and however often the heads are delivered.
\<close>

record 's ChainProbe =
  Probe_chain_id :: "('s, u64) op"
  Probe_latest_block :: "('s, BlockRef) op"

record 's SyncStateStore =
  Store_SaveHead :: "u64 \<Rightarrow> string \<Rightarrow> BlockRef \<Rightarrow> ('s, unit) op"
  Store_LoadHead :: "u64 \<Rightarrow> ('s, BlockRef \<times> bool) op"

record 's ChainSync =
  cs_chain :: "'s ChainProbe"
  cs_store :: "'s SyncStateStore"
  cs_chainID :: u64

definition NewChainSync :: "'s ChainProbe \<Rightarrow> 's SyncStateStore \<Rightarrow> u64 \<Rightarrow> 's ChainSync" where
  "NewChainSync chain store chainID = \<lparr>cs_chain = chain, cs_store = store, cs_chainID = chainID\<rparr>"

definition ChainSync_Record :: "'s ChainSync \<Rightarrow> BlockRef \<Rightarrow> ('s, unit) op" where
  "ChainSync_Record c block =
     attempt (Store_SaveHead (cs_store c) (cs_chainID c) (ChainName (cs_chainID c)) block)
       (\<lambda>err. throw (Wrap ''save head: '' err [])) (\<lambda>_. ok ())"

definition RecordLatest :: "'s ChainSync \<Rightarrow> ('s, BlockRef) op" where
  "RecordLatest c = attempt (Probe_latest_block (cs_chain c)) (\<lambda>err. throw (Wrap ''latest block: '' err []))
     (\<lambda>block. attempt (ChainSync_Record c block) throw (\<lambda>_. ok block))"

definition LastSeen :: "'s ChainSync \<Rightarrow> ('s, BlockRef \<times> bool) op" where
  "LastSeen c = Store_LoadHead (cs_store c) (cs_chainID c)"

text \<open>The observations a process records, one after the other; a failed one is skipped.\<close>

fun record_all :: "'s ChainSync \<Rightarrow> BlockRef list \<Rightarrow> 's \<Rightarrow> (error + unit) list \<times> 's" where
  "record_all c [] s = ([], s)"
| "record_all c (b # bs) s =
     (case ChainSync_Record c b s of (r, s1) \<Rightarrow> (case record_all c bs s1 of (rs, s2) \<Rightarrow> (r # rs, s2)))"

section \<open>The contract\<close>

locale sync_store =
  fixes store :: "'s SyncStateStore"
    and inv :: "'s \<Rightarrow> bool"
    and height :: "'s \<Rightarrow> u64 \<Rightarrow> int option"
  assumes save_inv: "keeps inv (Store_SaveHead store c n b)"
    and save_other: "inv s \<Longrightarrow> Store_SaveHead store c n b s = (r, t) \<Longrightarrow> i \<noteq> c \<Longrightarrow> height t i = height s i"
    and save_raises: "inv s \<Longrightarrow> Store_SaveHead store c n b s = (r, t) \<Longrightarrow>
      height t c = height s c \<and> isl r \<or> height t c = raised (height s c) (sint (Block_Number b))"
    and load_value: "inv s \<Longrightarrow> Store_LoadHead store c s = (Inr (b, True), t) \<Longrightarrow>
      height s c = Some (sint (Block_Number b))"
begin

lemma Record_height:
  assumes "inv s" "cs_store cs = store" "ChainSync_Record cs b s = (r, t)"
  shows "inv t" "height t (cs_chainID cs) = height s (cs_chainID cs) \<and> isl r
      \<or> height t (cs_chainID cs) = raised (height s (cs_chainID cs)) (sint (Block_Number b))"
proof -
  from assms(2,3) obtain q where q: "Store_SaveHead store (cs_chainID cs) (ChainName (cs_chainID cs)) b s = (q, t)" "isl q \<Longrightarrow> isl r"
    unfolding ChainSync_Record_def by (auto elim!: attempt_cases)
  from keepsD [OF save_inv assms(1) q(1)] show "inv t" .
  from save_raises [OF assms(1) q(1)] q(2)
  show "height t (cs_chainID cs) = height s (cs_chainID cs) \<and> isl r
      \<or> height t (cs_chainID cs) = raised (height s (cs_chainID cs)) (sint (Block_Number b))" by blast
qed

lemma raised_facts:
  "raised h n = Some m \<Longrightarrow> n \<le> m" "raised h n = h \<or> raised h n = Some n" "h = Some k \<Longrightarrow> raised h n = Some m \<Longrightarrow> k \<le> m"
  by (auto simp: raised_def max_def split: option.splits)

lemma record_all_height:
  assumes "inv s" "cs_store cs = store" "record_all cs bs s = (rs, t)"
  shows "inv t \<and> length rs = length bs
    \<and> (\<forall>m. height s (cs_chainID cs) = Some m \<longrightarrow> (\<exists>n \<ge> m. height t (cs_chainID cs) = Some n))
    \<and> height t (cs_chainID cs) \<in> insert (height s (cs_chainID cs)) ((\<lambda>b. Some (sint (Block_Number b))) ` set bs)
    \<and> (\<forall>j < length bs. \<not> isl (rs ! j) \<longrightarrow> (\<exists>n. height t (cs_chainID cs) = Some n \<and> sint (Block_Number (bs ! j)) \<le> n))"
  using assms(1,3)
proof (induction bs arbitrary: s rs)
  case (Cons b bs)
  from Cons.prems(2) obtain r s1 rs' where 1: "ChainSync_Record cs b s = (r, s1)" and 2: "record_all cs bs s1 = (rs', t)"
    and rs: "rs = r # rs'" by (auto split: prod.splits)
  let ?h = "\<lambda>s. height s (cs_chainID cs)"
  note rec = Record_height [OF Cons.prems(1) assms(2) 1] and ih = Cons.IH [OF Record_height(1) [OF Cons.prems(1) assms(2) 1] 2]
  from rec(2) have h1: "?h s1 = ?h s \<or> ?h s1 = Some (sint (Block_Number b))" using raised_facts(2) by metis
  have up: "\<exists>n \<ge> m. ?h t = Some n" if "?h s = Some m" for m
  proof -
    from rec(2) that obtain m' where "?h s1 = Some m'" "m \<le> m'" by (auto simp: raised_def)
    with ih show ?thesis by (meson order_trans)
  qed
  have first: "\<exists>n. ?h t = Some n \<and> sint (Block_Number b) \<le> n" if "\<not> isl r"
  proof -
    from rec(2) that obtain m' where "?h s1 = Some m'" "sint (Block_Number b) \<le> m'"
      by (auto simp: raised_def split: option.splits)
    with ih show ?thesis by (meson order_trans)
  qed
  have "\<exists>n. ?h t = Some n \<and> sint (Block_Number ((b # bs) ! j)) \<le> n" if "j < Suc (length bs)" "\<not> isl (rs ! j)" for j
    using that first ih rs by (cases j) auto
  with ih up h1 rs show ?case by auto
qed simp

end

lemma LoadHead_value:
  assumes "db_ok s" "SyncStateRepo_LoadHead c s = (Inr (b, True), t)"
  shows "height s c = Some (sint (Block_Number b))"
proof -
  from assms(2) obtain r where r: "find_head s c = Some r" and b: "Block_Number b = word_of_int (sr_last_block_number r)"
    unfolding SyncStateRepo_LoadHead_def find_head_def
    by (auto elim!: attempt_cases query_Inr split: if_splits option.splits)
  have "r \<in> set (chain_sync_state s)" using r unfolding find_head_def by (blast dest: find_Some_mem)
  then have "sync_row_checked r" using assms(1) by (simp add: db_ok_def sync_ok_def)
  then have range: "0 \<le> sr_last_block_number r" "sr_last_block_number r < 2 ^ 63" by (simp_all add: sync_row_checked_def)
  then have "sint (word_of_int (sr_last_block_number r) :: i64) = sr_last_block_number r"
    unfolding sint_sbintrunc' using signed_take_bit_int_eq_self [of 63 "sr_last_block_number r"] by simp
  with r b show ?thesis by (simp add: height_def)
qed

section \<open>On PostgreSQL\<close>

definition SyncStateRepo :: "unicode \<Rightarrow> 'z pgdb_scheme SyncStateStore" where
  "SyncStateRepo U = \<lparr>Store_SaveHead = SyncStateRepo_SaveHead U, Store_LoadHead = SyncStateRepo_LoadHead\<rparr>"

interpretation pgc: sync_store "SyncStateRepo U" db_ok height for U
  by unfold_locales
     (auto simp: SyncStateRepo_def keeps_SaveHead LoadHead_value dest: SaveHead_height)

text \<open>
  C20. However heads are delivered (reordered, repeated, some of the writes failing), the
  recorded height of the chain is its old value or the number of one of the blocks, never
  lower than before, and at least the number of every block whose write succeeded.
\<close>

theorem ChainSync_delivery_order_irrelevant:
  assumes "db_ok s" "record_all (NewChainSync probe (SyncStateRepo U) c) bs s = (rs, t)"
  shows "db_ok t \<and> (\<forall>m. height s c = Some m \<longrightarrow> (\<exists>n \<ge> m. height t c = Some n))
    \<and> height t c \<in> insert (height s c) ((\<lambda>b. Some (sint (Block_Number b))) ` set bs)
    \<and> (\<forall>j < length bs. \<not> isl (rs ! j) \<longrightarrow> (\<exists>n. height t c = Some n \<and> sint (Block_Number (bs ! j)) \<le> n))"
  using pgc.record_all_height [OF assms(1) _ assms(2)] by (auto simp: NewChainSync_def)

definition sample_chain_probe :: "pgdb ChainProbe" where
  "sample_chain_probe = \<lparr>Probe_chain_id = ok 4663, Probe_latest_block = ok (sample_block 7)\<rparr>"

theorem ChainSync_delivery_order_irrelevant_witness:
  "height (snd (record_all (NewChainSync sample_chain_probe (SyncStateRepo ascii_tables) 4663)
     [sample_block 7, sample_block 5] (empty_db ()))) 4663 = Some 7"
proof -
  let ?run = "record_all (NewChainSync sample_chain_probe (SyncStateRepo ascii_tables) 4663) [sample_block 7, sample_block 5] (empty_db ())"
  obtain rs t where run: "?run = (rs, t)" by fastforce
  have "map isl (fst ?run) = [False, False]" by code_simp
  then have "\<not> isl (rs ! 0)" unfolding run by (cases rs) auto
  moreover have "height (empty_db ()) 4663 = None" by (simp add: height_def find_head_def empty_db_def)
  ultimately have "height t 4663 = Some 7"
    using ChainSync_delivery_order_irrelevant [OF empty_db_ok run] by (auto simp: sample_block_def zero_BlockRef_def)
  with run show ?thesis by simp
qed

end
