(* ===== verification/DomainHealth.thy ===== *)
theory DomainHealth
  imports GoStrings "HOL-Library.Multiset"
begin

text \<open>
  \<open>internal/domain/health.go\<close>: component health, the report, and its aggregation.
\<close>

type_synonym HealthStatus = string

definition HealthUp :: HealthStatus where [go_consts]: "HealthUp = ''up''"

definition HealthDegraded :: HealthStatus where [go_consts]: "HealthDegraded = ''degraded''"

definition HealthDown :: HealthStatus where [go_consts]: "HealthDown = ''down''"

record ComponentHealth =
  CH_Name :: string
  CH_Status :: HealthStatus
  CH_Latency :: duration
  CH_LatencyMS :: int
  CH_Error :: string
  CH_Details :: "(string \<times> string) list"

record HealthReport =
  HR_Status :: HealthStatus
  HR_CheckedAt :: time
  HR_Version :: string
  HR_Components :: "ComponentHealth list"

text \<open>The loop of \<open>Aggregate\<close>: it returns at the first component that is down.\<close>

fun aggregate_loop :: "HealthStatus \<Rightarrow> ComponentHealth list \<Rightarrow> HealthStatus" where
  "aggregate_loop worst [] = worst"
| "aggregate_loop worst (c # cs) =
     (if CH_Status c = HealthDown then HealthDown
      else if CH_Status c = HealthDegraded then aggregate_loop HealthDegraded cs
      else aggregate_loop worst cs)"

definition Aggregate :: "ComponentHealth list \<Rightarrow> HealthStatus" where
  "Aggregate components = aggregate_loop HealthUp components"

text \<open>How bad a status is: an unknown status counts as up, as the switch has no case for it.\<close>

definition severity :: "HealthStatus \<Rightarrow> nat" where
  "severity st = (if st = HealthDown then 2 else if st = HealthDegraded then 1 else 0)"

lemma severity_le: "severity st \<le> 2"
  by (simp add: severity_def)

lemma severity_consts [simp]:
  "severity HealthUp = 0" "severity HealthDegraded = 1" "severity HealthDown = 2"
  by (simp_all add: severity_def go_consts)

lemma fold_max_top: "fold max (map severity sts) 2 = 2"
  by (induction sts) (simp_all add: severity_le max_absorb2)

lemma severity_aggregate_loop:
  "severity w < 2 \<Longrightarrow> severity (aggregate_loop w cs) = fold max (map severity (map CH_Status cs)) (severity w)"
proof (induction cs arbitrary: w)
  case (Cons c cs)
  consider (down) "CH_Status c = HealthDown" | (degraded) "CH_Status c = HealthDegraded"
    | (other) "CH_Status c \<noteq> HealthDown" "CH_Status c \<noteq> HealthDegraded" by blast
  then show ?case
  proof cases
    case down
    with Cons.prems show ?thesis using fold_max_top [of "map CH_Status cs"] by (simp add: max_absorb1)
  next
    case degraded
    then have "CH_Status c \<noteq> HealthDown" by (simp add: go_consts)
    with degraded Cons show ?thesis by (simp add: max_absorb1)
  next
    case other
    then have "severity (CH_Status c) = 0" by (simp add: severity_def)
    with other Cons show ?thesis by simp
  qed
qed simp

lemma Aggregate_values: "Aggregate cs \<in> {HealthUp, HealthDegraded, HealthDown}"
proof -
  have "aggregate_loop w cs \<in> {w, HealthDegraded, HealthDown}" for w
    by (induction cs arbitrary: w) auto
  then show ?thesis by (auto simp: Aggregate_def)
qed

lemma severity_inj:
  "x \<in> {HealthUp, HealthDegraded, HealthDown} \<Longrightarrow> y \<in> {HealthUp, HealthDegraded, HealthDown} \<Longrightarrow>
   severity x = severity y \<Longrightarrow> x = y"
  by auto

lemma severity_Aggregate: "severity (Aggregate cs) = Max (insert 0 (severity ` CH_Status ` set cs))"
proof -
  have "Max (set (0 # map severity (map CH_Status cs))) = fold max (map severity (map CH_Status cs)) 0"
    by (rule Max.set_eq_fold)
  then show ?thesis by (simp add: Aggregate_def severity_aggregate_loop image_image)
qed

text \<open>
  The aggregate is the worst status of the components (down over degraded over up, up
  for no component), so the order in which the probes are listed does not matter.
\<close>

theorem Aggregate_worst:
  "Aggregate cs \<in> {HealthUp, HealthDegraded, HealthDown}
   \<and> severity (Aggregate cs) = Max (insert 0 (severity ` CH_Status ` set cs))
   \<and> (mset cs' = mset cs \<longrightarrow> Aggregate cs' = Aggregate cs)"
proof -
  have "Aggregate cs' = Aggregate cs" if "mset cs' = mset cs"
    using mset_eq_setD [OF that] Aggregate_values
    by (intro severity_inj) (simp_all add: severity_Aggregate)
  then show ?thesis using Aggregate_values severity_Aggregate by blast
qed

definition sample_health :: "HealthStatus \<Rightarrow> ComponentHealth" where
  "sample_health st = \<lparr>CH_Name = ''redis'', CH_Status = st, CH_Latency = 0, CH_LatencyMS = 0,
     CH_Error = [], CH_Details = []\<rparr>"

theorem Aggregate_worst_witness:
  "Aggregate [sample_health HealthDown, sample_health HealthDegraded]
   = Aggregate [sample_health HealthDegraded, sample_health HealthDown]"
  using Aggregate_worst [of "[sample_health HealthDegraded, sample_health HealthDown]"
      "[sample_health HealthDown, sample_health HealthDegraded]"]
  by (simp add: add_mset_commute)

end
