(* ===== verification/HealthChecker.thy ===== *)
theory HealthChecker
  imports ChainSync DomainHealth
begin

text \<open>
  \<open>internal/application/health.go\<close>: the probes of the dependencies, run concurrently, and
  the report they are collected into. The order in which the goroutines run is an argument,
  so that what is proved holds for every schedule. \<open>rfc3339\<close> is the layout of \<open>time.Format\<close>.
\<close>

section \<open>Decimal text without strconv\<close>

text \<open>\<open>itoa\<close> fills a buffer of twenty bytes from its end.\<close>

lemma word_div_10_less: "v \<noteq> 0 \<Longrightarrow> unat (v div 10 :: u64) < unat v"
  by (simp add: unat_div unat_gt_0)

function itoa_loop :: "u64 \<Rightarrow> string \<Rightarrow> string" where
  "itoa_loop v buf = (if v = 0 then buf else itoa_loop (v div 10) (digit_char (unat (v mod 10)) # buf))"
  by pat_completeness auto
termination
  by (relation "measure (\<lambda>(v, buf). unat v)") (simp_all add: word_div_10_less)

declare itoa_loop.simps [simp del]

definition itoa :: "u64 \<Rightarrow> string" where
  "itoa v = (if v = 0 then ''0'' else itoa_loop v [])"

definition btoa :: "bool \<Rightarrow> string" where
  "btoa b = (if b then ''true'' else ''false'')"

lemma itoa_loop_dec: "v \<noteq> 0 \<Longrightarrow> itoa_loop v buf = dec_nat (unat v) @ buf"
proof (induction v buf rule: itoa_loop.induct)
  case (1 v buf)
  have d: "unat (v div 10) = unat v div 10" "unat (v mod 10) = unat v mod 10"
    by (simp_all add: unat_div unat_mod)
  show ?case
  proof (cases "v div 10 = 0")
    case True
    then have "unat v div 10 = 0" using d(1) by simp
    then have small: "unat v < 10" by simp
    have "itoa_loop v buf = digit_char (unat v mod 10) # buf"
      using 1(2) True d by (subst itoa_loop.simps) (simp add: itoa_loop.simps)
    with small show ?thesis by (subst dec_nat.simps) simp
  next
    case False
    then have big: "\<not> unat v < 10" using d(1) by (metis div_less unat_eq_0)
    have "itoa_loop v buf = dec_nat (unat v div 10) @ digit_char (unat v mod 10) # buf"
      using 1 False d by (subst itoa_loop.simps) simp
    with big show ?thesis by (subst dec_nat.simps) simp
  qed
qed

text \<open>
  The hand-written \<open>itoa\<close> prints every 64-bit number in decimal, and never more than
  twenty digits, so it never writes outside its buffer.
\<close>

theorem itoa_decimal: "itoa v = dec_nat (unat v) \<and> length (itoa v) \<le> 20"
proof -
  have "dec_nat 0 = ''0''" by code_simp
  then have eq: "itoa v = dec_nat (unat v)"
    by (cases "v = 0") (simp_all add: itoa_def itoa_loop_dec)
  have "unat v < 2 ^ 64" using unsigned_less [of v] by simp
  then have "unat v < 10 ^ Suc 19" by simp
  with eq dec_nat_length [of "unat v" 19] show ?thesis by simp
qed

section \<open>The checker\<close>

record 's HeadWatcher =
  HW_Last :: "'s \<Rightarrow> BlockRef \<times> time"
  HW_Connected :: "'s \<Rightarrow> bool"

record 's HealthChecker =
  hc_postgres :: "('s, unit) op option"
  hc_redis :: "('s, unit) op option"
  hc_chain :: "'s ChainProbe option"
  hc_head :: "'s HeadWatcher option"
  hc_expectedChain :: u64
  hc_staleAfter :: duration
  hc_version :: string
  hc_now :: "'s \<Rightarrow> time"

definition NewHealthChecker ::
    "('s, unit) op option \<Rightarrow> ('s, unit) op option \<Rightarrow> 's ChainProbe option \<Rightarrow> 's HeadWatcher option \<Rightarrow>
     u64 \<Rightarrow> duration \<Rightarrow> string \<Rightarrow> ('s \<Rightarrow> time) option \<Rightarrow> ('s \<Rightarrow> time) \<Rightarrow> 's HealthChecker" where
  "NewHealthChecker postgres redis chain hd_watcher expectedChain staleAfter version now clock =
     \<lparr>hc_postgres = postgres, hc_redis = redis, hc_chain = chain, hc_head = hd_watcher,
      hc_expectedChain = expectedChain, hc_staleAfter = (if staleAfter \<le> 0 then 2 * minute else staleAfter),
      hc_version = version, hc_now = (case now of None \<Rightarrow> clock | Some f \<Rightarrow> f)\<rparr>"

definition Milliseconds :: "duration \<Rightarrow> int" where
  "Milliseconds d = sgn d * (\<bar>d\<bar> div millisecond)"

definition up :: "string \<Rightarrow> ComponentHealth" where
  "up name = \<lparr>CH_Name = name, CH_Status = HealthUp, CH_Latency = 0, CH_LatencyMS = 0, CH_Error = [], CH_Details = []\<rparr>"

definition pingComponent :: "string \<Rightarrow> ('s, unit) op \<Rightarrow> ('s \<Rightarrow> time) \<Rightarrow> 's \<Rightarrow> ComponentHealth \<times> 's" where
  "pingComponent name p now s =
     (case p s of (r, s') \<Rightarrow>
        (let latency = time_sub (now s') (now s);
             c = (up name)\<lparr>CH_Latency := latency, CH_LatencyMS := Milliseconds latency\<rparr>
         in (case r of Inl err \<Rightarrow> c\<lparr>CH_Status := HealthDown, CH_Error := Error err\<rparr> | Inr _ \<Rightarrow> c, s')))"

text \<open>
  The deferred function sets the latency of the local variable after \<open>return c\<close> has copied
  it into the (unnamed) result, so the result's latency stays zero.
\<close>

definition checkChain :: "(time \<Rightarrow> string) \<Rightarrow> 's HealthChecker \<Rightarrow> 's ChainProbe \<Rightarrow> 's \<Rightarrow> ComponentHealth \<times> 's" where
  "checkChain rfc3339 h chain s =
     (case Probe_chain_id chain s of
        (Inl err, s1) \<Rightarrow> ((up ''chain_rpc'')\<lparr>CH_Status := HealthDown, CH_Error := Error err\<rparr>, s1)
      | (Inr i, s1) \<Rightarrow>
          (let c = (up ''chain_rpc'')\<lparr>CH_Details := [(''chain_id'', itoa i), (''chain_name'', ChainName i)]\<rparr> in
           if hc_expectedChain h \<noteq> 0 \<and> i \<noteq> hc_expectedChain h then
             (c\<lparr>CH_Status := HealthDown, CH_Error := sentinel_text ErrWrongChain,
                CH_Details := CH_Details c @ [(''expected_chain_id'', itoa (hc_expectedChain h))]\<rparr>, s1)
           else (case Probe_latest_block chain s1 of
               (Inl err, s2) \<Rightarrow> (c\<lparr>CH_Status := HealthDown, CH_Error := Error err\<rparr>, s2)
             | (Inr block, s2) \<Rightarrow>
                 (let c = c\<lparr>CH_Details := CH_Details c @ [(''last_block'', itoa (Block_Number block)),
                              (''last_block_time'', rfc3339 (Block_Time block))]\<rparr>
                  in (if IsStale block (hc_now h s2) (hc_staleAfter h)
                      then c\<lparr>CH_Status := HealthDegraded, CH_Error := ''chain head is stale''\<rparr> else c, s2)))))"

definition checkHead :: "(time \<Rightarrow> string) \<Rightarrow> 's HealthChecker \<Rightarrow> 's HeadWatcher \<Rightarrow> 's \<Rightarrow> ComponentHealth \<times> 's" where
  "checkHead rfc3339 h w s =
     (case HW_Last w s of (lastRef, seenAt) \<Rightarrow>
        (let c = (up ''chain_ws'')\<lparr>CH_Details := [(''connected'', btoa (HW_Connected w s))]\<rparr> in
         if \<not> HW_Connected w s then (c\<lparr>CH_Status := HealthDown, CH_Error := ''websocket not connected''\<rparr>, s)
         else if seenAt = zero_time then
           (c\<lparr>CH_Status := HealthDegraded, CH_Error := ''no block head received yet''\<rparr>, s)
         else (let c = c\<lparr>CH_Details := CH_Details c @ [(''last_block'', itoa (Block_Number lastRef)), (''last_head_at'', rfc3339 seenAt)]\<rparr>
               in (if time_sub (hc_now h s) seenAt > hc_staleAfter h
                   then c\<lparr>CH_Status := HealthDegraded, CH_Error := ''no block head received recently''\<rparr> else c, s))))"

definition jobs :: "(time \<Rightarrow> string) \<Rightarrow> 's HealthChecker \<Rightarrow> ('s \<Rightarrow> ComponentHealth \<times> 's) list" where
  "jobs rfc3339 h =
     (case hc_postgres h of None \<Rightarrow> [] | Some p \<Rightarrow> [pingComponent ''postgres'' p (hc_now h)])
   @ (case hc_redis h of None \<Rightarrow> [] | Some p \<Rightarrow> [pingComponent ''redis'' p (hc_now h)])
   @ (case hc_chain h of None \<Rightarrow> [] | Some c \<Rightarrow> [checkChain rfc3339 h c])
   @ (case hc_head h of None \<Rightarrow> [] | Some w \<Rightarrow> [checkHead rfc3339 h w])"

text \<open>The goroutines in the order of the schedule; each writes its own element of the results.\<close>

fun run_jobs :: "('s \<Rightarrow> ComponentHealth \<times> 's) list \<Rightarrow> nat list \<Rightarrow> ComponentHealth list \<Rightarrow> 's \<Rightarrow> ComponentHealth list \<times> 's" where
  "run_jobs js [] results s = (results, s)"
| "run_jobs js (i # is) results s =
     (case (js ! i) s of (c, s') \<Rightarrow> run_jobs js is (results[i := c]) s')"

definition Check :: "(time \<Rightarrow> string) \<Rightarrow> nat list \<Rightarrow> 's HealthChecker \<Rightarrow> 's \<Rightarrow> HealthReport \<times> 's" where
  "Check rfc3339 schedule h s =
     (let js = jobs rfc3339 h in
      case run_jobs js schedule (replicate (length js) (up [])) s of (results, s') \<Rightarrow>
        (\<lparr>HR_Status = Aggregate results, HR_CheckedAt = hc_now h s', HR_Version = hc_version h,
          HR_Components = results\<rparr>, s'))"

section \<open>The report\<close>

definition component_names :: "'s HealthChecker \<Rightarrow> string list" where
  "component_names h =
     (case hc_postgres h of None \<Rightarrow> [] | Some p \<Rightarrow> [''postgres''])
   @ (case hc_redis h of None \<Rightarrow> [] | Some p \<Rightarrow> [''redis''])
   @ (case hc_chain h of None \<Rightarrow> [] | Some c \<Rightarrow> [''chain_rpc''])
   @ (case hc_head h of None \<Rightarrow> [] | Some w \<Rightarrow> [''chain_ws''])"

lemma probe_names:
  "CH_Name (fst (pingComponent n p now s)) = n"
  "CH_Name (fst (checkChain F h ch s)) = ''chain_rpc''"
  "CH_Name (fst (checkHead F h w s)) = ''chain_ws''"
  by (auto simp: pingComponent_def checkChain_def checkHead_def up_def Let_def split: prod.splits sum.splits)

lemma job_names: "i < length (jobs F h) \<Longrightarrow> CH_Name (fst ((jobs F h ! i) s)) = component_names h ! i"
  by (auto simp: jobs_def component_names_def nth_Cons' probe_names split: option.splits if_splits)

lemma length_jobs: "length (jobs F h) = length (component_names h)"
  by (auto simp: jobs_def component_names_def split: option.splits)

lemma run_jobs_names:
  assumes "\<And>i s. i < length js \<Longrightarrow> CH_Name (fst ((js ! i) s)) = names ! i"
    and "set is \<subseteq> {..<length js}" "length results = length js"
    and "\<And>i. i < length js \<Longrightarrow> i \<notin> set is \<Longrightarrow> CH_Name (results ! i) = names ! i"
  shows "length (fst (run_jobs js is results s)) = length js
    \<and> (\<forall>i < length js. CH_Name (fst (run_jobs js is results s) ! i) = names ! i)"
  using assms(2-4)
proof (induction "is" arbitrary: results s)
  case (Cons i "is")
  obtain c s' where c: "(js ! i) s = (c, s')" by fastforce
  with Cons.prems(1) assms(1) [of i s] have name: "CH_Name c = names ! i" by simp
  have "length (fst (run_jobs js is (results[i := c]) s')) = length js
    \<and> (\<forall>k < length js. CH_Name (fst (run_jobs js is (results[i := c]) s') ! k) = names ! k)"
    by (rule Cons.IH) (use Cons.prems name in \<open>auto simp: nth_list_update\<close>)
  with c show ?case by simp
qed simp

lemma health_distinct [simp]:
  "HealthUp \<noteq> HealthDown" "HealthDown \<noteq> HealthUp" "HealthUp \<noteq> HealthDegraded"
  "HealthDegraded \<noteq> HealthUp" "HealthDown \<noteq> HealthDegraded" "HealthDegraded \<noteq> HealthDown"
  by (simp_all add: go_consts)

lemma aggregate_loop_down:
  "w \<noteq> HealthDown \<Longrightarrow> aggregate_loop w cs = HealthDown \<longleftrightarrow> (\<exists>c \<in> set cs. CH_Status c = HealthDown)"
  by (induction cs arbitrary: w) simp_all

lemma aggregate_loop_up:
  "aggregate_loop w cs = HealthUp \<longleftrightarrow>
     w = HealthUp \<and> (\<forall>c \<in> set cs. CH_Status c \<noteq> HealthDown \<and> CH_Status c \<noteq> HealthDegraded)"
  by (induction cs arbitrary: w) simp_all

text \<open>
  C39. Under every schedule of the probes, the report lists exactly the configured
  components, in their fixed order; it is down exactly when some component is down and up
  exactly when none is down or degraded.
\<close>

theorem Check_every_schedule:
  assumes "set schedule = {..<length (component_names h)}"
  shows "map CH_Name (HR_Components (fst (Check F schedule h s))) = component_names h
    \<and> (HR_Status (fst (Check F schedule h s)) = HealthDown \<longleftrightarrow>
         (\<exists>c \<in> set (HR_Components (fst (Check F schedule h s))). CH_Status c = HealthDown))
    \<and> (HR_Status (fst (Check F schedule h s)) = HealthUp \<longleftrightarrow>
         (\<forall>c \<in> set (HR_Components (fst (Check F schedule h s))). CH_Status c \<notin> {HealthDown, HealthDegraded}))"
proof -
  let ?js = "jobs F h"
  obtain results t where run: "run_jobs ?js schedule (replicate (length ?js) (up [])) s = (results, t)" by fastforce
  then have rep: "HR_Components (fst (Check F schedule h s)) = results" "HR_Status (fst (Check F schedule h s)) = Aggregate results"
    by (simp_all add: Check_def Let_def)
  have "length results = length ?js \<and> (\<forall>i < length ?js. CH_Name (results ! i) = component_names h ! i)"
    using run_jobs_names [of ?js "component_names h" schedule "replicate (length ?js) (up [])" s, OF job_names] assms run
    by (simp add: length_jobs)
  then have "map CH_Name results = component_names h" by (auto simp: list_eq_iff_nth_eq length_jobs)
  then show ?thesis
    using rep by (simp add: Aggregate_def aggregate_loop_down aggregate_loop_up)
qed

text \<open>
  A node on another network than the expected one makes the chain component down,
  and a stale head on the right network makes it degraded.
\<close>

theorem checkChain_verdict:
  assumes "Probe_chain_id chain s = (Inr i, s1)" "hc_expectedChain h \<noteq> 0"
  shows "(i \<noteq> hc_expectedChain h \<longrightarrow> CH_Status (fst (checkChain F h chain s)) = HealthDown)
    \<and> (\<forall>b s2. i = hc_expectedChain h \<longrightarrow> Probe_latest_block chain s1 = (Inr b, s2) \<longrightarrow>
         CH_Status (fst (checkChain F h chain s))
           = (if IsStale b (hc_now h s2) (hc_staleAfter h) then HealthDegraded else HealthUp))"
  using assms by (auto simp: checkChain_def up_def Let_def)

definition sample_checker :: "pgdb HealthChecker" where
  "sample_checker = NewHealthChecker (Some (ok ())) (Some (throw (New ''redis is down''))) (Some sample_chain_probe) None
     46630 0 ''dev'' None (\<lambda>_. 0)"

theorem Check_every_schedule_witness:
  "map CH_Name (HR_Components (fst (Check (\<lambda>_. []) [2, 0, 1] sample_checker (empty_db ())))) = [''postgres'', ''redis'', ''chain_rpc'']
   \<and> HR_Status (fst (Check (\<lambda>_. []) [2, 0, 1] sample_checker (empty_db ()))) = HealthDown"
proof -
  have n: "component_names sample_checker = [''postgres'', ''redis'', ''chain_rpc'']"
    by (simp add: sample_checker_def NewHealthChecker_def component_names_def)
  have "set [2, 0, 1 :: nat] = {..<length (component_names sample_checker)}" unfolding n by auto
  from Check_every_schedule [OF this, of "\<lambda>_. []" "empty_db ()"] n show ?thesis
    by (auto simp: sample_checker_def NewHealthChecker_def Check_def jobs_def pingComponent_def throw_def up_def Let_def split: prod.splits)
qed

theorem checkChain_verdict_witness:
  "CH_Status (fst (checkChain (\<lambda>_. []) sample_checker sample_chain_probe (empty_db ()))) = HealthDown"
proof -
  have "Probe_chain_id sample_chain_probe (empty_db ()) = (Inr 4663, empty_db ())"
    by (simp add: sample_chain_probe_def)
  from checkChain_verdict [OF this, of sample_checker "\<lambda>_. []"] show ?thesis
    by (simp add: sample_checker_def NewHealthChecker_def)
qed

text \<open>
  The chain component always reports a latency of zero, however long the node took:
  the measurement is written after the result has been returned.
\<close>

theorem checkChain_latency_lost:
  "CH_Latency (fst (checkChain F h chain s)) = 0 \<and> CH_LatencyMS (fst (checkChain F h chain s)) = 0"
  by (auto simp: checkChain_def up_def Let_def split: prod.splits sum.splits)

end
