(* ===== verification/HttpApi.thy ===== *)
theory HttpApi
  imports MiniAppAuth HealthChecker
begin

text \<open>
  \<open>internal/httpapi\<close>: the HTTP surface. A handler takes the request and the state and gives
  back the response and the state it leaves. Matching a request to a route is the chi
  library's; the routes the program mounts are the datatype \<open>route\<close>. Decoding a request
  body and the layout of times are parameters.
\<close>

section \<open>Responses\<close>

datatype json =
    JStr string
  | JBool bool
  | JInt int
  | JFloat float64
  | JArr "json list"
  | JObj "(string \<times> json) list"

text \<open>\<open>encoding/json\<close> refuses a float that is not finite.\<close>

fun json_encodable :: "json \<Rightarrow> bool" where
  "json_encodable (JFloat x) \<longleftrightarrow> (case x of Fin _ \<Rightarrow> True | _ \<Rightarrow> False)"
| "json_encodable (JArr xs) \<longleftrightarrow> list_all json_encodable xs"
| "json_encodable (JObj kvs) \<longleftrightarrow> list_all (\<lambda>(k, v). json_encodable v) kvs"
| "json_encodable _ \<longleftrightarrow> True"

text \<open>A body that cannot be encoded is dropped after the status has been sent.\<close>

record response =
  rs_code :: nat
  rs_body :: "json option"

definition writeJSON :: "nat \<Rightarrow> json \<Rightarrow> response" where
  "writeJSON code body = \<lparr>rs_code = code, rs_body = (if json_encodable body then Some body else None)\<rparr>"

definition writeError :: "nat \<Rightarrow> string \<Rightarrow> response" where
  "writeError code message = writeJSON code (JObj [(''error'', JStr message)])"

definition writeWalletError :: "error \<Rightarrow> response" where
  "writeWalletError err =
     (if errors_Is err (Sentinel ErrWalletNotOwned) \<or> errors_Is err (Sentinel PostgresErrNotFound)
      then writeError 404 ''wallet not found''
      else writeError 500 ''request failed'')"

definition policyJSON :: "WalletPolicy \<Rightarrow> json" where
  "policyJSON p = JObj
     [(''max_position_percent'', JFloat (Pol_MaxPositionPercent p)),
      (''max_open_positions'', JInt (Pol_MaxOpenPositions p)),
      (''daily_loss_limit_percent'', JFloat (Pol_DailyLossLimitPercent p)),
      (''stop_loss_percent'', JFloat (Pol_StopLossPercent p)),
      (''capital_recovery_percent'', JFloat (Pol_CapitalRecoveryPercent p)),
      (''max_slippage_bps'', JInt (Pol_MaxSlippageBPS p)),
      (''min_liquidity_usd'', JFloat (Pol_MinLiquidityUSD p)),
      (''trading_enabled'', JBool (Pol_TradingEnabled p))]"

definition walletJSON :: "(time \<Rightarrow> string) \<Rightarrow> WalletView \<Rightarrow> json" where
  "walletJSON rfc3339 v =
     (let w = View_Wallet v in JObj
     ([(''id'', JStr (Wallet_ID w)), (''address'', JStr (Wallet_Address w)),
       (''chain_id'', JInt (uint (Wallet_ChainID w))), (''chain_name'', JStr (ChainName (Wallet_ChainID w))),
       (''role'', JStr (Wallet_Role w)), (''status'', JStr (Wallet_Status w)), (''label'', JStr (Wallet_Label w)),
       (''created_at'', JStr (rfc3339 (Wallet_CreatedAt w)))]
      @ (case Wallet_VerifiedAt w of None \<Rightarrow> [] | Some tm \<Rightarrow> [(''verified_at'', JStr (rfc3339 tm))])
      @ (if View_BalanceError v \<noteq> [] then [(''balance_available'', JBool False)]
         else if \<not> Wei_IsZero (View_Balance v) \<or> IsUsable w
         then [(''balance_available'', JBool True), (''balance_wei'', JStr (Wei_String (View_Balance v))),
               (''balance_eth'', JStr (Ether (View_Balance v)))]
         else [])
      @ (if Pol_WalletID (View_Policy v) \<noteq> [] then [(''policy'', policyJSON (View_Policy v))] else [])))"

section \<open>Decimal text of a signed number\<close>

text \<open>The loop divides while the value is positive; negating the least value gives itself.\<close>

function itoa64_loop :: "i64 \<Rightarrow> string \<Rightarrow> string" where
  "itoa64_loop v buf = (if 0 < sint v then itoa64_loop (v div 10) (digit_char (unat (v mod 10)) # buf) else buf)"
  by pat_completeness auto
termination
  by (relation "measure (\<lambda>(v, buf). unat v)") (auto intro!: word_div_10_less)

declare itoa64_loop.simps [simp del]

definition itoa64 :: "i64 \<Rightarrow> string" where
  "itoa64 v =
     (if v = 0 then ''0''
      else let neg = sint v < 0; v = (if neg then - v else v); buf = itoa64_loop v []
           in if neg then CHR ''-'' # buf else buf)"

section \<open>The Mini App\<close>

record 's MiniAppDeps =
  Mini_Auth :: "'s MiniAppAuth option"
  Mini_Wallets :: "'s WalletService"
  Mini_ChainID :: u64

text \<open>What the code reads of a request: two headers and the body.\<close>

record http_request =
  rq_init_data :: string
  rq_authorization :: string
  rq_body :: string

datatype route = PostAuth | GetWallets | PostWallets | GetWallet string | PutPolicy string

record link_body =
  lb_address :: string
  lb_role :: string
  lb_label :: string

text \<open>
  \<open>decodeJSON\<close>: a decoder that refuses unknown fields, on a reader limited to the given
  number of bytes. A policy body is decoded to its eight limits, as a policy whose other
  fields are zero.
\<close>

record decoders =
  decode_link :: "int \<Rightarrow> string \<Rightarrow> error + link_body"
  decode_policy :: "int \<Rightarrow> string \<Rightarrow> error + WalletPolicy"

definition body_limit :: int where
  "body_limit = 64 * 1024"

definition limits_only :: "WalletPolicy \<Rightarrow> WalletPolicy" where
  "limits_only p = p\<lparr>Pol_ID := [], Pol_WalletID := [], Pol_CreatedAt := zero_time, Pol_UpdatedAt := zero_time\<rparr>"

type_synonym 's handler = "Identity \<Rightarrow> 's \<Rightarrow> response \<times> 's"

definition actor_of :: "Identity \<Rightarrow> string" where
  "actor_of idn = ''telegram:'' @ itoa64 (TU_TelegramID (Id_Telegram idn))"

definition post_auth :: "'s MiniAppDeps \<Rightarrow> 's handler" where
  "post_auth d idn s =
     (writeJSON 200 (JObj
        [(''user_id'', JStr (User_ID (Id_User idn))), (''telegram_id'', JInt (sint (TU_TelegramID (Id_Telegram idn)))),
         (''display_name'', JStr (DisplayName (Id_Telegram idn))), (''first_contact'', JBool (Id_FirstContact idn)),
         (''chain_id'', JInt (uint (Mini_ChainID d))), (''chain_name'', JStr (ChainName (Mini_ChainID d))),
         (''trading_available'', JBool False)]), s)"

definition get_wallets :: "(time \<Rightarrow> string) \<Rightarrow> 's MiniAppDeps \<Rightarrow> 's handler" where
  "get_wallets rfc3339 d idn s =
     (case WalletService_List (Mini_Wallets d) (User_ID (Id_User idn)) s of
        (Inl err, s') \<Rightarrow> (writeError 500 ''could not list wallets'', s')
      | (Inr vs, s') \<Rightarrow> (writeJSON 200 (JObj [(''wallets'', JArr (map (walletJSON rfc3339) vs))]), s'))"

definition post_wallets :: "unicode \<Rightarrow> decoders \<Rightarrow> (time \<Rightarrow> string) \<Rightarrow> 's MiniAppDeps \<Rightarrow> http_request \<Rightarrow> 's handler" where
  "post_wallets U J rfc3339 d req idn s =
     (case decode_link J body_limit (rq_body req) of
        Inl err \<Rightarrow> (writeError 400 ''invalid request body'', s)
      | Inr body \<Rightarrow>
          (let role = ToLower U (TrimSpace (lb_role body)); role = (if role = [] then WalletRoleOwner else role) in
           if \<not> WalletRole_Valid role then (writeError 400 ''invalid wallet role'', s)
           else case WalletService_Link U (Mini_Wallets d)
               \<lparr>Req_UserID = User_ID (Id_User idn), Req_Address = lb_address body, Req_Role = role,
                Req_Label = lb_label body, Req_ActorID = actor_of idn\<rparr> s of
             (Inr wallet, s') \<Rightarrow> (writeJSON 201 (walletJSON rfc3339 (zero_view wallet)), s')
           | (Inl err, s') \<Rightarrow>
               (if errors_Is err (Sentinel ErrWalletAlreadyLinked) then writeError 409 ''wallet already linked''
                else if Contains (Error err) ''invalid evm address'' \<or> Contains (Error err) ''zero address''
                then writeError 400 (Error err)
                else writeError 500 ''could not link wallet'', s')))"

definition get_wallet :: "(time \<Rightarrow> string) \<Rightarrow> 's MiniAppDeps \<Rightarrow> string \<Rightarrow> 's handler" where
  "get_wallet rfc3339 d walletID idn s =
     (case WalletService_Get (Mini_Wallets d) (User_ID (Id_User idn)) walletID s of
        (Inl err, s') \<Rightarrow> (writeWalletError err, s')
      | (Inr view, s') \<Rightarrow> (writeJSON 200 (walletJSON rfc3339 view), s'))"

definition put_policy :: "decoders \<Rightarrow> 's MiniAppDeps \<Rightarrow> string \<Rightarrow> http_request \<Rightarrow> 's handler" where
  "put_policy J d walletID req idn s =
     (case decode_policy J body_limit (rq_body req) of
        Inl err \<Rightarrow> (writeError 400 ''invalid request body'', s)
      | Inr body \<Rightarrow>
          (case WalletService_UpdatePolicy (Mini_Wallets d) (User_ID (Id_User idn)) walletID (limits_only body)
              (actor_of idn) s of
             (Inr p, s') \<Rightarrow> (writeJSON 200 (policyJSON p), s')
           | (Inl err, s') \<Rightarrow>
               (if errors_Is err (Sentinel ErrWalletNotOwned) \<or> errors_Is err (Sentinel PostgresErrNotFound)
                then writeError 404 ''wallet not found''
                else if Contains (Error err) ''invalid policy'' then writeError 422 (Error err)
                else writeError 500 ''could not update policy'', s')))"

definition requireInitData :: "'s MiniAppAuth \<Rightarrow> http_request \<Rightarrow> 's handler \<Rightarrow> 's \<Rightarrow> response \<times> 's" where
  "requireInitData auth req nxt s =
     (let raw = (if rq_init_data req \<noteq> [] then rq_init_data req
                 else if HasPrefix (rq_authorization req) ''tma ''
                 then TrimSpace (TrimPrefix (rq_authorization req) ''tma '') else []) in
      if raw = [] then (writeError 401 ''missing init data'', s)
      else case Authenticate auth raw s of
        (Inl err, s') \<Rightarrow> (writeError 401 ''unauthorized'', s')
      | (Inr identity, s') \<Rightarrow> nxt identity s')"

text \<open>The mounted routes; without an authenticator there are none.\<close>

definition miniapp_handler :: "unicode \<Rightarrow> decoders \<Rightarrow> (time \<Rightarrow> string) \<Rightarrow> 's MiniAppDeps \<Rightarrow> route \<Rightarrow> http_request \<Rightarrow> 's handler" where
  "miniapp_handler U J rfc3339 d rt req = (case rt of
       PostAuth \<Rightarrow> post_auth d
     | GetWallets \<Rightarrow> get_wallets rfc3339 d
     | PostWallets \<Rightarrow> post_wallets U J rfc3339 d req
     | GetWallet i \<Rightarrow> get_wallet rfc3339 d i
     | PutPolicy i \<Rightarrow> put_policy J d i req)"

definition mountMiniApp :: "unicode \<Rightarrow> decoders \<Rightarrow> (time \<Rightarrow> string) \<Rightarrow> 's MiniAppDeps \<Rightarrow>
    (route \<Rightarrow> http_request \<Rightarrow> 's \<Rightarrow> response \<times> 's) option" where
  "mountMiniApp U J rfc3339 d = map_option
     (\<lambda>auth rt req. requireInitData auth req (miniapp_handler U J rfc3339 d rt req)) (Mini_Auth d)"

section \<open>Operational routes\<close>

definition componentJSON :: "ComponentHealth \<Rightarrow> json" where
  "componentJSON c = JObj
     ([(''name'', JStr (CH_Name c)), (''status'', JStr (CH_Status c)), (''latency_ms'', JInt (CH_LatencyMS c))]
      @ (if CH_Error c \<noteq> [] then [(''error'', JStr (CH_Error c))] else [])
      @ (if CH_Details c \<noteq> [] then [(''details'', JObj (map (\<lambda>(k, v). (k, JStr v)) (CH_Details c)))] else []))"

definition reportJSON :: "(time \<Rightarrow> string) \<Rightarrow> HealthReport \<Rightarrow> json" where
  "reportJSON rfc3339nano r = JObj
     [(''status'', JStr (HR_Status r)), (''checked_at'', JStr (rfc3339nano (HR_CheckedAt r))),
      (''version'', JStr (HR_Version r)), (''components'', JArr (map componentJSON (HR_Components r)))]"

definition healthz :: "'s \<Rightarrow> response \<times> 's" where
  "healthz s = (writeJSON 200 (JObj [(''status'', JStr ''ok'')]), s)"

definition readyz :: "(time \<Rightarrow> string) \<Rightarrow> (time \<Rightarrow> string) \<Rightarrow> nat list \<Rightarrow> 's HealthChecker \<Rightarrow> 's \<Rightarrow> response \<times> 's" where
  "readyz rfc3339 rfc3339nano sched h s =
     (case Check rfc3339 sched h s of (report, s') \<Rightarrow>
        (writeJSON (if HR_Status report = HealthDown then 503 else 200) (reportJSON rfc3339nano report), s'))"

section \<open>Printing\<close>

lemma uint_i64: "uint (v :: i64) = sint v mod 2 ^ 64"
  by (simp add: uint_sint take_bit_eq_mod)

lemma sint_i64_range: "- (2 ^ 63) \<le> sint (v :: i64)" "sint (v :: i64) < 2 ^ 63"
  using sint_greater_eq [of v] sint_less [of v] by simp_all

lemma sint_nonneg_iff: "0 \<le> sint (v :: i64) \<longleftrightarrow> uint v < 2 ^ 63"
proof
  assume "0 \<le> sint v"
  then show "uint v < 2 ^ 63" using sint_i64_range [of v] by (simp add: uint_i64)
next
  assume *: "uint v < 2 ^ 63"
  show "0 \<le> sint v"
  proof (rule ccontr)
    assume "\<not> 0 \<le> sint v"
    then have "sint v mod 2 ^ 64 = sint v + 2 ^ 64"
      using sint_i64_range [of v] by (intro int_mod_pos_eq [where q = "- 1"]) simp_all
    with * \<open>\<not> 0 \<le> sint v\<close> sint_i64_range [of v] show False by (simp add: uint_i64)
  qed
qed

lemma sint_nonneg_uint: "0 \<le> sint (v :: i64) \<Longrightarrow> sint v = uint v"
  using sint_i64_range [of v] by (simp add: uint_i64)

lemma itoa64_loop_itoa: "0 \<le> sint v \<Longrightarrow> itoa64_loop v buf = itoa_loop v buf"
proof (induction v buf rule: itoa64_loop.induct)
  case (1 v buf)
  show ?case
  proof (cases "v = 0")
    case True
    then show ?thesis by (simp add: itoa64_loop.simps itoa_loop.simps)
  next
    case False
    with 1(2) have pos: "0 < sint v" by (metis order.order_iff_strict signed_eq_0_iff)
    have "uint (v div 10) \<le> uint v" by (simp add: word_le_def [symmetric] word_le_nat_alt unat_div)
    with 1(2) have "0 \<le> sint (v div 10)" by (simp add: sint_nonneg_iff)
    with 1(1) [OF pos] pos False show ?thesis by (subst itoa64_loop.simps, subst itoa_loop.simps) simp
  qed
qed

lemma itoa64_loop_pos: "0 < sint v \<Longrightarrow> itoa64_loop v [] = dec_int (sint v)"
proof -
  assume pos: "0 < sint v"
  then have "v \<noteq> 0" by auto
  with pos have "itoa64_loop v [] = dec_nat (unat v)" by (simp add: itoa64_loop_itoa itoa_loop_dec)
  moreover have "nat (sint v) = unat v" using pos sint_nonneg_uint [of v] by simp
  ultimately show ?thesis using pos by (simp add: dec_int_def)
qed

lemma sint_uminus_i64: "sint (v :: i64) \<noteq> - (2 ^ 63) \<Longrightarrow> sint (- v) = - sint v"
proof -
  assume ne: "sint v \<noteq> - (2 ^ 63)"
  have "sint (- v) = sint (word_of_int (- sint v) :: i64)" by simp
  also have "\<dots> = - sint v" unfolding sint_sbintrunc'
    using ne sint_i64_range [of v] by (intro signed_take_bit_int_eq_self) simp_all
  finally show ?thesis .
qed

text \<open>
  The hand-written \<open>itoa64\<close> prints every signed 64-bit number in decimal, except the least
  one, which negating leaves negative and which is printed as a lone minus sign.
\<close>

theorem itoa64_decimal:
  "itoa64 v = (if sint v = - (2 ^ 63) then ''-'' else dec_int (sint v))"
proof (cases "sint v < 0")
  case neg: True
  then have v: "v \<noteq> 0" by auto
  show ?thesis
  proof (cases "sint v = - (2 ^ 63)")
    case True
    have "v = word_of_int (sint v)" by simp
    also have "\<dots> = word_of_int (- (2 ^ 63))" by (simp only: True)
    finally have "- v = v" by (rule ssubst) simp
    have "itoa64 v = CHR ''-'' # itoa64_loop (- v) []" using neg v by (simp add: itoa64_def Let_def)
    also have "- v = v" by fact
    also have "itoa64_loop v [] = []" using neg by (subst itoa64_loop.simps) simp
    finally show ?thesis using True by simp
  next
    case False
    with neg sint_uminus_i64 [OF False] itoa64_loop_pos [of "- v"] v show ?thesis
      by (simp add: itoa64_def dec_int_def)
  qed
next
  case False
  show ?thesis
  proof (cases "v = 0")
    case True
    have "dec_nat 0 = ''0''" by code_simp
    with True show ?thesis by (simp add: itoa64_def dec_int_def)
  next
    case nz: False
    with False have "0 < sint v" by (metis linorder_neqE_linordered_idom signed_eq_0_iff)
    with nz itoa64_loop_pos show ?thesis by (simp add: itoa64_def)
  qed
qed

section \<open>What a request can change\<close>

text \<open>An operation keeps what its parts keep.\<close>

lemma keeps_Authorize:
  assumes "keeps P (EnsureTelegramUser (ob_users ob) tu)" "\<And>ev. keeps_fun P (Onboarding_recordAudit ob ev)"
  shows "keeps P (Authorize ob tu)"
  unfolding Authorize_def Let_def
  by (intro keeps_If keeps_throw keeps_after keeps_attempt assms)
    (auto intro!: keeps_If keeps_throw keeps_after assms simp: keeps_fun_def split: prod.splits dest: assms(2) [unfolded keeps_fun_def, rule_format])

lemma keeps_Authenticate:
  assumes "\<And>verify. ma_verifier m = Some verify \<Longrightarrow> keeps P (verify raw)" "\<And>tu. keeps P (Authorize (ma_onboarding m) tu)"
    and "\<And>ev. keeps_fun P (MiniAppAuth_recordAudit m ev)"
  shows "keeps P (Authenticate m raw)"
proof (cases "ma_verifier m")
  case None
  then show ?thesis by (simp add: Authenticate_def keeps_throw)
next
  case (Some verify)
  have "keeps P (attempt (verify raw) h k)" if "\<And>e. keeps P (h e)" "\<And>a. keeps P (k a)" for h k
    using that assms(1) [OF Some] by (rule keeps_attempt [rotated])
  then show ?thesis unfolding Authenticate_def Some option.case
    by (intro keeps_attempt keeps_If keeps_throw keeps_after keeps_ok assms Some)
qed

definition wallets_are :: "(string \<Rightarrow> Wallet option) \<Rightarrow> (string \<Rightarrow> WalletPolicy option) \<Rightarrow> 'z pgdb_scheme \<Rightarrow> bool" where
  "wallets_are W Q s \<longleftrightarrow> db_ok s \<and> wallet_at s = W \<and> policy_at s = Q"

lemma wallets_are_appended: "appended s t \<Longrightarrow> wallets_are W Q s \<Longrightarrow> wallets_are W Q t"
  using appended_at appended_db_ok by (auto simp: wallets_are_def)

lemma wallets_are_same: "same_db s t \<Longrightarrow> wallets_are W Q s \<Longrightarrow> wallets_are W Q t"
  using same_db_at db_ok_sameI by (auto simp: wallets_are_def)

lemma keeps_wallets_Ensure: "keeps (wallets_are W Q) (UserRepo_EnsureTelegramUser tu)"
proof (rule keepsI)
  fix s r t
  assume s: "wallets_are W Q s" and run: "UserRepo_EnsureTelegramUser tu s = (r, t)"
  then have ok: "db_ok s" "db_ok t" using keepsD [OF keeps_Ensure _ run] by (auto simp: wallets_are_def)
  from ok(1) run show "wallets_are W Q t"
  proof (cases rule: Ensure_cases)
    case (none e)
    with s show ?thesis by (auto intro: wallets_are_same)
  next
    case (new u row)
    then have "wallets t = wallets s" "wallet_policies t = wallet_policies s" "engine t = engine s"
      by (auto simp: created_identity_def same_db_def)
    with s ok show ?thesis
      by (auto simp: wallets_are_def wallet_at_def policy_at_def find_wallet_def find_policy_def fun_eq_iff)
  next
    case (old u row)
    then have "wallets t = wallets s" "wallet_policies t = wallet_policies s" "engine t = engine s"
      by (auto simp: refreshed_identity_def same_db_def)
    with s ok show ?thesis
      by (auto simp: wallets_are_def wallet_at_def policy_at_def find_wallet_def find_policy_def fun_eq_iff)
  qed
qed

lemma keeps_wallets_outside: "keeps (wallets_are W Q) (outside m)"
  by (rule keepsI) (blast intro: wallets_are_same outside_same)

lemma keeps_wallets_audit:
  "keeps_fun (wallets_are W Q) (Onboarding_recordAudit (pg_onboarding allowlist clock) ev)"
  "keeps_fun (wallets_are W Q) (MiniAppAuth_recordAudit (pg_miniapp U P v allowlist clock) ev)"
proof -
  have "appended s (Onboarding_recordAudit (pg_onboarding allowlist clock) ev s)" for s
    by (auto simp: Onboarding_recordAudit_def pg_onboarding_def NewOnboarding_def AuditRepo_def
        intro: Record_appended [OF prod.collapse [symmetric]])
  then show "keeps_fun (wallets_are W Q) (Onboarding_recordAudit (pg_onboarding allowlist clock) ev)"
    unfolding keeps_fun_def using wallets_are_appended by blast
  show "keeps_fun (wallets_are W Q) (MiniAppAuth_recordAudit (pg_miniapp U P v allowlist clock) ev)"
    unfolding keeps_fun_def using wallets_are_appended [OF pg_miniapp_audit] by blast
qed

lemma keeps_wallets_Authorize: "keeps (wallets_are W Q) (Authorize (pg_onboarding allowlist clock) tu)"
proof (rule keeps_Authorize)
  show "keeps (wallets_are W Q) (EnsureTelegramUser (ob_users (pg_onboarding allowlist clock)) tu)"
    by (simp add: pg_onboarding_def NewOnboarding_def UserRepo_def keeps_wallets_Ensure)
qed (rule keeps_wallets_audit)

lemma keeps_wallets_Authenticate: "keeps (wallets_are W Q) (Authenticate (pg_miniapp U P v allowlist clock) raw)"
proof (rule keeps_Authenticate)
  fix verify tu
  show "keeps (wallets_are W Q) (verify raw)" if "ma_verifier (pg_miniapp U P v allowlist clock) = Some verify"
    using that by (auto simp: pg_miniapp_def NewMiniAppAuth_def keeps_wallets_outside)
  show "keeps (wallets_are W Q) (Authorize (ma_onboarding (pg_miniapp U P v allowlist clock)) tu)"
    by (simp add: pg_miniapp_def NewMiniAppAuth_def keeps_wallets_Authorize)
qed (rule keeps_wallets_audit)

lemma Authenticate_wallets:
  assumes "db_ok s" "Authenticate (pg_miniapp U P v allowlist clock) raw s = (r, t)"
  shows "db_ok t" "wallet_at t = wallet_at s" "policy_at t = policy_at s"
  using keepsD [OF keeps_wallets_Authenticate [of "wallet_at s" "policy_at s"] _ assms(2)] assms(1)
  by (auto simp: wallets_are_def)

definition pg_deps ::
    "unicode \<Rightarrow> primitives \<Rightarrow> 'z Verifier \<Rightarrow> Allowlist \<Rightarrow> 'z AddressProbe option \<Rightarrow> 'z TaskEnqueuer option \<Rightarrow> u64 \<Rightarrow>
     WalletPolicy \<Rightarrow> ('z pgdb_scheme \<Rightarrow> time) \<Rightarrow> 'z pgdb_scheme MiniAppDeps" where
  "pg_deps U P v allowlist ch qu chainID defaults clock =
     \<lparr>Mini_Auth = Some (pg_miniapp U P v allowlist clock),
      Mini_Wallets = pg_wallet_service U ch qu chainID defaults clock, Mini_ChainID = chainID\<rparr>"

text \<open>
  What a request carries: the init data of its own header, or, without one, what follows
  \<open>tma\<close> and a blank in its \<open>Authorization\<close> header, without the space around it.
\<close>

definition carried :: "http_request \<Rightarrow> string \<Rightarrow> bool" where
  "carried req raw \<longleftrightarrow> raw \<noteq> [] \<and>
     (raw = rq_init_data req \<or> rq_init_data req = [] \<and> (\<exists>rest. rq_authorization req = ''tma '' @ rest \<and> raw = TrimSpace rest))"

lemma requireInitData_cases:
  assumes "requireInitData auth req nxt s = (resp, t)"
  obtains (missing) "rs_code resp = 401" "t = s"
    | (refused) raw e where "Authenticate auth raw s = (Inl e, t)" "resp = writeError 401 ''unauthorized''"
    | (served) raw idn s1 where "Authenticate auth raw s = (Inr idn, s1)" "nxt idn s1 = (resp, t)" "carried req raw"
proof -
  define raw where "raw = (if rq_init_data req \<noteq> [] then rq_init_data req
      else if HasPrefix (rq_authorization req) ''tma '' then TrimSpace (TrimPrefix (rq_authorization req) ''tma '') else [])"
  obtain q s1 where q: "Authenticate auth raw s = (q, s1)" by fastforce
  have run: "(if raw = [] then (writeError 401 ''missing init data'', s)
      else case q of Inl err \<Rightarrow> (writeError 401 ''unauthorized'', s1) | Inr identity \<Rightarrow> nxt identity s1) = (resp, t)"
    using assms q unfolding requireInitData_def Let_def raw_def [symmetric] by (auto split: sum.splits)
  show thesis
  proof (cases "raw = []")
    case True
    with run missing show thesis by (auto simp: writeError_def writeJSON_def)
  next
    case False
    then have "carried req raw"
      unfolding carried_def raw_def by (auto simp: HasPrefix_iff TrimPrefix_append simp del: append.simps split: if_splits)
    with False run q refused served show thesis by (cases q) auto
  qed
qed

text \<open>
  The handlers behind the gate, seen from the identity the gate found.
\<close>

lemma account_canonical:
  assumes "db_ok s" "account_of s i = Some u"
  shows "pg_uuid_in (engine s) (User_ID u) = Some (User_ID u)"
  using assms by (auto simp: account_of_def db_ok_def Option.bind_eq_Some_conv dest: user_with_mem)

lemma wallet_at_ID: "db_ok s \<Longrightarrow> wallet_at s i = Some w \<Longrightarrow> wallet_at s (Wallet_ID w) = Some w"
  by (auto simp: wallet_at_def find_wallet_self dest!: find_wallet_Some)

lemma Authenticate_account:
  assumes "db_ok s" "Authenticate (pg_miniapp U P v allowlist clock) raw s = (Inr idn, t)"
  shows "pg_uuid_in (engine t) (User_ID (Id_User idn)) = Some (User_ID (Id_User idn))"
  using assms(2)
proof (rule Authenticate_Inr)
  fix d s1 s2 z
  assume 1: "same_db s s1" "Authorize (pg_onboarding allowlist clock) (telegram_user_of d) s1 = (Inr idn, s2)" "appended s2 t"
  have s1: "db_ok s1" using 1(1) assms(1) by (rule db_ok_sameI)
  from pgo.Authorize_success [OF s1 1(2)] appended_at [OF 1(3)]
  have "account_of t (TU_TelegramID (telegram_user_of d)) = Some (Id_User idn)" by simp
  with appended_db_ok [OF 1(3) pgo.Authorize_inv [OF s1 1(2)]] show ?thesis using account_canonical by blast
qed

text \<open>
  \<open>own_change u s t i\<close>: wallet \<open>i\<close> is a new wallet of account \<open>u\<close>, pending and not
  trading; or a wallet of \<open>u\<close> whose policy was replaced by a valid one.
\<close>

definition own_change :: "UserID \<Rightarrow> 'z pgdb_scheme \<Rightarrow> 'z pgdb_scheme \<Rightarrow> string \<Rightarrow> bool" where
  "own_change u s t i \<longleftrightarrow> (case wallet_at s i of
       None \<Rightarrow> (\<exists>w q. wallet_at t i = Some w \<and> Wallet_UserID w = u \<and> Wallet_Status w = WalletPending
                \<and> policy_at t i = Some q \<and> \<not> Pol_TradingEnabled q)
     | Some w \<Rightarrow> wallet_at t i = Some w \<and> Wallet_UserID w = u)"

lemma Link_own:
  assumes "db_ok s" "pg_uuid_in (engine s) u = Some u" "Req_UserID req = u"
    and "WalletService_Link U (pg_wallet_service U ch qu chainID defaults clock) req s = (r, t)"
  shows "db_ok t \<and> (wallet_at t i = wallet_at s i \<and> policy_at t i = policy_at s i
    \<or> wallet_at s i = None \<and> own_change u s t i)"
proof (cases "wallet_at s i")
  case (Some w)
  with pgs.Link_frame(1,2) [OF assms(1,4)] show ?thesis by auto
next
  case None
  note fr = pgs.Link_frame(1,3) [OF assms(1,4)]
  show ?thesis
  proof (cases "wallet_at t i")
    case (Some w)
    with fr(1) fr(2) [OF None Some] None assms(2,3) show ?thesis by (auto simp: own_change_def)
  next
    case n: None
    with None fr(1) policy_at_iff [OF assms(1), of i] policy_at_iff [OF fr(1), of i] show ?thesis by simp
  qed
qed

lemma UpdatePolicy_own:
  assumes "db_ok s" "WalletService_UpdatePolicy (pg_wallet_service U ch qu chainID defaults clock) u j p a s = (r, t)"
  shows "db_ok t \<and> wallet_at t = wallet_at s \<and> (policy_at t i = policy_at s i \<or> wallet_at s i \<noteq> None \<and> own_change u s t i)"
proof (cases "policy_at t i = policy_at s i")
  case True
  with pgs.UpdatePolicy_effect(1) [OF assms] show ?thesis by simp
next
  case False
  note eff = pgs.UpdatePolicy_effect(1,2) [OF assms]
  from eff(2) [OF False] obtain w q where w: "wallet_at s j = Some w" "Wallet_UserID w = u"
    "\<And>v. wallet_at s i = Some v \<Longrightarrow> Wallet_ID v = Wallet_ID w" "policy_at t i = Some q" by blast
  from eff(1) w(4) policy_at_iff [of t i] obtain v where v: "wallet_at s i = Some v" by auto
  with w wallet_at_ID [OF assms(1)] have "v = w" by (metis option.inject)
  with v w eff(1) show ?thesis by (simp add: own_change_def)
qed

lemma miniapp_handler_own:
  assumes "db_ok s" "pg_uuid_in (engine s) (User_ID (Id_User idn)) = Some (User_ID (Id_User idn))"
    and "miniapp_handler U J rfc3339 (pg_deps U P v allowlist ch qu chainID defaults clock) rt req idn s = (resp, t)"
  shows "db_ok t \<and> (\<forall>i. wallet_at t i \<noteq> wallet_at s i \<or> policy_at t i \<noteq> policy_at s i \<longrightarrow>
      own_change (User_ID (Id_User idn)) s t i
      \<and> (if wallet_at s i = None then rt = PostWallets else \<exists>j. rt = PutPolicy j))"
proof -
  let ?svc = "pg_wallet_service U ch qu chainID defaults clock" and ?u = "User_ID (Id_User idn)"
  have svc: "Mini_Wallets (pg_deps U P v allowlist ch qu chainID defaults clock) = ?svc" by (simp add: pg_deps_def)
  show ?thesis
  proof (cases rt)
    case PostAuth
    with assms show ?thesis by (auto simp: miniapp_handler_def post_auth_def)
  next
    case GetWallets
    obtain q s1 where q: "WalletService_List ?svc ?u s = (q, s1)" by fastforce
    with assms(3) GetWallets have "t = s1" by (auto simp: miniapp_handler_def get_wallets_def svc split: sum.splits)
    with pgs.List_effect(1) [OF assms(1) q] show ?thesis by simp
  next
    case PostWallets
    have "t = s \<or> (\<exists>lreq q. Req_UserID lreq = ?u \<and> WalletService_Link U ?svc lreq s = (q, t))"
      using assms(3) PostWallets
      by (auto simp: miniapp_handler_def post_wallets_def svc Let_def split: sum.splits prod.splits if_splits)
    then show ?thesis
    proof (elim disjE exE conjE)
      fix lreq q
      assume run: "Req_UserID lreq = ?u" "WalletService_Link U ?svc lreq s = (q, t)"
      show ?thesis using Link_own [OF assms(1,2) run] PostWallets by metis
    qed (use assms(1) in simp)
  next
    case (GetWallet i)
    obtain q s1 where q: "WalletService_Get ?svc ?u i s = (q, s1)" by fastforce
    with assms(3) GetWallet have "t = s1" by (auto simp: miniapp_handler_def get_wallet_def svc split: sum.splits)
    with pgs.Get_effect(1) [OF q] assms(1) show ?thesis by simp
  next
    case (PutPolicy j)
    have "t = s \<or> (\<exists>p a q. WalletService_UpdatePolicy ?svc ?u j p a s = (q, t))"
      using assms(3) PutPolicy
      by (auto simp: miniapp_handler_def put_policy_def svc split: sum.splits prod.splits if_splits)
    then show ?thesis
    proof (elim disjE exE)
      fix p a q
      assume run: "WalletService_UpdatePolicy ?svc ?u j p a s = (q, t)"
      show ?thesis using UpdatePolicy_own [OF assms(1) run] PutPolicy by metis
    qed (use assms(1) in simp)
  qed
qed

text \<open>
  Who sent a request: the account of the user named by the payload it carries, once the
  verifier has accepted that payload now and the user, no bot, is on the allowlist.
\<close>

definition verified_sender ::
    "unicode \<Rightarrow> primitives \<Rightarrow> 'z Verifier \<Rightarrow> Allowlist \<Rightarrow> ('z pgdb_scheme \<Rightarrow> time) \<Rightarrow> http_request \<Rightarrow> 'z pgdb_scheme \<Rightarrow> User \<Rightarrow> bool" where
  "verified_sender U P v allowlist clock req s u \<longleftrightarrow> (\<exists>raw d z idn s1. carried req raw
     \<and> Verify U P v raw (pgdb.more s) = (Inr d, z) \<and> \<not> Tg_IsBot (Data_User d) \<and> Allows allowlist (Tg_ID (Data_User d))
     \<and> Authenticate (pg_miniapp U P v allowlist clock) raw s = (Inr idn, s1)
     \<and> account_of s1 (Tg_ID (Data_User d)) = Some u \<and> u = Id_User idn \<and> User_Status u = UserActive)"

lemma served_sender:
  assumes "db_ok s" "Authenticate (pg_miniapp U P v allowlist clock) raw s = (Inr idn, s1)" "carried req raw"
  shows "verified_sender U P v allowlist clock req s (Id_User idn)"
  using assms(1,2) by (rule Authenticated) (use assms(2,3) in \<open>auto simp: verified_sender_def\<close>)

text \<open>
  C15. A Mini App request changes wallets and policies only of its verified sender: the active
  account of the user named by the payload in the request's own headers, which the verifier
  has accepted. \<open>POST /wallets\<close> can add one of that account's own, pending and not
  trading, and \<open>PUT /wallets/{id}/policy\<close> can replace the policy of one of its own.
  Nothing else about any wallet changes, whatever the route, the body and the failures; and
  a response other than 401 is given only to a request with a verified sender.
\<close>

theorem miniapp_touches_own_wallets:
  assumes "db_ok s" "mountMiniApp U J rfc3339 (pg_deps U P v allowlist ch qu chainID defaults clock) = Some serve"
    and "serve rt req s = (resp, t)"
  shows "db_ok t
    \<and> (rs_code resp \<noteq> 401 \<longrightarrow> (\<exists>u. verified_sender U P v allowlist clock req s u))
    \<and> (\<forall>i. wallet_at t i \<noteq> wallet_at s i \<or> policy_at t i \<noteq> policy_at s i \<longrightarrow>
         (\<exists>u. verified_sender U P v allowlist clock req s u \<and> own_change (User_ID u) s t i
            \<and> (if wallet_at s i = None then rt = PostWallets else \<exists>j. rt = PutPolicy j)))"
proof -
  let ?d = "pg_deps U P v allowlist ch qu chainID defaults clock"
  have "requireInitData (pg_miniapp U P v allowlist clock) req (miniapp_handler U J rfc3339 ?d rt req) s = (resp, t)"
    using assms(2,3) by (auto simp: mountMiniApp_def pg_deps_def)
  then show ?thesis
  proof (cases rule: requireInitData_cases)
    case missing
    with assms(1) show ?thesis by simp
  next
    case (refused raw e)
    with Authenticate_wallets [OF assms(1) refused(1)] show ?thesis by (simp add: writeError_def writeJSON_def)
  next
    case (served raw idn s1)
    note auth = Authenticate_wallets [OF assms(1) served(1)] Authenticate_account [OF assms(1) served(1)]
    have own: "own_change (User_ID (Id_User idn)) s t i" if "own_change (User_ID (Id_User idn)) s1 t i" for i
      using that auth by (simp add: own_change_def)
    have "db_ok t \<and> (\<forall>i. wallet_at t i \<noteq> wallet_at s i \<or> policy_at t i \<noteq> policy_at s i \<longrightarrow>
        own_change (User_ID (Id_User idn)) s1 t i \<and> (if wallet_at s i = None then rt = PostWallets else \<exists>j. rt = PutPolicy j))"
      using miniapp_handler_own [OF auth(1,4) served(2)] unfolding auth(2,3) .
    with served_sender [OF assms(1) served(1,3)] own show ?thesis by blast
  qed
qed

lemma foreign_wallet_errors:
  assumes "pg_faults s = []" "pg_uuid_in (engine s) i \<noteq> None" "\<And>w. wallet_at s i = Some w \<Longrightarrow> Wallet_UserID w \<noteq> u"
    and err: "err = Sentinel (if wallet_at s i = None then PostgresErrNotFound else ErrWalletNotOwned)"
  shows "WalletService_Get (pg_wallet_service U ch qu chainID defaults clock) u i s = (Inl err, s)"
    and "WalletService_UpdatePolicy (pg_wallet_service U ch qu chainID defaults clock) u i p a s = (Inl err, s)"
proof -
  let ?svc = "pg_wallet_service U ch qu chainID defaults clock"
  have "Store_Get (ws_wallets ?svc) i s = (case wallet_at s i of None \<Rightarrow> Inl (Sentinel PostgresErrNotFound) | Some w \<Rightarrow> Inr w, s)"
    using WalletRepo_Get_up [OF assms(1,2)] by (simp add: pg_wallet_service_def NewWalletService_def)
  with assms(3) show "WalletService_Get ?svc u i s = (Inl err, s)" "WalletService_UpdatePolicy ?svc u i p a s = (Inl err, s)"
    by (cases "wallet_at s i"; simp add: WalletService_Get_def WalletService_UpdatePolicy_def err Let_def)+
qed

text \<open>
  C25. A wallet of someone else cannot be told from one that does not exist: for a
  well-formed ID of either, an authenticated client gets the same response, to a read and to
  a change of the policy, so IDs cannot be enumerated.
\<close>

theorem foreign_wallet_looks_missing:
  assumes "mountMiniApp U J rfc3339 (pg_deps U P v allowlist ch qu chainID defaults clock) = Some serve"
    and "rq_init_data req \<noteq> []" "Authenticate (pg_miniapp U P v allowlist clock) (rq_init_data req) s = (Inr idn, s1)"
    and "pg_faults s1 = []" "pg_uuid_in (engine s1) i \<noteq> None"
    and "\<And>w. wallet_at s1 i = Some w \<Longrightarrow> Wallet_UserID w \<noteq> User_ID (Id_User idn)"
    and "decode_policy J body_limit (rq_body req) = Inr body"
  shows "serve (GetWallet i) req s = (writeError 404 ''wallet not found'', s1)
    \<and> serve (PutPolicy i) req s = (writeError 404 ''wallet not found'', s1)"
proof -
  note errs = foreign_wallet_errors [OF assms(4,5,6) refl, of U ch qu chainID defaults clock]
  from assms(1) have serve: "serve = (\<lambda>rt req. requireInitData (pg_miniapp U P v allowlist clock) req
      (miniapp_handler U J rfc3339 (pg_deps U P v allowlist ch qu chainID defaults clock) rt req))"
    by (simp add: mountMiniApp_def pg_deps_def fun_eq_iff)
  show ?thesis using assms(2,3,7) errs
    by (simp add: serve requireInitData_def miniapp_handler_def get_wallet_def put_policy_def writeWalletError_def pg_deps_def)
qed

definition sample_decoders :: decoders where
  "sample_decoders =
     \<lparr>decode_link = (\<lambda>n b. Inr \<lparr>lb_address = b, lb_role = '' Owner'', lb_label = ''main''\<rparr>),
      decode_policy = (\<lambda>n b. Inr (sample_policy\<lparr>Pol_TradingEnabled := True\<rparr>))\<rparr>"

definition sample_http :: http_request where
  "sample_http = \<lparr>rq_init_data = [], rq_authorization = ''tma '' @ sample_raw ''ab'', rq_body = ''0x'' @ replicate 40 (CHR ''C'')\<rparr>"

definition sample_deps_http :: "keyspace pgdb_scheme MiniAppDeps" where
  "sample_deps_http = pg_deps ascii_tables sample_primitives sample_verifier (NewAllowlist [7]) None None 4663 sample_policy pg_clock"

definition sample_serve :: "route \<Rightarrow> http_request \<Rightarrow> keyspace pgdb_scheme \<Rightarrow> response \<times> keyspace pgdb_scheme" where
  "sample_serve = the (mountMiniApp ascii_tables sample_decoders (\<lambda>_. []) sample_deps_http)"

lemma sample_serve_mounted: "mountMiniApp ascii_tables sample_decoders (\<lambda>_. []) sample_deps_http = Some sample_serve"
  by (simp add: sample_serve_def mountMiniApp_def sample_deps_http_def pg_deps_def)

theorem miniapp_touches_own_wallets_witness:
  "let (resp, t) = sample_serve PostWallets sample_http sample_world in
   db_ok t \<and> rs_code resp = 201
   \<and> (\<exists>u. verified_sender ascii_tables sample_primitives sample_verifier (NewAllowlist [7]) pg_clock sample_http sample_world u)"
proof -
  obtain resp t where run: "sample_serve PostWallets sample_http sample_world = (resp, t)" by fastforce
  have "db_ok sample_world" by (simp add: sample_world_def)
  note facts = miniapp_touches_own_wallets [OF this sample_serve_mounted [unfolded sample_deps_http_def] run]
  have "rs_code (fst (sample_serve PostWallets sample_http sample_world)) = 201" by code_simp
  with facts run show ?thesis by simp
qed

theorem foreign_wallet_looks_missing_witness:
  "fst (sample_serve (GetWallet ''w9'') (sample_http\<lparr>rq_init_data := sample_raw ''ab''\<rparr>) sample_world)
   = writeError 404 ''wallet not found''"
proof -
  let ?req = "sample_http\<lparr>rq_init_data := sample_raw ''ab''\<rparr>"
  let ?run = "Authenticate (pg_miniapp ascii_tables sample_primitives sample_verifier (NewAllowlist [7]) pg_clock)
       (rq_init_data ?req) sample_world"
  have "\<not> isl (fst ?run)" by code_simp
  then obtain idn s1 where run: "?run = (Inr idn, s1)" by (cases "?run"; cases "fst ?run") auto
  have "pg_faults (snd ?run) = [] \<and> pg_uuid_in (engine (snd ?run)) ''w9'' \<noteq> None \<and> wallets (snd ?run) = []" by code_simp
  then have s1: "pg_faults s1 = []" "pg_uuid_in (engine s1) ''w9'' \<noteq> None" "wallet_at s1 ''w9'' = None"
    unfolding run by (auto simp: wallet_at_def find_wallet_def)
  have "rq_init_data ?req \<noteq> []" by (simp add: sample_raw_def)
  moreover obtain body where "decode_policy sample_decoders body_limit (rq_body ?req) = Inr body"
    by (simp add: sample_decoders_def)
  ultimately show ?thesis
    using foreign_wallet_looks_missing [OF sample_serve_mounted [unfolded sample_deps_http_def] _ run s1(1,2)] s1(3) by simp
qed

end
