(* ===== verification/Router.thy ===== *)
theory Router
  imports Onboarding RedisGuard
begin

text \<open>
  \<open>internal/telegram/router.go\<close>: parsing a command, and the pipeline that authorizes,
  throttles, dispatches and audits it. Handlers, the rate limiter and the reply channel are
  operations on the state.
\<close>

text \<open>\<open>Duration.String\<close> and the \<open>%.1f\<close> rendering of a float, which only reach reply texts.\<close>

record formats =
  fmt_duration :: "duration \<Rightarrow> string"
  fmt_f1 :: "float64 \<Rightarrow> string"

definition em_dash :: string where
  "em_dash = [CHR 0xE2, CHR 0x80, CHR 0x94]"

record Request =
  Req_Identity :: Identity
  Req_ChatID :: i64
  Req_Args :: "string list"
  Req_Raw :: string

definition Request_Arg :: "Request \<Rightarrow> nat \<Rightarrow> string" where
  "Request_Arg r n = (if n < length (Req_Args r) then Req_Args r ! n else [])"

record 's Command =
  Cmd_Name :: string
  Cmd_Description :: string
  Cmd_Dangerous :: bool
  Cmd_Handler :: "Request \<Rightarrow> ('s, string) op"

type_synonym 's limiter = "string \<Rightarrow> int \<Rightarrow> duration \<Rightarrow> 's \<Rightarrow> (bool \<times> int \<times> error option) \<times> 's"
type_synonym 's replier = "i64 \<Rightarrow> string \<Rightarrow> ('s, unit) op"

record 's Router =
  rt_onboarding :: "'s Onboarding"
  rt_limiter :: "'s limiter option"
  rt_commands :: "(string \<times> 's Command) list"
  rt_rateLimit :: int
  rt_rateWindow :: duration

definition NewRouter :: "'s Onboarding \<Rightarrow> 's limiter option \<Rightarrow> int \<Rightarrow> duration \<Rightarrow> 's Router" where
  "NewRouter ob limiter rateLimit rateWindow =
     \<lparr>rt_onboarding = ob, rt_limiter = limiter, rt_commands = [],
      rt_rateLimit = (if rateLimit \<le> 0 then 20 else rateLimit),
      rt_rateWindow = (if rateWindow \<le> 0 then minute else rateWindow)\<rparr>"

text \<open>Registration panics on a duplicate; the commands are a map from names.\<close>

definition Router_Handle :: "unicode \<Rightarrow> 's Router \<Rightarrow> 's Command \<Rightarrow> error + 's Router" where
  "Router_Handle U r c =
     (let name = TrimPrefix (ToLower U (Cmd_Name c)) ''/'' in
      if map_of (rt_commands r) name \<noteq> None then Inl (Panic (''telegram: duplicate command '' @ name))
      else Inr (r\<lparr>rt_commands := rt_commands r @ [(name, c\<lparr>Cmd_Name := name\<rparr>)]\<rparr>))"

definition Commands :: "'s Router \<Rightarrow> 's Command list" where
  "Commands r = sort_key Cmd_Name (map snd (rt_commands r))"

record Update =
  Up_TelegramID :: TelegramUserID
  Up_ChatID :: i64
  Up_Username :: string
  Up_FirstName :: string
  Up_LastName :: string
  Up_LanguageCode :: string
  Up_IsBot :: bool
  Up_Text :: string

text \<open>The empty name stands for ``not a command''.\<close>

definition parseCommand :: "unicode \<Rightarrow> string \<Rightarrow> string \<times> string list" where
  "parseCommand U text =
     (let text = TrimSpace text in
      if \<not> HasPrefix text ''/'' then ([], [])
      else case Fields text of [] \<Rightarrow> ([], [])
        | w # args \<Rightarrow>
            (let name = takeWhile (\<lambda>c. c \<noteq> CHR ''@'') (ToLower U (TrimPrefix w ''/''))
             in if name = [] then ([], []) else (name, args)))"

definition send :: "'s replier option \<Rightarrow> i64 \<Rightarrow> string \<Rightarrow> 's \<Rightarrow> 's" where
  "send reply chatID text s = (case reply of None \<Rightarrow> s
     | Some f \<Rightarrow> if text = [] then s else snd (f chatID text s))"

definition update_user :: "Update \<Rightarrow> TelegramUser" where
  "update_user u = \<lparr>TU_TelegramID = Up_TelegramID u, TU_UserID = [], TU_Username = Up_Username u,
     TU_FirstName = Up_FirstName u, TU_LastName = Up_LastName u, TU_LanguageCode = Up_LanguageCode u,
     TU_ChatID = Up_ChatID u, TU_CreatedAt = zero_time, TU_UpdatedAt = zero_time, TU_LastSeenAt = zero_time\<rparr>"

definition throttle :: "'s Router \<Rightarrow> Update \<Rightarrow> 's \<Rightarrow> bool \<times> 's" where
  "throttle r u s = (case rt_limiter r of None \<Rightarrow> (True, s)
     | Some allow \<Rightarrow> (case allow (telegramActorID (Up_TelegramID u)) (rt_rateLimit r) (rt_rateWindow r) s of
         ((allowed, remaining, err), s') \<Rightarrow> (allowed, s')))"

definition run_command :: "'s Router \<Rightarrow> Update \<Rightarrow> 's replier option \<Rightarrow> string \<Rightarrow> string list \<Rightarrow> Identity \<Rightarrow> 's \<Rightarrow> 's" where
  "run_command r u reply name args identity s =
     (case map_of (rt_commands r) name of
        None \<Rightarrow> send reply (Up_ChatID u) ''Unknown command. Try /help.''
                 (RecordCommand (rt_onboarding r) (Up_TelegramID u) name OutcomeRejected s)
      | Some cmd \<Rightarrow>
          (case Cmd_Handler cmd \<lparr>Req_Identity = identity, Req_ChatID = Up_ChatID u, Req_Args = args, Req_Raw = Up_Text u\<rparr> s of
             (Inl err, s') \<Rightarrow> send reply (Up_ChatID u) ''That command failed. The error has been logged.''
                 (RecordCommand (rt_onboarding r) (Up_TelegramID u) name OutcomeFailed s')
           | (Inr text, s') \<Rightarrow> send reply (Up_ChatID u) text
                 (RecordCommand (rt_onboarding r) (Up_TelegramID u) name OutcomeOK s')))"

definition Dispatch :: "unicode \<Rightarrow> formats \<Rightarrow> 's Router \<Rightarrow> Update \<Rightarrow> 's replier option \<Rightarrow> 's \<Rightarrow> 's" where
  "Dispatch U F r u reply s =
     (case parseCommand U (Up_Text u) of (name, args) \<Rightarrow>
      if name = [] then s
      else if Up_IsBot u then s
      else (case Authorize (rt_onboarding r) (update_user u) s of
          (Inl err, s1) \<Rightarrow>
            if errors_Is err (Sentinel ErrUnauthorized) then send reply (Up_ChatID u) ''Not authorized.'' s1
            else send reply (Up_ChatID u) ''Something went wrong. Try again shortly.'' s1
        | (Inr identity, s1) \<Rightarrow>
            (case throttle r u s1 of (allowed, s2) \<Rightarrow>
             if \<not> allowed then
               send reply (Up_ChatID u)
                 (''Slow down '' @ em_dash @ '' more than '' @ dec_int (rt_rateLimit r) @ '' commands per ''
                  @ fmt_duration F (rt_rateWindow r) @ ''.'')
                 (RecordRateLimited (rt_onboarding r) (Up_TelegramID u) name s2)
             else run_command r u reply name args identity s2)))"

section \<open>Parsing\<close>

lemma trim_left_visible: "33 \<le> (of_char c :: nat) \<Longrightarrow> (of_char c :: nat) < 128 \<Longrightarrow> trim_left (c # s) = c # s"
  by (simp add: trim_left.simps space_len_visible)

lemma fields_from_word:
  "\<forall>c \<in> set w. 33 \<le> (of_char c :: nat) \<and> (of_char c :: nat) < 128 \<Longrightarrow>
   fields_from acc (w @ s) = fields_from (acc @ w) s"
proof (induction w arbitrary: acc)
  case (Cons c w)
  then have "fields_from acc ((c # w) @ s) = fields_from (acc @ [c]) (w @ s)"
    by (subst fields_from.simps) (simp add: space_len_visible)
  with Cons show ?case by simp
qed simp

lemma fields_from_space: "acc \<noteq> [] \<Longrightarrow> fields_from acc (CHR '' '' # s) = acc # fields_from [] s"
  by (subst fields_from.simps) (simp add: space_len_def)

lemma fields_from_done: "acc \<noteq> [] \<Longrightarrow> fields_from acc [] = [acc]"
  by (subst fields_from.simps) simp

definition visible_word :: "string \<Rightarrow> bool" where
  "visible_word w \<longleftrightarrow> w \<noteq> [] \<and> list_all (\<lambda>c. 33 \<le> (of_char c :: nat) \<and> (of_char c :: nat) < 128) w"

lemma Fields_join: "ws \<noteq> [] \<Longrightarrow> list_all visible_word ws \<Longrightarrow> Fields (str_join '' '' ws) = ws"
proof (induction ws rule: induct_list012)
  case (2 w)
  then show ?case
    using fields_from_word [of w "[]" "[]"] fields_from_done [of w]
    by (simp add: Fields_def visible_word_def list_all_iff)
next
  case (3 v w ws)
  then have "Fields (str_join '' '' (v # w # ws)) = v # fields_from [] (str_join '' '' (w # ws))"
    using fields_from_word [of v "[]" "CHR '' '' # str_join '' '' (w # ws)"] fields_from_space [of v "str_join '' '' (w # ws)"]
    by (simp add: Fields_def visible_word_def list_all_iff)
  with 3 show ?case by (simp add: Fields_def)
qed simp

lemma join_ends:
  assumes "ws \<noteq> []" "list_all visible_word ws"
  shows "str_join '' '' ws \<noteq> [] \<and> hd (str_join '' '' ws) = hd (hd ws) \<and> last (str_join '' '' ws) = last (last ws)"
  using assms by (induction ws rule: induct_list012) (auto simp: visible_word_def)

lemma TrimSpace_join:
  assumes "ws \<noteq> []" "list_all visible_word ws"
  shows "TrimSpace (str_join '' '' ws) = str_join '' '' ws"
proof (rule TrimSpace_visible)
  have "visible_word (hd ws)" "visible_word (last ws)" using assms by (simp_all add: list_all_iff)
  then have "33 \<le> (of_char (hd (hd ws)) :: nat) \<and> (of_char (hd (hd ws)) :: nat) < 128"
    "33 \<le> (of_char (last (last ws)) :: nat) \<and> (of_char (last (last ws)) :: nat) < 128"
    by (simp_all add: visible_word_def list_all_iff)
  with join_ends [OF assms] show "str_join '' '' ws \<noteq> []" "33 \<le> (of_char (hd (str_join '' '' ws)) :: nat)"
    "(of_char (hd (str_join '' '' ws)) :: nat) < 128" "33 \<le> (of_char (last (str_join '' '' ws)) :: nat)"
    "(of_char (last (str_join '' '' ws)) :: nat) < 128" by simp_all
qed

lemma parseCommand_words:
  assumes "visible_word name" "CHR ''@'' \<notin> set name" "list_all visible_word args"
    and "suffix = [] \<or> (\<exists>bot. suffix = CHR ''@'' # bot \<and> (bot = [] \<or> visible_word bot))"
  shows "parseCommand U (str_join '' '' ((''/'' @ name @ suffix) # args)) = (map ascii_lower name, args)"
proof -
  let ?w = "''/'' @ name @ suffix"
  have suf: "list_all (\<lambda>c. 33 \<le> (of_char c :: nat) \<and> (of_char c :: nat) < 128) suffix"
    using assms(4) by (auto simp: visible_word_def)
  have w: "visible_word ?w" using assms(1) suf by (simp add: visible_word_def)
  have ascii: "is_ascii (name @ suffix)" using assms(1) suf by (auto simp: is_ascii_def visible_word_def list_all_iff)
  have upper: "ascii_lower c = CHR ''@'' \<longleftrightarrow> c = CHR ''@''" for c
    by (auto simp: ascii_lower_def of_char_of dest: arg_cong [of _ _ "of_char :: char \<Rightarrow> nat"])
  have "takeWhile (\<lambda>c. c \<noteq> CHR ''@'') (map ascii_lower name @ map ascii_lower suffix)
      = map ascii_lower name @ takeWhile (\<lambda>c. c \<noteq> CHR ''@'') (map ascii_lower suffix)"
    by (rule takeWhile_append2) (use assms(2) upper in force)
  moreover have "takeWhile (\<lambda>c. c \<noteq> CHR ''@'') (map ascii_lower suffix) = []"
    using assms(4) upper [of "CHR ''@''"] by auto
  moreover have "HasPrefix (str_join '' '' (?w # args)) ''/''"
    by (cases args) (simp_all add: HasPrefix_def)
  moreover have "Fields (str_join '' '' (?w # args)) = ?w # args"
    using w assms(3) by (intro Fields_join) simp_all
  moreover have "TrimPrefix ?w ''/'' = name @ suffix" by (rule TrimPrefix_append)
  moreover have "name \<noteq> []" using assms(1) by (simp add: visible_word_def)
  moreover have "TrimSpace (str_join '' '' (?w # args)) = str_join '' '' (?w # args)"
    using w assms(3) by (intro TrimSpace_join) simp_all
  ultimately show ?thesis by (simp add: parseCommand_def ToLower_ascii [OF ascii])
qed

text \<open>
  A message \<open>/name[@bot] arg ... arg\<close> of visible words is parsed to the lower-case name
  without the bot's suffix and the arguments in order; a message that does not start with
  a slash is no command.
\<close>

theorem parseCommand_reads_command:
  assumes "visible_word name" "CHR ''@'' \<notin> set name" "list_all visible_word args"
    and "suffix = [] \<or> (\<exists>bot. suffix = CHR ''@'' # bot \<and> (bot = [] \<or> visible_word bot))"
  shows "parseCommand U (str_join '' '' ((''/'' @ name @ suffix) # args)) = (map ascii_lower name, args)
    \<and> (\<forall>text. \<not> HasPrefix (TrimSpace text) ''/'' \<longrightarrow> parseCommand U text = ([], []))"
  using parseCommand_words [OF assms] by (simp add: parseCommand_def)

theorem parseCommand_reads_command_witness:
  "parseCommand ascii_tables ''/Connect@HoodBot 0xAb'' = (''connect'', [''0xAb''])"
proof -
  have "visible_word ''Connect''" "visible_word ''HoodBot''" "list_all visible_word [''0xAb'']"
    "CHR ''@'' \<notin> set ''Connect''" by code_simp+
  moreover have "map ascii_lower ''Connect'' = ''connect''" by code_simp
  ultimately show ?thesis
    using parseCommand_reads_command [of "''Connect''" "[''0xAb'']" "''@HoodBot''" ascii_tables] by auto
qed

section \<open>The gates\<close>

text \<open>What happens to a command before any handler can run.\<close>

lemma Dispatch_cases:
  obtains (ignored) "\<And>C. Dispatch U F (r\<lparr>rt_commands := C\<rparr>) u reply s = s"
    | (refused) e s1 msg where "Authorize (rt_onboarding r) (update_user u) s = (Inl e, s1)"
        "\<And>C. Dispatch U F (r\<lparr>rt_commands := C\<rparr>) u reply s = send reply (Up_ChatID u) msg s1"
        "errors_Is e (Sentinel ErrUnauthorized) \<Longrightarrow> msg = ''Not authorized.''"
    | (throttled) idn s1 s2 msg name where "Authorize (rt_onboarding r) (update_user u) s = (Inr idn, s1)"
        "throttle r u s1 = (False, s2)"
        "\<And>C. Dispatch U F (r\<lparr>rt_commands := C\<rparr>) u reply s
          = send reply (Up_ChatID u) msg (RecordRateLimited (rt_onboarding r) (Up_TelegramID u) name s2)"
    | (run) idn s1 s2 name args where "parseCommand U (Up_Text u) = (name, args)" "name \<noteq> []" "\<not> Up_IsBot u"
        "Authorize (rt_onboarding r) (update_user u) s = (Inr idn, s1)" "throttle r u s1 = (True, s2)"
        "\<And>C. Dispatch U F (r\<lparr>rt_commands := C\<rparr>) u reply s
          = run_command (r\<lparr>rt_commands := C\<rparr>) u reply name args idn s2"
proof -
  obtain name args where p: "parseCommand U (Up_Text u) = (name, args)" by fastforce
  obtain q s1 where q: "Authorize (rt_onboarding r) (update_user u) s = (q, s1)" by fastforce
  have th: "throttle (r\<lparr>rt_commands := C\<rparr>) u s1 = throttle r u s1" for C by (cases "rt_limiter r") (simp_all add: throttle_def)
  show thesis
  proof (cases "name = [] \<or> Up_IsBot u")
    case True
    with p ignored show thesis by (auto simp: Dispatch_def)
  next
    case False
    show thesis
    proof (cases q)
      case (Inl e)
      show thesis
        by (rule refused [OF q [unfolded Inl], of "if errors_Is e (Sentinel ErrUnauthorized) then ''Not authorized.''
              else ''Something went wrong. Try again shortly.''"]) (use False p q Inl in \<open>auto simp: Dispatch_def\<close>)
    next
      case (Inr idn)
      obtain b s2 where b: "throttle r u s1 = (b, s2)" by fastforce
      show thesis
      proof (cases b)
        case True
        show thesis
          by (rule run [OF p _ _ q [unfolded Inr] b [unfolded eqTrueI [OF True]]])
            (use False p q Inr b True th in \<open>auto simp: Dispatch_def\<close>)
      next
        case no: False
        show thesis
          by (rule throttled [OF q [unfolded Inr] b [unfolded Eq_FalseI [OF no]]])
            (use False p q Inr b no th in \<open>auto simp: Dispatch_def\<close>)
      qed
    qed
  qed
qed

lemma update_user_id [simp]: "TU_TelegramID (update_user u) = Up_TelegramID u"
  by (simp add: update_user_def)

text \<open>
  C18. No handler runs for a caller who is not authorized. Replacing all registered commands
  by any others can change what a message does only if its sender is no bot, is on the
  allowlist, has an active account and is within the rate limit. For a sender outside the
  allowlist, a message at most appends to the audit trail and sends the one fixed reply.
\<close>

theorem Dispatch_handlers_gated:
  assumes "db_ok s" "rt_onboarding r = pg_onboarding allowlist clock"
  shows "(Dispatch U F (r\<lparr>rt_commands := C\<rparr>) u reply s \<noteq> Dispatch U F r u reply s \<longrightarrow>
      \<not> Up_IsBot u \<and> Allows allowlist (Up_TelegramID u)
      \<and> (\<exists>idn s1 s2. Authorize (rt_onboarding r) (update_user u) s = (Inr idn, s1) \<and> throttle r u s1 = (True, s2)
           \<and> User_Status (Id_User idn) = UserActive \<and> account_of s1 (Up_TelegramID u) = Some (Id_User idn)))
    \<and> (\<not> Allows allowlist (Up_TelegramID u) \<longrightarrow> (\<exists>t. appended s t
         \<and> (Dispatch U F r u reply s = t \<or> Dispatch U F r u reply s = send reply (Up_ChatID u) ''Not authorized.'' t)))"
proof (cases rule: Dispatch_cases [of U F r u reply s])
  case ignored
  from this [of C] this [of "rt_commands r"] show ?thesis using appended_same by auto
next
  case (refused e s1 msg)
  from refused(2) [of C] refused(2) [of "rt_commands r"] refused(1,3)
    pg_Authorize_refused [OF refused(1) [unfolded assms(2)]] show ?thesis by auto
next
  case (throttled idn s1 s2 msg name)
  from throttled(3) [of C] throttled(3) [of "rt_commands r"]
    pg_Authorize_refused [OF throttled(1) [unfolded assms(2)]] show ?thesis by auto
next
  case (run idn s1 s2 name args)
  from pgo.Authorize_success [OF assms(1) run(4) [unfolded assms(2)]] run show ?thesis by auto
qed

definition sample_update :: "TelegramUserID \<Rightarrow> string \<Rightarrow> Update" where
  "sample_update i text = \<lparr>Up_TelegramID = i, Up_ChatID = i, Up_Username = ''bob'', Up_FirstName = [],
     Up_LastName = [], Up_LanguageCode = ''en'', Up_IsBot = False, Up_Text = text\<rparr>"

definition sample_formats :: formats where
  "sample_formats = \<lparr>fmt_duration = (\<lambda>d. dec_int (d div second) @ ''s''), fmt_f1 = (\<lambda>x. ''5.0'')\<rparr>"

theorem Dispatch_handlers_gated_witness:
  "let r = NewRouter (pg_onboarding (NewAllowlist [7]) pg_clock) None 0 0 in
   \<exists>t. appended (empty_db ()) t \<and> Dispatch ascii_tables sample_formats r (sample_update 8 ''/start'') None (empty_db ()) = t"
proof -
  let ?r = "NewRouter (pg_onboarding (NewAllowlist [7]) pg_clock) None 0 0 :: pgdb Router"
  have "\<not> Allows (NewAllowlist [7]) 8" by code_simp
  moreover have "rt_onboarding ?r = pg_onboarding (NewAllowlist [7]) pg_clock" by (simp add: NewRouter_def)
  ultimately show ?thesis
    using Dispatch_handlers_gated [OF empty_db_ok, of ?r "NewAllowlist [7]" pg_clock ascii_tables sample_formats
        "[]" "sample_update 8 ''/start''" None]
    by (simp add: sample_update_def send_def)
qed

end
