(* ===== verification/TelegramCommands.thy ===== *)
theory TelegramCommands
  imports Router HealthChecker
begin

text \<open>
  \<open>internal/telegram/commands.go\<close>: the handlers of the command set and its registration.
  Replies are built as the source builds them; \<open>formats\<close> renders durations and floats.
\<close>

definition nl :: string where
  "nl = [CHR 0x0A]"

record 's CommandDeps =
  Deps_Health :: "'s HealthChecker option"
  Deps_Wallets :: "'s WalletService option"
  Deps_ChainID :: u64
  Deps_MiniAppURL :: string
  Deps_Version :: string

section \<open>What looks like a secret\<close>

definition isHex :: "string \<Rightarrow> bool" where
  "isHex s \<longleftrightarrow> list_all is_hex_char s"

definition isAlpha :: "string \<Rightarrow> bool" where
  "isAlpha s \<longleftrightarrow> s \<noteq> [] \<and> list_all (\<lambda>c. (97 \<le> (of_char c :: nat) \<and> (of_char c :: nat) \<le> 122)
     \<or> (65 \<le> (of_char c :: nat) \<and> (of_char c :: nat) \<le> 90)) s"

definition looksLikeSecret :: "string \<Rightarrow> bool" where
  "looksLikeSecret s =
     (let trimmed = TrimSpace s; hex = TrimPrefix (TrimPrefix trimmed ''0x'') ''0X'' in
      if length hex = 64 \<and> isHex hex then True
      else (let words = Fields trimmed in
            if length words \<in> {12, 15, 18, 21, 24} then list_all isAlpha words else False))"

section \<open>Handlers\<close>

definition network_line :: "'s CommandDeps \<Rightarrow> string" where
  "network_line d = ''Network: '' @ ChainName (Deps_ChainID d) @ '' (chain '' @ dec_nat (unat (Deps_ChainID d)) @ '')'' @ nl"

definition handleStart :: "'s CommandDeps \<Rightarrow> Request \<Rightarrow> ('s, string) op" where
  "handleStart d req =
     (let name = DisplayName (Id_Telegram (Req_Identity req)) in
      ok ((if Id_FirstContact (Req_Identity req)
           then ''Welcome, '' @ name @ ''. Your account is registered.'' @ nl @ nl
           else ''Welcome back, '' @ name @ ''.'' @ nl @ nl)
        @ network_line d @ nl
        @ ''Available now:'' @ nl
        @ ''  /connect '' @ em_dash @ '' link a wallet'' @ nl
        @ ''  /status  '' @ em_dash @ '' wallets and trading status'' @ nl
        @ ''  /health  '' @ em_dash @ '' dependency health'' @ nl
        @ ''  /help    '' @ em_dash @ '' list commands'' @ nl @ nl
        @ ''This build can read the chain and manage wallet records. ''
        @ ''It cannot trade: there is no signer and no execution engine yet.''))"

definition status_view :: "formats \<Rightarrow> WalletView \<Rightarrow> string" where
  "status_view F v =
     nl @ ''  '' @ Wallet_Address (View_Wallet v) @ nl
     @ ''  role: '' @ Wallet_Role (View_Wallet v) @ ''   status: '' @ Wallet_Status (View_Wallet v) @ nl
     @ (if View_BalanceError v \<noteq> [] then ''  balance: unavailable'' @ nl
        else ''  balance: '' @ Ether (View_Balance v) @ '' ETH'' @ nl)
     @ (if Pol_WalletID (View_Policy v) \<noteq> []
        then ''  limits: max '' @ fmt_f1 F (Pol_MaxPositionPercent (View_Policy v)) @ ''%/position, ''
             @ dec_int (Pol_MaxOpenPositions (View_Policy v)) @ '' open, ''
             @ fmt_f1 F (Pol_DailyLossLimitPercent (View_Policy v)) @ ''% daily loss'' @ nl
             @ ''  trading enabled: '' @ btoa (Pol_TradingEnabled (View_Policy v)) @ nl
        else [])"

definition handleStatus :: "formats \<Rightarrow> 's CommandDeps \<Rightarrow> Request \<Rightarrow> ('s, string) op" where
  "handleStatus F d req =
     (let head = ''Account: '' @ User_ID (Id_User (Req_Identity req)) @ nl @ network_line d
                 @ ''Trading: disabled (not implemented in this phase)'' @ nl @ nl in
      case Deps_Wallets d of
        None \<Rightarrow> ok (head @ ''Wallets: unavailable'')
      | Some svc \<Rightarrow> attempt (WalletService_List svc (User_ID (Id_User (Req_Identity req))))
          (\<lambda>err. throw (Wrap ''list wallets: '' err []))
          (\<lambda>vs. if vs = [] then ok (head @ ''No wallets linked. Use /connect to add one.'')
                else ok (head @ ''Wallets ('' @ dec_nat (length vs) @ ''):'' @ nl @ concat (map (status_view F) vs))))"

definition component_line :: "unicode \<Rightarrow> ComponentHealth \<Rightarrow> string" where
  "component_line U c =
     ''  '' @ pad_right U 10 (CH_Name c) @ '' '' @ CH_Status c
     @ (if CH_LatencyMS c > 0 then '' ('' @ dec_int (CH_LatencyMS c) @ ''ms)'' else [])
     @ (if CH_Error c \<noteq> [] then '' '' @ em_dash @ '' '' @ CH_Error c else []) @ nl
     @ (case map_of (CH_Details c) ''last_block'' of
          Some block \<Rightarrow> ''             block '' @ block @ nl | None \<Rightarrow> [])"

text \<open>The layout of times and the schedule of the probes are those of \<open>Check\<close>.\<close>

definition handleHealth :: "unicode \<Rightarrow> (time \<Rightarrow> string) \<Rightarrow> nat list \<Rightarrow> 's CommandDeps \<Rightarrow> Request \<Rightarrow> ('s, string) op" where
  "handleHealth U rfc3339 sched d req s =
     (case Deps_Health d of
        None \<Rightarrow> (Inr ''Health checks are not configured.'', s)
      | Some h \<Rightarrow> (case Check rfc3339 sched h s of (report, s') \<Rightarrow>
          (Inr (''Status: '' @ ToUpper U (HR_Status report) @ nl @ ''Version: '' @ HR_Version report @ nl @ nl
                @ concat (map (component_line U) (HR_Components report))), s')))"

definition connect_help :: "'s CommandDeps \<Rightarrow> string" where
  "connect_help d =
     ''Link a wallet:'' @ nl @ nl
     @ (if Deps_MiniAppURL d \<noteq> [] then ''  Open the Mini App: '' @ Deps_MiniAppURL d @ nl @ nl else [])
     @ ''  Or send: /connect 0xYourAddress'' @ nl @ nl
     @ ''Only a public address is ever needed. ''
     @ ''Never send a private key or seed phrase '' @ em_dash @ '' not to this bot, not to anyone.''"

definition secret_warning :: string where
  "secret_warning =
     ''That looks like a private key or seed phrase '' @ em_dash @ '' never share one.'' @ nl @ nl
     @ ''It was not stored. Rotate that wallet immediately if it is real, ''
     @ ''then send only your public address: /connect 0xYourAddress''"

definition not_an_address :: string where
  "not_an_address = ''That is not a valid EVM address. It should look like 0x followed by 40 hex characters.''"

definition handleConnect :: "unicode \<Rightarrow> 's CommandDeps \<Rightarrow> Request \<Rightarrow> ('s, string) op" where
  "handleConnect U d req =
     (let address = TrimSpace (Request_Arg req 0) in
      if address = [] then ok (connect_help d)
      else if looksLikeSecret address then ok secret_warning
      else case Deps_Wallets d of
        None \<Rightarrow> throw (New ''wallet service is not configured'')
      | Some svc \<Rightarrow>
          attempt (WalletService_Link U svc
              \<lparr>Req_UserID = User_ID (Id_User (Req_Identity req)), Req_Address = address, Req_Role = WalletRoleOwner,
               Req_Label = [],
               Req_ActorID = ''telegram:'' @ dec_int (sint (TU_TelegramID (Id_Telegram (Req_Identity req))))\<rparr>)
            (\<lambda>err. if Contains (Error err) ''invalid evm address'' then ok not_an_address
                   else if err = Sentinel ErrWalletAlreadyLinked
                   then ok ''That wallet is already linked to your account. Use /status to see it.''
                   else throw err)
            (\<lambda>wallet. ok (''Wallet linked: '' @ Wallet_Address wallet @ nl @ nl
                @ ''Status: '' @ Wallet_Status wallet @ '' '' @ em_dash @ '' verifying it on ''
                @ ChainName (Wallet_ChainID wallet) @ ''.'' @ nl
                @ ''It becomes active once the address is confirmed on-chain. ''
                @ ''Check /status in a moment.'' @ nl @ nl
                @ ''Trading stays disabled until you enable it explicitly.'')))"

text \<open>
  \<open>handleHelp\<close> reads the names and descriptions of the router's commands when it runs; its
  argument is that menu.
\<close>

definition menu :: "'s Router \<Rightarrow> (string \<times> string) list" where
  "menu r = map (\<lambda>c. (Cmd_Name c, Cmd_Description c)) (Commands r)"

definition handleHelp :: "unicode \<Rightarrow> (string \<times> string) list \<Rightarrow> Request \<Rightarrow> ('s, string) op" where
  "handleHelp U m req =
     ok (''Commands:'' @ nl @ nl
         @ concat (map (\<lambda>(name, description). ''  /'' @ pad_right U 9 name @ '' '' @ description @ nl) m))"

section \<open>Registration\<close>

definition command :: "string \<Rightarrow> string \<Rightarrow> (Request \<Rightarrow> ('s, string) op) \<Rightarrow> 's Command" where
  "command name description handler =
     \<lparr>Cmd_Name = name, Cmd_Description = description, Cmd_Dangerous = False, Cmd_Handler = handler\<rparr>"

fun handle_all :: "unicode \<Rightarrow> 's Router \<Rightarrow> 's Command list \<Rightarrow> error + 's Router" where
  "handle_all U r [] = Inr r"
| "handle_all U r (c # cs) = (case Router_Handle U r c of Inl e \<Rightarrow> Inl e | Inr r' \<Rightarrow> handle_all U r' cs)"

text \<open>
  The handler of \<open>help\<close> holds a pointer to the router it is registered on. The menu does
  not depend on the handlers, so it is read off the router with the same five commands.
\<close>

definition command_set :: "unicode \<Rightarrow> formats \<Rightarrow> (time \<Rightarrow> string) \<Rightarrow> nat list \<Rightarrow> 's CommandDeps \<Rightarrow>
    (string \<times> string) list \<Rightarrow> 's Command list" where
  "command_set U F rfc3339 sched d m =
     [command ''start'' ''Register and show what this bot can do'' (handleStart d),
      command ''status'' ''Bot state, linked wallets and trading status'' (handleStatus F d),
      command ''health'' ''Dependency health (database, cache, chain)'' (handleHealth U rfc3339 sched d),
      command ''connect'' ''Link a wallet'' (handleConnect U d),
      command ''help'' ''List available commands'' (handleHelp U m)]"

definition Register :: "unicode \<Rightarrow> formats \<Rightarrow> (time \<Rightarrow> string) \<Rightarrow> nat list \<Rightarrow> 's Router \<Rightarrow> 's CommandDeps \<Rightarrow> error + 's Router" where
  "Register U F rfc3339 sched r d =
     (case handle_all U r (command_set U F rfc3339 sched d []) of
        Inl e \<Rightarrow> Inl e
      | Inr r' \<Rightarrow> handle_all U r (command_set U F rfc3339 sched d (menu r')))"

section \<open>A pasted key\<close>

lemma Router_Handle_plain:
  assumes "is_ascii (Cmd_Name c)" "TrimPrefix (map ascii_lower (Cmd_Name c)) ''/'' = Cmd_Name c"
    and "Cmd_Name c \<notin> set (map fst (rt_commands r))"
  shows "Router_Handle U r c = Inr (r\<lparr>rt_commands := rt_commands r @ [(Cmd_Name c, c)]\<rparr>)"
proof -
  have "map_of (rt_commands r) (Cmd_Name c) = None" using assms(3) by (simp add: map_of_eq_None_iff)
  moreover have "c\<lparr>Cmd_Name := Cmd_Name c\<rparr> = c" by simp
  ultimately show ?thesis using assms(1,2) by (simp add: Router_Handle_def ToLower_def Let_def)
qed

lemma handle_all_plain:
  assumes "\<forall>c \<in> set cs. is_ascii (Cmd_Name c) \<and> TrimPrefix (map ascii_lower (Cmd_Name c)) ''/'' = Cmd_Name c"
    and "distinct (map fst (rt_commands r) @ map Cmd_Name cs)"
  shows "handle_all U r cs = Inr (r\<lparr>rt_commands := rt_commands r @ map (\<lambda>c. (Cmd_Name c, c)) cs\<rparr>)"
  using assms by (induction cs arbitrary: r) (auto simp: Router_Handle_plain)

lemma handle_all_fresh:
  assumes "rt_commands r = []"
  shows "handle_all U r (command_set U F rfc3339 sched d m)
    = Inr (r\<lparr>rt_commands := map (\<lambda>c. (Cmd_Name c, c)) (command_set U F rfc3339 sched d m)\<rparr>)"
proof -
  have names: "map Cmd_Name (command_set U F rfc3339 sched d m) = [''start'', ''status'', ''health'', ''connect'', ''help'']"
    by (simp add: command_set_def command_def)
  have "list_all (\<lambda>n. is_ascii n \<and> TrimPrefix (map ascii_lower n) ''/'' = n)
      [''start'', ''status'', ''health'', ''connect'', ''help'']" by code_simp
  then have "\<forall>c \<in> set (command_set U F rfc3339 sched d m).
      is_ascii (Cmd_Name c) \<and> TrimPrefix (map ascii_lower (Cmd_Name c)) ''/'' = Cmd_Name c"
    by (simp only: names [symmetric] list_all_iff set_map ball_simps)
  moreover have "distinct (map fst (rt_commands r) @ map Cmd_Name (command_set U F rfc3339 sched d m))"
    unfolding names assms by simp
  ultimately show ?thesis using assms by (simp add: handle_all_plain)
qed

lemma Register_fresh:
  assumes "rt_commands r = []" "Register U F rfc3339 sched r d = Inr r'"
  obtains m where "r' = r\<lparr>rt_commands := map (\<lambda>c. (Cmd_Name c, c)) (command_set U F rfc3339 sched d m)\<rparr>"
  using assms by (auto simp: Register_def handle_all_fresh)

lemma connect_registered:
  "map_of (map (\<lambda>c. (Cmd_Name c, c)) (command_set U F rfc3339 sched d m)) ''connect''
   = Some (command ''connect'' ''Link a wallet'' (handleConnect U d))"
  by (simp add: command_set_def command_def)

text \<open>A private key in hexadecimal, with or without its prefix.\<close>

definition key_shaped :: "string \<Rightarrow> bool" where
  "key_shaped k \<longleftrightarrow> (let h = TrimPrefix (TrimPrefix k ''0x'') ''0X'' in length h = 64 \<and> isHex h)"

lemma key_visible: "key_shaped k \<Longrightarrow> visible_word k"
proof -
  assume k: "key_shaped k"
  let ?h = "TrimPrefix (TrimPrefix k ''0x'') ''0X''"
  have pre: "visible_word ''0x''" "visible_word ''0X''" by code_simp+
  have "visible_word ?h"
    using k by (auto simp: key_shaped_def isHex_def visible_word_def list_all_iff Let_def dest!: hex_char_range)
  moreover have "visible_word w" if "visible_word (TrimPrefix w q)" "visible_word q" for w q
    using that by (cases "HasPrefix w q") (auto simp: TrimPrefix_def HasPrefix_iff visible_word_def)
  ultimately show ?thesis using pre by blast
qed

lemma visible_TrimSpace: "visible_word w \<Longrightarrow> TrimSpace w = w"
  using TrimSpace_join [of "[w]"] by simp

lemma handleConnect_key:
  assumes "key_shaped k" "Req_Args req = k # rest"
  shows "handleConnect U d req s = (Inr secret_warning, s)"
proof -
  have "visible_word k" using assms(1) by (rule key_visible)
  then have "TrimSpace k = k" "k \<noteq> []" by (auto simp: visible_TrimSpace visible_word_def)
  moreover have "looksLikeSecret k"
    using assms(1) \<open>TrimSpace k = k\<close> by (auto simp: looksLikeSecret_def key_shaped_def Let_def)
  ultimately show ?thesis using assms(2) by (simp add: handleConnect_def Request_Arg_def)
qed

lemma Dispatch_key:
  assumes "key_shaped k" "map_of (rt_commands r) ''connect'' = Some (command ''connect'' ds (handleConnect U d))"
  shows "Dispatch U F r (u\<lparr>Up_Text := ''/connect '' @ k\<rparr>) reply s =
     (if Up_IsBot u then s
      else (case Authorize (rt_onboarding r) (update_user u) s of
          (Inl err, s1) \<Rightarrow>
            if errors_Is err (Sentinel ErrUnauthorized) then send reply (Up_ChatID u) ''Not authorized.'' s1
            else send reply (Up_ChatID u) ''Something went wrong. Try again shortly.'' s1
        | (Inr identity, s1) \<Rightarrow>
            (case throttle r u s1 of (allowed, s2) \<Rightarrow>
             if \<not> allowed then
               send reply (Up_ChatID u)
                 (''Slow down '' @ em_dash @ '' more than '' @ dec_int (rt_rateLimit r) @ '' commands per ''
                  @ fmt_duration F (rt_rateWindow r) @ ''.'')
                 (RecordRateLimited (rt_onboarding r) (Up_TelegramID u) ''connect'' s2)
             else send reply (Up_ChatID u) secret_warning
                 (RecordCommand (rt_onboarding r) (Up_TelegramID u) ''connect'' OutcomeOK s2))))"
proof -
  have name: "visible_word ''connect''" "map ascii_lower ''connect'' = ''connect''" by code_simp+
  have "parseCommand U (''/connect '' @ k) = (''connect'', [k])"
    using parseCommand_words [of "''connect''" "[k]" "[]" U] name key_visible [OF assms(1)] by simp
  moreover have "update_user (u\<lparr>Up_Text := t\<rparr>) = update_user u" "throttle r (u\<lparr>Up_Text := t\<rparr>) = throttle r u" for t
    by (simp_all add: update_user_def, cases "rt_limiter r") (simp_all add: throttle_def fun_eq_iff)
  moreover have "run_command r (u\<lparr>Up_Text := t\<rparr>) reply ''connect'' [k] idn s2
      = send reply (Up_ChatID u) secret_warning
          (RecordCommand (rt_onboarding r) (Up_TelegramID u) ''connect'' OutcomeOK s2)" for t idn s2
    by (simp add: run_command_def assms(2) command_def handleConnect_key [OF assms(1)])
  ultimately show ?thesis by (simp add: Dispatch_def split: prod.split sum.split)
qed

lemma Fields_visible: "visible_word w \<Longrightarrow> Fields w = [w]"
  using Fields_join [of "[w]"] by simp

lemma address_not_secret: "addressRe a \<Longrightarrow> \<not> looksLikeSecret a"
proof -
  assume "addressRe a"
  then obtain t where t: "a = ''0x'' @ t" "length t = 40" "list_all is_hex_char t"
    by (auto simp: addressRe_def hex_re_parts)
  have "visible_word a"
    using t by (auto simp: visible_word_def list_all_iff dest!: hex_char_range)
  moreover have "length (TrimPrefix w q) \<le> length w" for w q by (simp add: TrimPrefix_def)
  then have "length (TrimPrefix (TrimPrefix a ''0x'') ''0X'') \<le> length a" using le_trans by blast
  then have "length (TrimPrefix (TrimPrefix a ''0x'') ''0X'') \<noteq> 64" using t by auto
  ultimately show ?thesis
    by (auto simp: looksLikeSecret_def visible_TrimSpace Fields_visible Let_def)
qed

text \<open>
  C19. A private key sent to \<open>/connect\<close> goes nowhere: after the message, the whole state
  (the database with its audit trail, whatever the reply channel and the limiter keep)
  is the same for every key, so nothing stores, logs to the trail or echoes any part of it.
  And no address is mistaken for a key.
\<close>

theorem pasted_key_leaves_no_trace:
  assumes "Register U F rfc3339 sched (NewRouter ob limiter rate window) d = Inr r"
    and "key_shaped k" "key_shaped k'"
  shows "Dispatch U F r (u\<lparr>Up_Text := ''/connect '' @ k\<rparr>) reply s = Dispatch U F r (u\<lparr>Up_Text := ''/connect '' @ k'\<rparr>) reply s
    \<and> (\<forall>a. addressRe a \<longrightarrow> \<not> looksLikeSecret a)"
proof -
  have "rt_commands (NewRouter ob limiter rate window) = []" by (simp add: NewRouter_def)
  then obtain m where "r = (NewRouter ob limiter rate window)\<lparr>rt_commands := map (\<lambda>c. (Cmd_Name c, c)) (command_set U F rfc3339 sched d m)\<rparr>"
    using assms(1) by (rule Register_fresh)
  then have reg: "map_of (rt_commands r) ''connect'' = Some (command ''connect'' ''Link a wallet'' (handleConnect U d))"
    by (simp add: connect_registered)
  have "\<not> looksLikeSecret a" if "addressRe a" for a
    using that address_not_secret by blast
  with Dispatch_key [OF assms(2) reg] Dispatch_key [OF assms(3) reg] show ?thesis by simp
qed

definition sample_deps :: "pgdb CommandDeps" where
  "sample_deps = \<lparr>Deps_Health = None, Deps_Wallets = Some sample_service, Deps_ChainID = 4663,
     Deps_MiniAppURL = [], Deps_Version = ''test''\<rparr>"

definition sample_key :: "char \<Rightarrow> string" where
  "sample_key c = ''0x'' @ replicate 64 c"

theorem pasted_key_leaves_no_trace_witness:
  "\<exists>r. Register ascii_tables sample_formats (\<lambda>_. []) [] (NewRouter (pg_onboarding (NewAllowlist [7]) pg_clock) None 0 0)
         sample_deps = Inr r
     \<and> Dispatch ascii_tables sample_formats r ((sample_update 7 [])\<lparr>Up_Text := ''/connect '' @ sample_key (CHR ''1'')\<rparr>) None
         (sample_db WalletActive)
       = Dispatch ascii_tables sample_formats r ((sample_update 7 [])\<lparr>Up_Text := ''/connect '' @ sample_key (CHR ''f'')\<rparr>) None
         (sample_db WalletActive)"
proof -
  let ?r0 = "NewRouter (pg_onboarding (NewAllowlist [7]) pg_clock) None 0 0 :: pgdb Router"
  have "rt_commands ?r0 = []" by (simp add: NewRouter_def)
  then obtain r where r: "Register ascii_tables sample_formats (\<lambda>_. []) [] ?r0 sample_deps = Inr r"
    by (simp add: Register_def handle_all_fresh)
  have "key_shaped (sample_key (CHR ''1''))" "key_shaped (sample_key (CHR ''f''))" by code_simp+
  with pasted_key_leaves_no_trace [OF r] r show ?thesis by blast
qed

text \<open>
  The same does not hold of a seed phrase. The handler looks at the first argument
  only, so the word-list test of \<open>looksLikeSecret\<close> never sees more than one word: twelve
  words pasted after \<open>/connect\<close> reach the wallet service, the reply is that the address
  is not valid, and the first word is written to the audit trail.
\<close>

theorem pasted_mnemonic_reaches_trail:
  "let words = replicate 11 ''abandon'' @ [''about''];
       req = \<lparr>Req_Identity = \<lparr>Id_User = \<lparr>User_ID = ''alice'', User_Status = UserActive, User_CreatedAt = 0, User_UpdatedAt = 0\<rparr>,
                Id_Telegram = sample_telegram_user 7, Id_FirstContact = False\<rparr>,
              Req_ChatID = 7, Req_Args = words, Req_Raw = ''/connect '' @ str_join '' '' words\<rparr>;
       (r, t) = handleConnect ascii_tables sample_deps req (sample_db WalletActive) in
   looksLikeSecret (str_join '' '' words) \<and> r = Inr not_an_address
   \<and> map (\<lambda>e. (ar_action e, ar_outcome e, ar_detail e)) (audit_logs t)
     = [(ActionWalletLinked, OutcomeRejected,
         [(''reason'', DString (''invalid evm address '' @ [CHR 0x22] @ ''abandon'' @ [CHR 0x22]))])]"
  by code_simp

end
