(* ===== verification/Retry.thy ===== *)
theory Retry
  imports GoStrings
begin

unbundle bit_operations_syntax

text \<open>
  \<open>internal/chain/retry.go\<close>: bounded retries of a JSON-RPC call with exponential backoff.
  The context and the timer are a record of what the code observes of them: \<open>ctx_Err\<close> is
  \<open>ctx.Err()\<close>, and \<open>ctx_Wait d\<close> is the select on the context and a timer of length \<open>d\<close>,
  with the context's error when the context won. Durations are kept at their 64 bits where
  the shift can overflow.
\<close>

record 's Ctx =
  ctx_Err :: "'s \<Rightarrow> error option"
  ctx_Wait :: "duration \<Rightarrow> 's \<Rightarrow> error option \<times> 's"

record retryPolicy =
  MaxRetries :: int
  Backoff :: duration

definition retry_words :: "string list" where
  "retry_words = [''connection reset'', ''connection refused'', ''broken pipe'', ''eof'', ''timeout'',
     ''deadline exceeded'', ''too many requests'', ''429'', ''502'', ''503'', ''504'',
     ''temporarily unavailable'', ''i/o timeout'']"

definition retryable :: "unicode \<Rightarrow> error \<Rightarrow> bool" where
  "retryable U err =
     (if errors_Is err (Foreign EthereumNotFound) then False
      else if errors_Is err (Foreign ContextCanceled) then False
      else if errors_Is err (Foreign ContextDeadlineExceeded) then True
      else case as_rpc_code err of
        Some code \<Rightarrow> code = -32005
      | None \<Rightarrow> (let msg = ToLower U (Error err) in list_ex (\<lambda>s. Contains msg s) retry_words))"

text \<open>\<open>backoff << n\<close> on a 64-bit duration, capped at five seconds.\<close>

definition retry_wait :: "duration \<Rightarrow> nat \<Rightarrow> duration" where
  "retry_wait backoff n =
     (let wait = sint (push_bit n (word_of_int backoff :: i64))
      in if wait > 5 * second then 5 * second else wait)"

text \<open>
  The loop of \<open>Do\<close> from attempt \<open>n\<close> on, with the error of the previous one. The call
  \<open>fn\<close> returns its value here, where the source stores it in a captured variable.
\<close>

function do_loop :: "unicode \<Rightarrow> 's Ctx \<Rightarrow> retryPolicy \<Rightarrow> duration \<Rightarrow> ('s, 'a) op \<Rightarrow> nat \<Rightarrow> error option \<Rightarrow> ('s, 'a) op" where
  "do_loop U ctx p backoff fn n err s =
     (case ctx_Err ctx s of
        Some ctxErr \<Rightarrow> (Inl (case err of Some e \<Rightarrow> Join [e, ctxErr] | None \<Rightarrow> ctxErr), s)
      | None \<Rightarrow> (case fn s of
          (Inr a, s1) \<Rightarrow> (Inr a, s1)
        | (Inl e, s1) \<Rightarrow>
            if int n \<ge> MaxRetries p \<or> \<not> retryable U e then (Inl e, s1)
            else (case ctx_Wait ctx (retry_wait backoff n) s1 of
                (Some ctxErr, s2) \<Rightarrow> (Inl (Join [e, ctxErr]), s2)
              | (None, s2) \<Rightarrow> do_loop U ctx p backoff fn (Suc n) (Some e) s2)))"
  by pat_completeness auto
termination
  by (relation "measure (\<lambda>(U, ctx, p, backoff, fn, n, err, s). nat (MaxRetries p - int n))") auto

declare do_loop.simps [simp del]

definition retry_Do :: "unicode \<Rightarrow> 's Ctx \<Rightarrow> retryPolicy \<Rightarrow> ('s, 'a) op \<Rightarrow> ('s, 'a) op" where
  "retry_Do U ctx p fn =
     (let backoff = Backoff p; backoff = (if backoff \<le> 0 then 250 * millisecond else backoff)
      in do_loop U ctx p backoff fn 0 None)"

section \<open>Attempts are bounded\<close>

text \<open>
  \<open>counts\<close> is any counter of the state that a call of \<open>fn\<close> raises by one and waiting leaves
  alone.
\<close>

lemma do_loop_calls:
  assumes fn: "\<And>s. counts (snd (fn s)) = Suc (counts s)"
    and wait: "\<And>d s. counts (snd (ctx_Wait ctx d s)) = counts s"
  shows "counts (snd (do_loop U ctx p backoff fn n err s)) \<le> counts s + nat (MaxRetries p - int n) + 1"
proof (induction "nat (MaxRetries p - int n)" arbitrary: n err s rule: less_induct)
  case less
  obtain q s1 where q: "fn s = (q, s1)" by fastforce
  with fn [of s] have s1: "counts s1 = Suc (counts s)" by simp
  consider "ctx_Err ctx s \<noteq> None" | "ctx_Err ctx s = None" "\<not> isl q"
    | e where "ctx_Err ctx s = None" "q = Inl e" "int n \<ge> MaxRetries p \<or> \<not> retryable U e"
    | e where "ctx_Err ctx s = None" "q = Inl e" "int n < MaxRetries p" "retryable U e"
    by (cases q) (force simp: not_le)+
  then show ?case
  proof cases
    case (4 e)
    obtain w s2 where w: "ctx_Wait ctx (retry_wait backoff n) s1 = (w, s2)" by fastforce
    with wait [of "retry_wait backoff n" s1] have s2: "counts s2 = counts s1" by simp
    show ?thesis
    proof (cases w)
      case None
      have "counts (snd (do_loop U ctx p backoff fn (Suc n) (Some e) s2)) \<le> counts s2 + nat (MaxRetries p - int (Suc n)) + 1"
        by (rule less) (use 4 in auto)
      with 4 q w None s1 s2 show ?thesis by (subst do_loop.simps) auto
    qed (use 4 q w s1 s2 in \<open>subst do_loop.simps, auto\<close>)
  qed (use q s1 in \<open>subst do_loop.simps, auto split: sum.splits\<close>)+
qed

text \<open>
  C33. A retried call is made at most \<open>MaxRetries + 1\<close> times (once when \<open>MaxRetries\<close> is
  negative), whatever the context, the errors and the waits; and a success, or an error that
  is not retryable, of the first call is returned as it is after that one call.
\<close>

theorem retry_Do_bounded:
  assumes "\<And>s. counts (snd (fn s)) = Suc (counts s)" "\<And>d s. counts (snd (ctx_Wait ctx d s)) = counts s"
  shows "counts (snd (retry_Do U ctx p fn s)) \<le> counts s + nat (MaxRetries p) + 1
    \<and> (ctx_Err ctx s = None \<longrightarrow> (\<forall>a t. fn s = (Inr a, t) \<longrightarrow> retry_Do U ctx p fn s = (Inr a, t)))
    \<and> (ctx_Err ctx s = None \<longrightarrow> (\<forall>e t. fn s = (Inl e, t) \<longrightarrow> \<not> retryable U e \<longrightarrow> retry_Do U ctx p fn s = (Inl e, t)))"
proof -
  have "counts (snd (retry_Do U ctx p fn s)) \<le> counts s + nat (MaxRetries p) + 1"
    using do_loop_calls [of counts fn ctx, OF assms, of U p _ 0 None s] by (simp add: retry_Do_def Let_def)
  then show ?thesis by (auto simp: retry_Do_def do_loop.simps Let_def)
qed

text \<open>A state that counts calls, for examples: the first two calls time out, the third answers.\<close>

definition sample_ctx :: "nat Ctx" where
  "sample_ctx = \<lparr>ctx_Err = (\<lambda>_. None), ctx_Wait = (\<lambda>d s. (None, s))\<rparr>"

definition sample_call :: "(nat, int) op" where
  "sample_call s = (if s < 2 then (Inl (Foreign ContextDeadlineExceeded), Suc s) else (Inr 4663, Suc s))"

theorem retry_Do_bounded_witness:
  "retry_Do ascii_tables sample_ctx \<lparr>MaxRetries = 3, Backoff = 0\<rparr> sample_call 0 = (Inr 4663, 3)
   \<and> snd (retry_Do ascii_tables sample_ctx \<lparr>MaxRetries = 1, Backoff = 0\<rparr> sample_call 0) \<le> 2"
proof -
  have c: "(\<lambda>n. n) (snd (sample_call s)) = Suc ((\<lambda>n. n) s)" for s by (simp add: sample_call_def)
  have w: "(\<lambda>n. n) (snd (ctx_Wait sample_ctx d s)) = (\<lambda>n. n) s" for d s by (simp add: sample_ctx_def)
  have "retry_Do ascii_tables sample_ctx \<lparr>MaxRetries = 3, Backoff = 0\<rparr> sample_call 0 = (Inr 4663, 3)" by code_simp
  with retry_Do_bounded [of "\<lambda>n. n", OF c w, of ascii_tables "\<lparr>MaxRetries = 1, Backoff = 0\<rparr>" 0] show ?thesis by simp
qed

section \<open>The waits\<close>

lemma push_bit_sint:
  assumes "0 \<le> b" "b * 2 ^ n < 2 ^ 63"
  shows "sint (push_bit n (word_of_int b :: i64)) = b * 2 ^ n"
proof -
  have "push_bit n (word_of_int b :: i64) = word_of_int (b * 2 ^ n)"
    by (simp add: push_bit_eq_mult)
  moreover have "sint (word_of_int (b * 2 ^ n) :: i64) = b * 2 ^ n"
    unfolding sint_sbintrunc' using assms signed_take_bit_int_eq_self [of 63 "b * 2 ^ n"] order_trans [of "- (2 ^ 63)" 0 "b * 2 ^ n"]
    by simp
  ultimately show ?thesis by (simp only:)
qed

text \<open>
  For a backoff of at most five seconds and up to thirty attempts, the wait before
  the next attempt is the backoff doubled per attempt and capped at five seconds: positive
  and never larger than the cap.
\<close>

theorem retry_wait_doubles:
  assumes "0 < backoff" "backoff \<le> 5 * second" "n \<le> 30"
  shows "retry_wait backoff n = min (5 * second) (backoff * 2 ^ n) \<and> 0 < retry_wait backoff n"
proof -
  have "backoff * 2 ^ n \<le> 5 * second * 2 ^ 30"
    using assms by (intro mult_mono power_increasing) (auto simp: second_def)
  then have "backoff * 2 ^ n < 2 ^ 63" by (simp add: second_def)
  then have "sint (push_bit n (word_of_int backoff :: i64)) = backoff * 2 ^ n"
    using assms by (intro push_bit_sint) auto
  with assms show ?thesis by (auto simp: retry_wait_def Let_def second_def)
qed

theorem retry_wait_doubles_witness:
  "retry_wait (250 * millisecond) 3 = 2 * second \<and> retry_wait (250 * millisecond) 30 = 5 * second"
  using retry_wait_doubles [of "250 * millisecond" 3] retry_wait_doubles [of "250 * millisecond" 30]
  by (simp add: duration_defs)

text \<open>
  The shift is computed before the cap, in 64 bits: with the default backoff of 250 ms
  the wait after attempt 36 is negative and after attempt 60 it is zero, so from there
  on the call is retried without any pause.
\<close>

theorem retry_wait_overflows:
  "retry_wait (250 * millisecond) 36 < 0 \<and> retry_wait (250 * millisecond) 60 = 0"
  by code_simp

end
