(* ===== verification/QueueTasks.thy ===== *)
theory QueueTasks
  imports HealthChecker WalletService Retry
begin

text \<open>
  \<open>internal/queue\<close> and \<open>internal/queue/tasks\<close>: scheduling tasks on Asynq and the handlers
  that run them. The Asynq client (\<open>asynq_Enqueue\<close>) and the decoding of JSON payloads are
  parameters. A handler's error decides whether the task is retried or archived.
\<close>

section \<open>Scheduling\<close>

definition QueueCritical :: string where [go_consts]: "QueueCritical = ''critical''"

definition QueueNotifications :: string where [go_consts]: "QueueNotifications = ''notifications''"

definition TypeSystemHealthCheck :: string where [go_consts]: "TypeSystemHealthCheck = ''system:health_check''"

definition TypeChainSyncHead :: string where [go_consts]: "TypeChainSyncHead = ''chain:sync_head''"

definition TypeWalletVerify :: string where [go_consts]: "TypeWalletVerify = ''wallet:verify''"

definition TypeTelegramNotification :: string where [go_consts]: "TypeTelegramNotification = ''telegram:notification''"

record EnqueueOptions =
  EO_Queue :: string
  EO_TaskID :: string
  EO_MaxRetry :: int
  EO_Timeout :: duration
  EO_ProcessIn :: duration
  EO_Retention :: duration

datatype asynq_option =
    OptQueue string | OptTaskID string | OptMaxRetry int | OptTimeout duration
  | OptProcessIn duration | OptRetention duration

definition asynqOpts :: "EnqueueOptions \<Rightarrow> asynq_option list" where
  "asynqOpts eo =
     (if EO_Queue eo \<noteq> [] then [OptQueue (EO_Queue eo)] else [])
   @ (if EO_TaskID eo \<noteq> [] then [OptTaskID (EO_TaskID eo)] else [])
   @ (if EO_MaxRetry eo > 0 then [OptMaxRetry (EO_MaxRetry eo)] else [])
   @ (if EO_Timeout eo > 0 then [OptTimeout (EO_Timeout eo)] else [])
   @ (if EO_ProcessIn eo > 0 then [OptProcessIn (EO_ProcessIn eo)] else [])
   @ (if EO_Retention eo > 0 then [OptRetention (EO_Retention eo)] else [])"

text \<open>A task's payload as the program builds it: a JSON object (times as their value).\<close>

datatype payload_value = PString string | PInt i64 | PTime time

type_synonym payload = "(string \<times> payload_value) list"

record TaskInfo =
  TI_ID :: string
  TI_Type :: string
  TI_Queue :: string

record 's asynq_client =
  asynq_Enqueue :: "string \<Rightarrow> payload \<Rightarrow> asynq_option list \<Rightarrow> ('s, TaskInfo) op"

definition Enqueue :: "'s asynq_client \<Rightarrow> string \<Rightarrow> payload \<Rightarrow> EnqueueOptions \<Rightarrow> ('s, TaskInfo) op" where
  "Enqueue c taskType pl opts = attempt (asynq_Enqueue c taskType pl (asynqOpts opts))
     (\<lambda>err. throw (Wrap (''enqueue '' @ taskType @ '': '') err [])) ok"

definition IsDuplicate :: "error \<Rightarrow> bool" where
  "IsDuplicate err = errors_Is err (Foreign AsynqErrTaskIDConflict)"

definition Enqueuer_EnqueueWalletVerify :: "('s \<Rightarrow> time) \<Rightarrow> 's asynq_client \<Rightarrow> string \<Rightarrow> ('s, unit) op" where
  "Enqueuer_EnqueueWalletVerify clock c walletID s =
     attempt (Enqueue c TypeWalletVerify [(''wallet_id'', PString walletID), (''requested_at'', PTime (clock s))]
         \<lparr>EO_Queue = QueueCritical, EO_TaskID = ''wallet-verify:'' @ walletID, EO_MaxRetry = 5,
          EO_Timeout = 30 * second, EO_ProcessIn = 0, EO_Retention = hour\<rparr>)
       (\<lambda>err. if \<not> IsDuplicate err then throw (Wrap ''enqueue wallet verify: '' err []) else ok ())
       (\<lambda>_. ok ()) s"

definition Enqueuer_EnqueueNotification :: "'s asynq_client \<Rightarrow> i64 \<Rightarrow> string \<Rightarrow> ('s, unit) op" where
  "Enqueuer_EnqueueNotification c chatID text =
     attempt (Enqueue c TypeTelegramNotification [(''chat_id'', PInt chatID), (''text'', PString text)]
         \<lparr>EO_Queue = QueueNotifications, EO_TaskID = [], EO_MaxRetry = 3,
          EO_Timeout = 20 * second, EO_ProcessIn = 0, EO_Retention = 30 * minute\<rparr>)
       (\<lambda>err. throw (Wrap ''enqueue notification: '' err [])) (\<lambda>_. ok ())"

definition NewEnqueuer :: "('s \<Rightarrow> time) \<Rightarrow> 's asynq_client \<Rightarrow> 's TaskEnqueuer" where
  "NewEnqueuer clock c = \<lparr>EnqueueWalletVerify = Enqueuer_EnqueueWalletVerify clock c,
     EnqueueNotification = Enqueuer_EnqueueNotification c\<rparr>"

section \<open>Serving\<close>

definition SkipRetry :: "error \<Rightarrow> error" where
  "SkipRetry err = Wrap2 (Foreign AsynqSkipRetry) '': '' err"

definition IsSkipRetry :: "error \<Rightarrow> bool" where
  "IsSkipRetry err = errors_Is err (Foreign AsynqSkipRetry)"

text \<open>The delay before retry \<open>n\<close>: \<open>time.Duration(1<<uint(n)) * time.Second\<close>, at most ten minutes.\<close>

definition RetryDelay :: "nat \<Rightarrow> duration" where
  "RetryDelay n = (let d = sint (push_bit n 1 * word_of_int second :: i64)
     in if d > 10 * minute then 10 * minute else d)"

definition Server_Handle :: "string \<Rightarrow> ('p \<Rightarrow> ('s, unit) op) \<Rightarrow> 'p \<Rightarrow> ('s, unit) op" where
  "Server_Handle taskType h pl = attempt (h pl) (\<lambda>err. throw (Wrap (taskType @ '': '') err [])) ok"

section \<open>Handlers\<close>

text \<open>The last argument of each is the payload after \<open>json.Unmarshal\<close>, or its error.\<close>

definition HealthCheck :: "('s \<Rightarrow> HealthReport \<times> 's) \<Rightarrow> bool \<Rightarrow> error + unit \<Rightarrow> ('s, unit) op" where
  "HealthCheck check nonempty decoded =
     (case (if nonempty then decoded else Inr ()) of
        Inl err \<Rightarrow> throw (SkipRetry (Wrap ''decode payload: '' err []))
      | Inr _ \<Rightarrow> (\<lambda>s. case check s of (report, s') \<Rightarrow>
          if HR_Status report = HealthDown then (Inl (New (''health status '' @ HR_Status report)), s')
          else (Inr (), s')))"

definition SyncHead :: "'s ChainSync \<Rightarrow> bool \<Rightarrow> error + unit \<Rightarrow> ('s, unit) op" where
  "SyncHead sync nonempty decoded =
     (case (if nonempty then decoded else Inr ()) of
        Inl err \<Rightarrow> throw (SkipRetry (Wrap ''decode payload: '' err []))
      | Inr _ \<Rightarrow> attempt (RecordLatest sync) throw (\<lambda>_. ok ()))"

definition WalletVerify :: "'s WalletService \<Rightarrow> error + string \<Rightarrow> ('s, unit) op" where
  "WalletVerify svc decoded = (case decoded of
       Inl err \<Rightarrow> throw (SkipRetry (Wrap ''decode payload: '' err []))
     | Inr walletID \<Rightarrow>
         if walletID = [] then throw (SkipRetry (New ''wallet_id is required''))
         else attempt (WalletService_Verify svc walletID)
           (\<lambda>err. if errors_Is err (Sentinel PostgresErrNotFound)
                  then throw (SkipRetry (New (''wallet '' @ walletID @ '' not found'')))
                  else if errors_Is err (Sentinel ErrWrongChain) then throw (SkipRetry err)
                  else throw err)
           (\<lambda>_. ok ()))"

definition TelegramNotification :: "(i64 \<Rightarrow> string \<Rightarrow> ('s, unit) op) option \<Rightarrow> error + i64 \<times> string \<Rightarrow> ('s, unit) op" where
  "TelegramNotification notifier decoded = (case decoded of
       Inl err \<Rightarrow> throw (SkipRetry (Wrap ''decode payload: '' err []))
     | Inr (chatID, text) \<Rightarrow>
         if chatID = 0 \<or> text = [] then throw (SkipRetry (New ''chat_id and text are required''))
         else (case notifier of
             None \<Rightarrow> throw (New ''notifier is not configured'')
           | Some send \<Rightarrow> attempt (send chatID text) (\<lambda>err. throw (Wrap ''send notification: '' err [])) ok))"

section \<open>Facts\<close>

lemma IsSkipRetry_SkipRetry [simp]: "IsSkipRetry (SkipRetry err)"
  by (simp add: IsSkipRetry_def SkipRetry_def)

lemma IsSkipRetry_New [simp]: "\<not> IsSkipRetry (New m)" "IsSkipRetry (Wrap p err q) = IsSkipRetry err"
  by (auto simp: IsSkipRetry_def)

subsection \<open>Errors of the database and the node\<close>

text \<open>
  The errors the handler tells apart. Neither PostgreSQL's driver, when a statement is lost,
  nor the node returns one of them, in whatever error it wraps: three are the program's
  own and Asynq's, and a missing row is an answer.
\<close>

definition unmarked :: "error \<Rightarrow> bool" where
  "unmarked e \<longleftrightarrow> list_all (\<lambda>m. \<not> errors_Is e m)
     [Foreign AsynqSkipRetry, Foreign PgxErrNoRows, Sentinel PostgresErrNotFound, Sentinel ErrWrongChain]"

fun unmarked_fault :: "fault option \<Rightarrow> bool" where
  "unmarked_fault None \<longleftrightarrow> True"
| "unmarked_fault (Some (Lost_before e)) \<longleftrightarrow> unmarked e"
| "unmarked_fault (Some (Lost_after e)) \<longleftrightarrow> unmarked e"

definition unmarked_faults :: "'z pgdb_scheme \<Rightarrow> bool" where
  "unmarked_faults s \<longleftrightarrow> list_all unmarked_fault (pg_faults s)"

definition unmarked_probe :: "'z AddressProbe \<Rightarrow> bool" where
  "unmarked_probe p \<longleftrightarrow> (\<forall>z e z'. Probe_ChainID p z = (Inl e, z') \<longrightarrow> unmarked e)
     \<and> (\<forall>a n z e z'. Probe_BalanceAt p a n z = (Inl e, z') \<longrightarrow> unmarked e)"

lemma unmarked_Wrap [simp]: "unmarked (Wrap p e q) = unmarked e" "unmarked (New m)" "unmarked (pg_err e' c)"
  by (simp_all add: unmarked_def pg_err_def)

lemma unmarkedD:
  assumes "unmarked e"
  shows "\<not> IsSkipRetry e" "\<not> errors_Is e (Foreign PgxErrNoRows)" "\<not> errors_Is e (Sentinel PostgresErrNotFound)"
    "\<not> errors_Is e (Sentinel ErrWrongChain)"
  using assms by (simp_all add: unmarked_def IsSkipRetry_def)

lemma unmarked_stmt:
  assumes "stmt m s = (r, t)" "unmarked_faults s" "\<And>s. pg_faults (snd (m s)) = pg_faults s"
  shows "unmarked_faults t" "r = Inl e \<Longrightarrow> unmarked e \<or> (\<exists>fs. m (s\<lparr>pg_faults := fs\<rparr>) = (Inl e, t))"
proof -
  have "unmarked_faults t \<and> (r = Inl e \<longrightarrow> unmarked e \<or> (\<exists>fs. m (s\<lparr>pg_faults := fs\<rparr>) = (Inl e, t)))"
  proof (cases "pg_faults s")
    case Nil
    then have same: "s\<lparr>pg_faults := []\<rparr> = s" by simp
    from Nil assms(1,2) assms(3) [of s] show ?thesis
      by (auto simp: stmt_def unmarked_faults_def same intro!: exI [of _ "[]"])
  next
    case (Cons f fs)
    with assms(1,2) assms(3) [of "s\<lparr>pg_faults := fs\<rparr>"] show ?thesis
      by (cases f rule: unmarked_fault.cases) (auto simp: stmt_def unmarked_faults_def Let_def)
  qed
  then show "unmarked_faults t" "r = Inl e \<Longrightarrow> unmarked e \<or> (\<exists>fs. m (s\<lparr>pg_faults := fs\<rparr>) = (Inl e, t))" by auto
qed

lemma unmarked_outside: "outside m s = (r, t) \<Longrightarrow> unmarked_faults s \<Longrightarrow> unmarked_faults t"
  by (auto simp: outside_def unmarked_faults_def split: prod.splits)

lemma unmarked_Get:
  assumes "WalletRepo_Get i s = (r, t)" "unmarked_faults s"
  shows "unmarked_faults t \<and> same_db s t \<and> pgdb.more t = pgdb.more s
    \<and> (case r of Inr w \<Rightarrow> wallet_at s i = Some w | Inl e \<Rightarrow> unmarked e \<or> e = Sentinel PostgresErrNotFound \<and> wallet_at s i = None)"
proof -
  obtain q u where run: "query (select_wallet i) s = (q, u)" by fastforce
  have select: "select_wallet i (s\<lparr>pg_faults := fs\<rparr>) = select_wallet i s" for fs
    by (simp add: select_wallet_def find_wallet_def)
  have more: "pgdb.more u = pgdb.more s \<and> (\<forall>row. q = Inr row \<longrightarrow> select_wallet i s = Inr row)"
    using run unfolding query_def by (cases rule: stmt_cases) (auto simp: select)
  note faults = unmarked_stmt [OF run [unfolded query_def] assms(2), simplified, unfolded select]
  have rows: "e = Foreign PgxErrNoRows \<and> wallet_at s i = None \<or> unmarked e" if "select_wallet i s = Inl e" for e
    using that by (auto simp: select_wallet_def wallet_at_def split: if_splits option.splits)
  have found: "wallet_at s i = Some (wallet_of_row row)" if "select_wallet i s = Inr row" for row
    using that by (auto simp: select_wallet_def wallet_at_def split: if_splits option.splits)
  show ?thesis
  proof (cases q)
    case (Inl e)
    with faults(2) [of e] rows [of e] have "unmarked e \<or> e = Foreign PgxErrNoRows \<and> wallet_at s i = None" by auto
    with assms(1) run Inl faults(1) query_same [OF run] more show ?thesis
      by (auto simp: WalletRepo_Get_def scanWallet_def attempt_def unmarkedD(2) split: if_splits)
  next
    case (Inr row)
    with assms(1) run faults(1) query_same [OF run] more found [of row] show ?thesis
      by (auto simp: WalletRepo_Get_def scanWallet_def attempt_def ok_def)
  qed
qed

lemma unmarked_MarkVerified:
  assumes "WalletRepo_MarkVerified i tm s = (r, t)" "unmarked_faults s"
  shows "unmarked_faults t \<and> (\<forall>e. r = Inl e \<longrightarrow> unmarked e)"
proof -
  let ?m = "with_uuid i (\<lambda>k s. update_wallet_rows (\<lambda>r. wr_id r = k \<and> wr_status r = ''pending'')
    (\<lambda>r. r\<lparr>wr_status := ''active'', wr_verified_at := Some (pg_timestamp_in (engine s) tm)\<rparr>) s)"
  have faults: "pg_faults (snd (?m u)) = pg_faults u" for u
    by (auto simp: with_uuid_def update_wallet_rows_def Let_def split: option.splits)
  have errors: "unmarked e" if "?m u = (Inl e, v)" for u e v
    using that by (auto simp: with_uuid_def update_wallet_rows_def Let_def split: option.splits if_splits)
  from assms(1) show ?thesis unfolding WalletRepo_MarkVerified_def
  proof (rule attempt_cases)
    fix e s1 assume "stmt ?m s = (Inl e, s1)" "throw (Wrap ''mark verified: '' e []) s1 = (r, t)"
    with unmarked_stmt [OF this(1) assms(2) faults] errors show ?thesis by auto
  next
    fix n s1 assume "stmt ?m s = (Inr n, s1)" "(if n = 0 then ok () else ok ()) s1 = (r, t)"
    with unmarked_stmt(1) [OF this(1) assms(2) faults] show ?thesis by auto
  qed
qed

lemma unmarked_audit:
  assumes "unmarked_faults s"
  shows "unmarked_faults (audit (pg_wallet_service U ch qu chainID defaults clock) ev s)"
proof -
  have "unmarked_faults t" if "stmt (insert_audit e d) s = (r, t)" for e d r t
    by (rule unmarked_stmt(1) [OF that assms]) (simp add: insert_audit_def Let_def)
  then have "unmarked_faults t" if "AuditRepo_Record e s = (r, t)" for e r t
    using that assms unfolding AuditRepo_Record_def by (auto elim!: attempt_cases split: sum.splits)
  then show ?thesis
    by (simp add: audit_def recordAudit_def pg_wallet_service_def NewWalletService_def AuditRepo_def) (metis prod.collapse)
qed

text \<open>
  What \<open>Verify\<close> can end with. \<open>hopeless\<close>: the wallet does not exist or the node, asked now,
  reports another chain than the wallet's.
\<close>

definition hopeless :: "'z AddressProbe \<Rightarrow> string \<Rightarrow> 'z pgdb_scheme \<Rightarrow> bool" where
  "hopeless p i s \<longleftrightarrow> (case wallet_at s i of None \<Rightarrow> True
     | Some w \<Rightarrow> (case fst (Probe_ChainID p (pgdb.more s)) of Inl e \<Rightarrow> False | Inr c \<Rightarrow> c \<noteq> Wallet_ChainID w))"

lemma Verify_errors:
  fixes U p qu chainID defaults clock
  defines "svc \<equiv> pg_wallet_service U (Some p) qu chainID defaults clock"
  assumes "unmarked_faults s" "unmarked_probe p" "WalletService_Verify svc i s = (Inl e, t)" "db_ok s"
  shows "unmarked e \<or> hopeless p i s \<and> (errors_Is e (Sentinel PostgresErrNotFound) \<or> errors_Is e (Sentinel ErrWrongChain))
    \<and> wallet_at t = wallet_at s \<and> policy_at t = policy_at s"
proof -
  have ports: "Store_Get (ws_wallets svc) = WalletRepo_Get" "Store_MarkVerified (ws_wallets svc) = WalletRepo_MarkVerified"
    "ws_chain svc = Some (outside_probe p)"
    by (simp_all add: svc_def pg_wallet_service_def NewWalletService_def)
  have chain: "outside (Probe_ChainID p) u = (q, v) \<Longrightarrow> q = fst (Probe_ChainID p (pgdb.more u)) \<and> same_db u v" for u q v
    using more_outside(2) [of "Probe_ChainID p" u] outside_same by force
  have answers: "unmarked e'" if "fst (Probe_ChainID p z) = Inl e'" for e' z
    using assms(3) that unfolding unmarked_probe_def by (metis prod.collapse)
  have balance: "unmarked e'" if "outside (Probe_BalanceAt p a n) u = (Inl e', v)" for a n u e' v
  proof -
    from that obtain z' where "Probe_BalanceAt p a n (pgdb.more u) = (Inl e', z')" by (auto simp: outside_def split: prod.splits)
    with assms(3) show ?thesis unfolding unmarked_probe_def by blast
  qed
  note run = assms(4) [unfolded WalletService_Verify_def ports option.case Let_def outside_probe_def AddressProbe.simps]
  from run show ?thesis
  proof (cases rule: attempt_cases)
    case (err e' s1)
    with unmarked_Get [OF err(1) assms(2)] same_db_at show ?thesis by (auto simp: hopeless_def)
  next
    case (val w s1)
    from unmarked_Get [OF val(1) assms(2)]
    have s1: "unmarked_faults s1" "same_db s s1" "pgdb.more s1 = pgdb.more s" "wallet_at s i = Some w" by auto
    from val(2) show ?thesis
    proof (cases rule: attempt_cases)
      case (err e' s2)
      with chain [OF err(1)] answers show ?thesis by auto
    next
      case (val c s2)
      from chain [OF val(1)] unmarked_outside [OF val(1) s1(1)] s1 same_db_trans
      have c: "fst (Probe_ChainID p (pgdb.more s)) = Inr c" and s2: "unmarked_faults s2" "same_db s s2" by auto
      show ?thesis
      proof (cases "c = Wallet_ChainID w")
        case False
        with val(2) c s1(4) same_db_at [OF s2(2)] show ?thesis
          by (auto simp: after_def hopeless_def svc_def pgs.audit_at)
      next
        case True
        note val(2) [unfolded True, simplified]
        then show ?thesis
        proof (cases rule: attempt_cases)
          case (err e' s3)
          with balance [OF err(1)] show ?thesis by (auto simp: after_def)
        next
          case (val b s3)
          note s3 = unmarked_outside [OF val(1) s2(1)] same_db_trans [OF s2(2) outside_same [OF val(1)]]
          from val(2) show ?thesis
          proof (cases rule: attempt_cases)
            case (err e' s4)
            with unmarked_MarkVerified [OF err(1) s3(1)] show ?thesis by auto
          next
            case (val x s4)
            from MarkVerified_effect [OF db_ok_sameI [OF s3(2) assms(5)] val(1)] same_db_at [OF s3(2)] s1(4)
            have "wallet_at s4 i \<noteq> None" by fastforce
            with val(2) unmarked_Get unmarked_audit unmarked_MarkVerified [OF val(1) s3(1)] show ?thesis
              by (fastforce simp: after_def svc_def pgs.audit_at)
          qed
        qed
      qed
    qed
  qed
qed

text \<open>Asynq archives a task whose error asks for it and retries every other failure.\<close>

definition archived :: "error + unit \<Rightarrow> bool" where
  "archived r \<longleftrightarrow> (case r of Inl e \<Rightarrow> IsSkipRetry e | Inr _ \<Rightarrow> False)"

text \<open>
  C34. What a delivery of the verification task that is not a success is: archived at once, or
  retried. With errors of the driver and the node that are not the program's own:
  a payload that does not decode or names no wallet is archived and touches nothing. A
  task is archived besides only if it is \<open>hopeless\<close> (the wallet does not exist, or the node now
  reports another chain than the wallet's), and then no wallet and no policy has
  changed; so every other failure, a lost statement or an error of the node included, is
  retried. And with a database that answers and a well-formed ID every hopeless task is
  archived.
\<close>

theorem WalletVerify_retry_policy:
  fixes U p qu chainID defaults clock
  defines "svc \<equiv> pg_wallet_service U (Some p) qu chainID defaults clock"
  assumes "db_ok s" "unmarked_faults s" "unmarked_probe p" "Server_Handle TypeWalletVerify (WalletVerify svc) decoded s = (r, t)"
  shows "case decoded of
      Inl err \<Rightarrow> archived r \<and> t = s
    | Inr i \<Rightarrow> if i = [] then archived r \<and> t = s
        else (archived r \<longrightarrow> hopeless p i s \<and> wallet_at t = wallet_at s \<and> policy_at t = policy_at s)
          \<and> (pg_faults s = [] \<and> pg_uuid_in (engine s) i \<noteq> None \<and> hopeless p i s \<longrightarrow> archived r)"
proof (cases "case decoded of Inl err \<Rightarrow> True | Inr i \<Rightarrow> i = []")
  case True
  with assms(5) show ?thesis
    by (auto simp: Server_Handle_def WalletVerify_def attempt_def throw_def ok_def archived_def split: sum.splits)
next
  case False
  then obtain i where i: "decoded = Inr i" "i \<noteq> []" by (auto split: sum.splits)
  obtain q u where verify: "WalletService_Verify svc i s = (q, u)" by fastforce
  with assms(5) i have t: "t = u" and r: "archived r \<longleftrightarrow> (\<exists>e. q = Inl e \<and>
      (errors_Is e (Sentinel PostgresErrNotFound) \<or> errors_Is e (Sentinel ErrWrongChain) \<or> IsSkipRetry e))"
    by (auto simp: Server_Handle_def WalletVerify_def attempt_def throw_def ok_def archived_def split: sum.splits if_splits)
  have "hopeless p i s \<and> wallet_at t = wallet_at s \<and> policy_at t = policy_at s" if archived: "archived r"
  proof -
    from archived r obtain e where "q = Inl e" and "\<not> unmarked e" using unmarkedD by blast
    with Verify_errors [OF assms(3,4) verify [unfolded svc_def \<open>q = Inl e\<close>] assms(2)] t show ?thesis by blast
  qed
  moreover have "archived r" if up: "pg_faults s = []" "pg_uuid_in (engine s) i \<noteq> None" and hopeless: "hopeless p i s"
  proof -
    have ports: "Store_Get (ws_wallets svc) i s = WalletRepo_Get i s" "ws_chain svc = Some (outside_probe p)"
      by (simp_all add: svc_def pg_wallet_service_def NewWalletService_def)
    have "\<exists>e. q = Inl e \<and> (e = Sentinel PostgresErrNotFound \<or> errors_Is e (Sentinel ErrWrongChain))"
    proof (cases "wallet_at s i")
      case None
      with verify WalletRepo_Get_up [OF up] show ?thesis by (simp add: WalletService_Verify_def ports attempt_def)
    next
      case (Some w)
      with hopeless obtain c where c: "fst (Probe_ChainID p (pgdb.more s)) = Inr c" "c \<noteq> Wallet_ChainID w"
        by (auto simp: hopeless_def split: sum.splits)
      with more_outside(2) [of "Probe_ChainID p" s] obtain s2 where "outside (Probe_ChainID p) s = (Inr c, s2)"
        by (metis prod.collapse)
      with verify WalletRepo_Get_up [OF up] Some c(2) show ?thesis
        by (auto simp: WalletService_Verify_def ports outside_probe_def attempt_def [of "WalletRepo_Get i"]
            attempt_def [of "outside (Probe_ChainID p)"] Let_def after_def)
    qed
    with r show ?thesis by auto
  qed
  ultimately show ?thesis using i by simp
qed

text \<open>
  Two payloads that never succeed are retried all the same, until Asynq gives up: an ID that
  is not a UUID, and a pending bot wallet whose owner already has an active one on the chain,
  which the unique index refuses to activate.
\<close>

theorem malformed_id_retried:
  fixes U p qu chainID defaults clock
  defines "svc \<equiv> pg_wallet_service U (Some p) qu chainID defaults clock"
  assumes "pg_faults s = []" "pg_uuid_in (engine s) i = None" "i \<noteq> []"
  shows "\<exists>e. Server_Handle TypeWalletVerify (WalletVerify svc) (Inr i) s = (Inl e, s) \<and> \<not> IsSkipRetry e"
proof -
  have "WalletRepo_Get i s = (Inl (Wrap ''scan wallet: '' (pg_err (engine s) ''22P02'') []), s)"
    using assms(2,3) by (simp add: WalletRepo_Get_def scanWallet_def query_def stmt_def select_wallet_def attempt_def pg_err_def)
  with assms(4) show ?thesis
    by (simp add: Server_Handle_def WalletVerify_def WalletService_Verify_def svc_def pg_wallet_service_def NewWalletService_def
        attempt_def throw_def pg_err_def IsSkipRetry_def)
qed

definition sample_rival_db :: pgdb where
  "sample_rival_db = (sample_db WalletPending)\<lparr>wallets := [sample_wallet_row WalletPending,
     (sample_wallet_row WalletActive)\<lparr>wr_id := ''w2'', wr_address := ''0x'' @ replicate 40 (CHR ''b'')\<rparr>]\<rparr>"

theorem refused_activation_retried:
  "case Server_Handle TypeWalletVerify (WalletVerify sample_service) (Inr ''w1'') sample_rival_db of
     (Inl e, t) \<Rightarrow> \<not> IsSkipRetry e \<and> wallets t = wallets sample_rival_db | (Inr _, t) \<Rightarrow> False"
  by code_simp

theorem WalletVerify_retry_policy_witness:
  "archived (fst (Server_Handle TypeWalletVerify (WalletVerify sample_service) (Inr ''w2'') (sample_db WalletPending)))
   \<and> \<not> archived (fst (Server_Handle TypeWalletVerify (WalletVerify sample_service) (Inr ''w1'') (sample_db WalletPending)))"
proof -
  have up: "pg_faults (sample_db WalletPending) = []" "pg_uuid_in (engine (sample_db WalletPending)) i \<noteq> None" for i
    by (simp_all add: sample_db_def empty_db_def)
  have at: "wallet_at (sample_db WalletPending) ''w2'' = None"
      "wallet_at (sample_db WalletPending) ''w1'' = Some (wallet_of_row (sample_wallet_row WalletPending))"
    by (simp_all add: wallet_at_def find_wallet_def sample_db_def empty_db_def sample_wallet_row_def)
  have hopeless: "hopeless sample_probe ''w2'' (sample_db WalletPending)" "\<not> hopeless sample_probe ''w1'' (sample_db WalletPending)"
    by (simp_all add: hopeless_def at sample_probe_def sample_wallet_row_def)
  have ok: "db_ok (sample_db WalletPending)" by (rule sample_db_ok) (simp add: WalletStatus_Valid_def)
  have laws: "unmarked_faults (sample_db WalletPending)" "unmarked_probe sample_probe"
    by (simp_all add: unmarked_faults_def up(1) unmarked_probe_def sample_probe_def)
  note policy = WalletVerify_retry_policy [OF ok laws prod.collapse [symmetric]]
  from policy [of ascii_tables None 4663 sample_policy pg_clock "Inr ''w2''"] policy [of ascii_tables None 4663 sample_policy pg_clock "Inr ''w1''"]
  show ?thesis using hopeless up by (auto simp: sample_service_def)
qed

lemma RetryDelay_small:
  assumes "n \<le> 33"
  shows "RetryDelay n = min (10 * minute) (2 ^ n * second)"
proof -
  have "2 ^ n * second \<le> 2 ^ 33 * second" using assms by (intro mult_right_mono power_increasing) (auto simp: second_def)
  then have "second * 2 ^ n < 2 ^ 63" by (simp add: second_def mult.commute)
  then have "sint (push_bit n (word_of_int second :: i64)) = second * 2 ^ n"
    by (intro push_bit_sint) (auto simp: second_def)
  moreover have "push_bit n 1 * word_of_int second = push_bit n (word_of_int second :: i64)"
    by (simp add: push_bit_eq_mult mult.commute)
  ultimately show ?thesis by (auto simp: RetryDelay_def Let_def mult.commute)
qed

text \<open>
  C35. The delay before retry \<open>n\<close> is \<open>2^n\<close> seconds with a ceiling of ten minutes, for up to
  33 retries; from the 34th on the multiplication overflows its 64 bits and the delay is
  negative or zero, which the ceiling does not catch.
\<close>

theorem RetryDelay_ceiling:
  "(\<forall>n \<le> 33. RetryDelay n = min (10 * minute) (2 ^ n * second)) \<and> RetryDelay 34 < 0 \<and> RetryDelay 64 = 0"
proof (intro conjI allI impI)
  show "RetryDelay 34 < 0" "RetryDelay 64 = 0" by code_simp+
qed (rule RetryDelay_small)

theorem RetryDelay_ceiling_witness: "RetryDelay 3 = 8 * second \<and> RetryDelay 20 = 10 * minute"
proof -
  note small = RetryDelay_ceiling [THEN conjunct1, rule_format]
  have "RetryDelay 3 = min (10 * minute) (2 ^ 3 * second)" "RetryDelay 20 = min (10 * minute) (2 ^ 20 * second)"
    by (rule small, simp)+
  then show ?thesis by (simp add: duration_defs)
qed

end
