(* ===== verification/TelegramBot.thy ===== *)
theory TelegramBot
  imports TelegramCommands QueueTasks
begin

text \<open>
  \<open>internal/telegram/bot.go\<close> and \<open>notifier.go\<close>: the conversion of an update, the command
  menu, and sending. The Bot API client is a parameter, the record of the calls made to it.
\<close>

section \<open>The client and its updates\<close>

record SDK_User =
  From_ID :: i64
  From_IsBot :: bool
  From_FirstName :: string
  From_LastName :: string
  From_Username :: string
  From_LanguageCode :: string

record SDK_Message =
  Msg_From :: "SDK_User option"
  Msg_ChatID :: i64
  Msg_Text :: string

record 's TelegramAPI =
  SendMessage :: "i64 \<Rightarrow> string \<Rightarrow> ('s, unit) op"
  SetMyCommands :: "(string \<times> string) list \<Rightarrow> ('s, unit) op"
  GetMe :: "('s, string) op"
  API_Start :: "'s \<Rightarrow> 's"

record 's Bot =
  bot_api :: "'s TelegramAPI"
  bot_router :: "'s Router"

text \<open>\<open>tgbot.New\<close> is the last argument.\<close>

definition NewBot :: "string \<Rightarrow> 's Router option \<Rightarrow> (string \<Rightarrow> ('s, 's TelegramAPI) op) \<Rightarrow> ('s, 's Bot) op" where
  "NewBot token router new_api =
     (if token = [] then throw (New ''telegram bot token is required'')
      else case router of None \<Rightarrow> throw (New ''router is required'')
      | Some r \<Rightarrow> attempt (new_api token) (\<lambda>err. throw (Wrap ''create telegram bot: '' err []))
          (\<lambda>api. ok \<lparr>bot_api = api, bot_router = r\<rparr>))"

definition NewNotifier :: "string \<Rightarrow> (string \<Rightarrow> ('s, 's TelegramAPI) op) \<Rightarrow> ('s, 's TelegramAPI) op" where
  "NewNotifier token new_api =
     (if token = [] then throw (New ''telegram bot token is required'')
      else attempt (new_api token) (\<lambda>err. throw (Wrap ''create telegram notifier: '' err [])) ok)"

section \<open>Sending\<close>

definition maxLen :: nat where
  "maxLen = 4000"

definition truncated_mark :: string where
  "truncated_mark = nl @ [CHR 0xE2, CHR 0x80, CHR 0xA6] @ '' truncated''"

definition truncate_text :: "string \<Rightarrow> string" where
  "truncate_text text = (if length text > maxLen then take maxLen text @ truncated_mark else text)"

definition Bot_Send :: "'s Bot \<Rightarrow> 's replier" where
  "Bot_Send b chatID text =
     (if text = [] then ok ()
      else attempt (SendMessage (bot_api b) chatID (truncate_text text))
        (\<lambda>err. throw (Wrap ''send telegram message: '' err [])) ok)"

definition Notifier_Send :: "'s TelegramAPI \<Rightarrow> i64 \<Rightarrow> string \<Rightarrow> ('s, unit) op" where
  "Notifier_Send api chatID text =
     (if text = [] then ok ()
      else attempt (SendMessage api chatID (truncate_text text))
        (\<lambda>err. throw (Wrap ''send telegram message: '' err [])) ok)"

section \<open>Receiving\<close>

definition registerCommands :: "'s Bot \<Rightarrow> ('s, unit) op" where
  "registerCommands b = SetMyCommands (bot_api b) (map (\<lambda>c. (Cmd_Name c, Cmd_Description c)) (Commands (bot_router b)))"

text \<open>A failed registration of the menu is only logged.\<close>

definition Bot_Run :: "'s Bot \<Rightarrow> ('s, unit) op" where
  "Bot_Run b s =
     attempt (GetMe (bot_api b)) (\<lambda>err. throw (Wrap ''telegram getMe: '' err []))
       (\<lambda>me. after (API_Start (bot_api b)) (ok ())) (snd (registerCommands b s))"

definition handleUpdate :: "unicode \<Rightarrow> formats \<Rightarrow> 's Bot \<Rightarrow> SDK_Message option \<Rightarrow> 's \<Rightarrow> 's" where
  "handleUpdate U F b message s =
     (case message of None \<Rightarrow> s | Some msg \<Rightarrow>
     (case Msg_From msg of None \<Rightarrow> s | Some from_user \<Rightarrow>
        Dispatch U F (bot_router b)
          \<lparr>Up_TelegramID = From_ID from_user, Up_ChatID = Msg_ChatID msg, Up_Username = From_Username from_user,
           Up_FirstName = From_FirstName from_user, Up_LastName = From_LastName from_user,
           Up_LanguageCode = From_LanguageCode from_user, Up_IsBot = From_IsBot from_user, Up_Text = Msg_Text msg\<rparr>
          (Some (Bot_Send b)) s))"

section \<open>Message sizes\<close>

lemma truncate_text_length: "length (truncate_text text) \<le> 4014"
  by (simp add: truncate_text_def truncated_mark_def maxLen_def nl_def)

text \<open>
  C40. Whatever is sent, a message handed to the Bot API is not empty and has at most 4014
  bytes, below Telegram's limit of 4096 characters; a text of up to 4000 bytes is sent
  unchanged, and of a longer one the first 4000 bytes are kept. The bot and the notifier
  agree.
\<close>

theorem Send_within_limit:
  "Bot_Send b chatID [] s = (Inr (), s)
   \<and> (text \<noteq> [] \<longrightarrow> (\<exists>msg. msg \<noteq> [] \<and> length msg \<le> 4014 \<and> take 4000 msg = take 4000 text
        \<and> (length text \<le> 4000 \<longrightarrow> msg = text)
        \<and> snd (Bot_Send b chatID text s) = snd (SendMessage (bot_api b) chatID msg s)
        \<and> (isl (fst (Bot_Send b chatID text s)) \<longleftrightarrow> isl (fst (SendMessage (bot_api b) chatID msg s)))))
   \<and> Notifier_Send (bot_api b) = Bot_Send b"
proof -
  obtain r t where r: "SendMessage (bot_api b) chatID (truncate_text text) s = (r, t)" by fastforce
  have "truncate_text text \<noteq> []" if "text \<noteq> []"
    using that by (simp add: truncate_text_def maxLen_def truncated_mark_def)
  moreover have "take 4000 (truncate_text text) = take 4000 text" "length text \<le> 4000 \<Longrightarrow> truncate_text text = text"
    by (simp_all add: truncate_text_def maxLen_def)
  moreover have "snd (Bot_Send b chatID text s) = t \<and> (isl (fst (Bot_Send b chatID text s)) \<longleftrightarrow> isl r)" if "text \<noteq> []"
    using that r by (cases r) (auto simp: Bot_Send_def)
  ultimately show ?thesis using truncate_text_length [of "text"] r
    by (auto simp: Notifier_Send_def Bot_Send_def fun_eq_iff intro!: exI [of _ "truncate_text text"])
qed

definition recording_api :: "(i64 \<times> string) list TelegramAPI" where
  "recording_api = \<lparr>SendMessage = (\<lambda>c m s. (Inr (), s @ [(c, m)])), SetMyCommands = (\<lambda>_. ok ()), GetMe = ok ''bot'',
     API_Start = (\<lambda>s. s)\<rparr>"

theorem Send_within_limit_witness:
  "\<forall>r. snd (Bot_Send \<lparr>bot_api = recording_api, bot_router = r\<rparr> 7 ''hello'' []) = [(7, ''hello'')]"
proof
  fix r
  show "snd (Bot_Send \<lparr>bot_api = recording_api, bot_router = r\<rparr> 7 ''hello'' []) = [(7, ''hello'')]"
    using Send_within_limit [of "\<lparr>bot_api = recording_api, bot_router = r\<rparr>" 7 "[]" "''hello''"]
    by (auto simp: recording_api_def)
qed

end
