(* ===== verification/Frames.thy ===== *)
theory Frames
  imports HttpApi TelegramBot
begin

text \<open>
  What the services leave alone. \<open>wallet_frame\<close> is the contract under which every use case
  of the wallet service keeps a predicate of the state. \<open>db_frame\<close> asks of the predicate
  only how it reads the tables, and gives \<open>wallet_frame\<close> for the service on PostgreSQL;
  \<open>log_frame\<close> extends it to what authorization does. They are interpreted for the tables of
  accounts, and for the audit trail and the recorded heads.
\<close>

section \<open>The wallet service\<close>

text \<open>The part of the contract that the reads need, and the whole.\<close>

locale read_frame =
  fixes svc :: "'s WalletService" and P :: "'s \<Rightarrow> bool"
  assumes get_keeps: "keeps P (Store_Get (ws_wallets svc) i)"
    and list_keeps: "keeps P (Store_ListByUser (ws_wallets svc) u)"
    and get_policy_keeps: "keeps P (Store_GetPolicy (ws_wallets svc) i)"
    and balance_keeps: "ws_chain svc = Some ch \<Longrightarrow> keeps P (Probe_BalanceAt ch a n)"
begin

lemmas reads_keep = get_keeps list_keeps get_policy_keeps balance_keeps

lemma fill_balance_keeps: "P s \<Longrightarrow> fill_balance svc v s = (x, t) \<Longrightarrow> P t"
  using keepsD [OF balance_keeps] by (auto simp: fill_balance_def split: option.splits sum.splits prod.splits)

lemma view_keeps:
  assumes "P s" "view_of svc w s = (v, t)"
  shows "P t"
proof -
  obtain q s1 where q: "Store_GetPolicy (ws_wallets svc) (Wallet_ID w) s = (q, s1)" by fastforce
  with assms(2) obtain v1 where "fill_balance svc v1 s1 = (v, t)"
    by (cases q) (auto simp: view_of_def fill_policy_def zero_view_def)
  with keepsD [OF get_policy_keeps assms(1) q] show ?thesis by (rule fill_balance_keeps)
qed

lemma views_keep: "P s \<Longrightarrow> views svc ws s = (vs, t) \<Longrightarrow> P t"
  by (induction ws arbitrary: s vs) (auto split: prod.splits dest: view_keeps)

lemma List_keeps: "keeps P (WalletService_List svc u)"
  unfolding WalletService_List_def
  by (intro keeps_rules reads_keep) (auto simp: keeps_def split: prod.splits dest: views_keep)

lemma Get_keeps: "keeps P (WalletService_Get svc u i)"
  unfolding WalletService_Get_def
  by (intro keeps_rules reads_keep) (auto simp: keeps_def split: prod.splits dest: view_keeps)

end

locale wallet_frame = read_frame +
  assumes link_keeps: "keeps P (Store_Link (ws_wallets svc) w p)"
    and mark_keeps: "keeps P (Store_MarkVerified (ws_wallets svc) i tm)"
    and update_policy_keeps: "keeps P (Store_UpdatePolicy (ws_wallets svc) i p)"
    and audit_keeps: "keeps_fun P (audit svc ev)"
    and enqueue_keeps: "keeps_fun P (enqueue_verify svc i)"
    and chain_keeps: "ws_chain svc = Some ch \<Longrightarrow> keeps P (Probe_ChainID ch)"
begin

lemmas parts_keep = reads_keep link_keeps mark_keeps update_policy_keeps audit_keeps enqueue_keeps chain_keeps

lemma Link_keeps: "keeps P (WalletService_Link U svc req)"
  unfolding WalletService_Link_def Let_def
  by (cases "NewWallet U (Req_UserID req) (Req_Address req) (ws_chainID svc) (Req_Role req) (Req_Label req)")
    (auto intro!: keeps_rules parts_keep)

lemma Verify_keeps: "keeps P (WalletService_Verify svc i)"
proof (cases "ws_chain svc")
  case None
  then show ?thesis by (auto simp: WalletService_Verify_def intro!: keeps_rules parts_keep)
next
  case (Some ch)
  have "keeps P (\<lambda>s. Store_MarkVerified (ws_wallets svc) i (ws_now svc s) s)"
    using mark_keeps by (simp add: keeps_def)
  with Some show ?thesis
    unfolding WalletService_Verify_def by (auto simp: Let_def intro!: keeps_rules parts_keep)
qed

lemma UpdatePolicy_keeps: "keeps P (WalletService_UpdatePolicy svc u i p a)"
  unfolding WalletService_UpdatePolicy_def Let_def
  by (cases "Validate p") (auto intro!: keeps_rules parts_keep)

end

section \<open>The repositories\<close>

text \<open>
  A predicate of the tables that does not read wallets and policies, is not lost when an
  audit row is added, and holds again after a rollback.
\<close>

named_theorems frame_rules \<open>calls that keep the predicate of a frame\<close>

locale db_frame =
  fixes P :: "'z pgdb_scheme \<Rightarrow> bool"
  assumes frame_same: "same_db s t \<Longrightarrow> P s \<Longrightarrow> P t"
    and frame_appended: "appended s t \<Longrightarrow> P s \<Longrightarrow> P t"
    and frame_restore: "P s \<Longrightarrow> P (restore s t)"
    and frame_wallets: "P s \<Longrightarrow> P (s\<lparr>wallets := ws\<rparr>)"
    and frame_policies: "P s \<Longrightarrow> P (s\<lparr>wallet_policies := ps\<rparr>)"
begin

lemma frame_faults: "P (s\<lparr>pg_faults := fs\<rparr>) = P s"
  using frame_same [of s "s\<lparr>pg_faults := fs\<rparr>"] frame_same [of "s\<lparr>pg_faults := fs\<rparr>" s] by (auto simp: same_db_def)

lemma frame_uuid: "P s \<Longrightarrow> P (s\<lparr>pg_uuid_next := n\<rparr>)"
  by (erule frame_same [rotated]) simp

lemma stmt_keeps [frame_rules]: "keeps P m \<Longrightarrow> keeps P (stmt m)"
  by (rule keeps_stmt) (simp_all add: frame_faults)

lemma query_keeps [frame_rules]: "keeps P (query q)"
  by (rule keepsI) (blast intro: frame_same query_same)

lemma outside_keeps [frame_rules]: "keeps P (outside m)"
  by (rule keepsI) (blast intro: frame_same outside_same)

lemma transaction_keeps [frame_rules]:
  assumes "keeps P body"
  shows "keeps P (transaction body)"
  unfolding transaction_def
proof (intro keeps_attempt frame_rules keeps_throw keeps_ok keepsI)
  fix s0 r t
  assume "P s0" and run: "(case body s0 of (r, s) \<Rightarrow> (case r of
           Inl err \<Rightarrow> (Inl err, restore s0 s)
         | Inr a \<Rightarrow> (case pg_faults s of
             [] \<Rightarrow> (Inr a, s)
           | f # fs \<Rightarrow> (let s' = s\<lparr>pg_faults := fs\<rparr> in
               case f of None \<Rightarrow> (Inr a, s')
               | Some (Lost_before err) \<Rightarrow> (Inl (Wrap ''commit: '' err []), restore s0 s')
               | Some (Lost_after err) \<Rightarrow> (Inl (Wrap ''commit: '' err []), s'))))) = (r, t)"
  obtain q s where q: "body s0 = (q, s)" by fastforce
  with keepsD [OF assms \<open>P s0\<close>] have "P s" by blast
  with run q \<open>P s0\<close> show "P t"
    by (auto simp: Let_def frame_restore frame_faults split: sum.splits list.splits option.splits fault.splits)
qed

lemma with_uuid_keeps [frame_rules]: "(\<And>k. keeps P (m k)) \<Longrightarrow> keeps P (with_uuid i m)"
  by (auto simp: keeps_def with_uuid_def split: option.splits)

lemma rows_keep [frame_rules]:
  "keeps P (insert_wallet w)" "keeps P (insert_policy i p)"
  "keeps P (update_wallet_rows hit f)" "keeps P (update_policy_rows k p)"
  by (auto simp: keeps_def insert_wallet_def insert_policy_def update_wallet_rows_def update_policy_rows_def
      with_uuid_def Let_def frame_wallets frame_policies frame_uuid split: option.splits)

lemma repo_keeps [frame_rules]:
  "keeps P (WalletRepo_Link w p)" "keeps P (WalletRepo_Get i)"
  "keeps P (WalletRepo_ListByUser u)" "keeps P (WalletRepo_MarkVerified i tm)"
  "keeps P (WalletRepo_GetPolicy i)" "keeps P (WalletRepo_UpdatePolicy i p)"
proof -
  have link: "keeps P (link_tx w p)"
    unfolding link_tx_def scanWallet_def by (intro keeps_rules frame_rules)
  show "keeps P (WalletRepo_Link w p)"
    unfolding WalletRepo_Link_def by (cases "Validate p") (auto intro!: keeps_rules transaction_keeps link)
  show "keeps P (WalletRepo_Get i)" "keeps P (WalletRepo_ListByUser u)" "keeps P (WalletRepo_GetPolicy i)"
    by (rule keepsI, blast intro: frame_same Get_facts(1) ListByUser_same GetPolicy_facts(1))+
  have "keeps P (\<lambda>s. update_wallet_rows hit (f s) s)" for hit f
    by (rule keepsI) (rule keepsD [OF rows_keep(3)])
  then show "keeps P (WalletRepo_MarkVerified i tm)"
    unfolding WalletRepo_MarkVerified_def by (intro keeps_rules frame_rules)
  show "keeps P (WalletRepo_UpdatePolicy i p)"
    unfolding WalletRepo_UpdatePolicy_def by (cases "Validate p") (auto intro!: keeps_rules frame_rules)
qed

lemma record_keeps: "P s \<Longrightarrow> P (snd (AuditRepo_Record ev s))"
  using Record_appended [OF prod.collapse [symmetric]] by (rule frame_appended)

end

sublocale db_frame \<subseteq> svc: wallet_frame "pg_wallet_service U ch qu chainID defaults clock" P
  for U ch qu chainID defaults clock
proof unfold_locales
  let ?svc = "pg_wallet_service U ch qu chainID defaults clock"
  show "keeps P (Store_Link (ws_wallets ?svc) w p)" "keeps P (Store_Get (ws_wallets ?svc) i)"
    "keeps P (Store_ListByUser (ws_wallets ?svc) u)" "keeps P (Store_MarkVerified (ws_wallets ?svc) i tm)"
    "keeps P (Store_GetPolicy (ws_wallets ?svc) i)" "keeps P (Store_UpdatePolicy (ws_wallets ?svc) i p)"
    for w p i u tm by (simp_all add: pg_wallet_service_def NewWalletService_def repo_keeps)
  show "keeps_fun P (audit ?svc ev)" for ev
    by (auto simp: keeps_fun_def audit_def recordAudit_def pg_wallet_service_def NewWalletService_def AuditRepo_def
        intro: record_keeps)
  show "keeps_fun P (enqueue_verify ?svc i)" for i
    by (auto simp: keeps_fun_def enqueue_verify_def pg_wallet_service_def NewWalletService_def outside_queue_def
        split: option.splits intro: keepsD [OF outside_keeps _ prod.collapse [symmetric]])
  show "ws_chain ?svc = Some c \<Longrightarrow> keeps P (Probe_ChainID c)"
    "ws_chain ?svc = Some c \<Longrightarrow> keeps P (Probe_BalanceAt c a n)" for c a n
    by (auto simp: pg_wallet_service_def NewWalletService_def outside_probe_def outside_keeps)
qed

section \<open>Authorization\<close>

text \<open>A predicate that does not read the tables of accounts either is kept by onboarding and authentication.\<close>

locale log_frame = db_frame +
  assumes frame_users: "P s \<Longrightarrow> P (s\<lparr>users := us\<rparr>)"
    and frame_telegram_users: "P s \<Longrightarrow> P (s\<lparr>telegram_users := ts\<rparr>)"
begin

lemma ensure_keeps: "keeps P (UserRepo_EnsureTelegramUser tu)"
proof -
  have "keeps P insert_user" "keeps P (insert_tg tu k)" "keeps P (refresh_tg tu)" for k
    by (auto simp: keeps_def insert_user_def insert_tg_def refresh_tg_def with_uuid_def Let_def
        frame_users frame_telegram_users frame_uuid split: option.splits)
  then have "keeps P (ensure_tx tu)"
    unfolding ensure_tx_def load_identity_def scanTelegramUser_def by (intro keeps_rules frame_rules)
  then show ?thesis unfolding UserRepo_EnsureTelegramUser_def by (intro keeps_rules frame_rules)
qed

lemma Authorize_keeps: "keeps P (Authorize (pg_onboarding allowlist clock) tu)"
proof (rule keeps_Authorize)
  show "keeps P (EnsureTelegramUser (ob_users (pg_onboarding allowlist clock)) tu)"
    by (simp add: pg_onboarding_def NewOnboarding_def UserRepo_def ensure_keeps)
  show "keeps_fun P (Onboarding_recordAudit (pg_onboarding allowlist clock) ev)" for ev
    by (auto simp: keeps_fun_def Onboarding_recordAudit_def pg_onboarding_def NewOnboarding_def AuditRepo_def intro: record_keeps)
qed

lemma Authenticate_keeps: "keeps P (Authenticate (pg_miniapp U K v allowlist clock) raw)"
proof (rule keeps_Authenticate)
  show "keeps P (verify raw)" if "ma_verifier (pg_miniapp U K v allowlist clock) = Some verify" for verify
    using that by (auto simp: pg_miniapp_def NewMiniAppAuth_def outside_keeps)
  show "keeps P (Authorize (ma_onboarding (pg_miniapp U K v allowlist clock)) tu)" for tu
    by (simp add: pg_miniapp_def NewMiniAppAuth_def Authorize_keeps)
  show "keeps_fun P (MiniAppAuth_recordAudit (pg_miniapp U K v allowlist clock) ev)" for ev
    unfolding keeps_fun_def using frame_appended [OF pg_miniapp_audit] by blast
qed

end

section \<open>The tables of accounts\<close>

definition identities :: "'z pgdb_scheme \<Rightarrow> User list \<times> tg_row list" where
  "identities s = (users s, telegram_users s)"

definition identities_are :: "User list \<times> tg_row list \<Rightarrow> 'z pgdb_scheme \<Rightarrow> bool" where
  "identities_are X s \<longleftrightarrow> identities s = X"

interpretation pgi: db_frame "identities_are X" for X
  by unfold_locales (auto simp: identities_are_def identities_def same_db_def appended_def restore_def)

section \<open>The audit trail and the recorded heads\<close>

text \<open>\<open>logged s t\<close>: the audit trail of \<open>t\<close> continues that of \<open>s\<close>, and the recorded heads are the same.\<close>

definition logged :: "'z pgdb_scheme \<Rightarrow> 'z pgdb_scheme \<Rightarrow> bool" where
  "logged s t \<longleftrightarrow> (\<exists>rows. audit_logs t = audit_logs s @ rows) \<and> chain_sync_state t = chain_sync_state s"

lemma logged_refl [simp, intro]: "logged s s"
  by (simp add: logged_def)

lemma logged_trans [trans]: "logged s t \<Longrightarrow> logged t u \<Longrightarrow> logged s u"
  by (auto simp: logged_def)

interpretation pgl: log_frame "logged s" for s
  by unfold_locales (auto simp: logged_def same_db_def appended_def restore_def)

lemma keeps_logged: "(\<And>s. keeps (logged s) m) \<Longrightarrow> m s = (r, t) \<Longrightarrow> logged s t"
  using keepsD [of "logged s" m s r t] by simp

end
