(* ===== verification/Config.thy ===== *)
theory Config
  imports DomainUser DomainWallet
begin

text \<open>
  \<open>internal/config\<close>: the configuration read from the environment at startup, and the
  policy the main packages derive from it. The environment is a function from names to
  values. \<open>strconv.ParseFloat\<close> and \<open>time.ParseDuration\<close> round in floating point and are
  parameters; the other parsers are modelled.
\<close>

section \<open>The configuration\<close>

record TelegramConfig =
  TC_BotToken :: string
  TC_AllowedUserIDs :: "i64 list"
  TC_MiniAppURL :: string
  TC_InitDataTTL :: duration
  TC_RateLimit :: int
  TC_RateWindow :: duration

definition Enabled :: "TelegramConfig \<Rightarrow> bool" where
  "Enabled t \<longleftrightarrow> TC_BotToken t \<noteq> []"

record ChainConfig =
  CC_ChainID :: u64
  CC_RPCURL :: string
  CC_WSURL :: string
  CC_RequestTimeout :: duration
  CC_MaxRetries :: int
  CC_RetryBackoff :: duration
  CC_BlockStaleAfter :: duration

record PostgresConfig =
  PC_URL :: string
  PC_MaxConns :: "32 word"
  PC_MinConns :: "32 word"
  PC_MaxConnLifetime :: duration
  PC_MaxConnIdleTime :: duration
  PC_ConnectTimeout :: duration

record RedisConfig =
  RC_Addr :: string
  RC_Password :: string
  RC_DB :: int
  RC_PoolSize :: int

record WorkerConfig =
  WC_Concurrency :: int
  WC_Queues :: "(string \<times> int) list"
  WC_ShutdownTimeout :: duration

record RiskConfig =
  RK_StopLossPercent :: float64
  RK_CapitalRecoveryPercent :: float64
  RK_MaxPositionPercent :: float64
  RK_MaxOpenPositions :: int
  RK_DailyLossLimitPercent :: float64
  RK_MaxSlippageBPS :: int
  RK_MinLiquidityUSD :: float64
  RK_MinScore :: float64

record Config =
  Cfg_AppEnv :: string
  Cfg_LogLevel :: string
  Cfg_LogJSON :: bool
  Cfg_HTTPAddr :: string
  Cfg_ShutdownTimeout :: duration
  Cfg_Chain :: ChainConfig
  Cfg_Postgres :: PostgresConfig
  Cfg_Redis :: RedisConfig
  Cfg_Worker :: WorkerConfig
  Cfg_Risk :: RiskConfig
  Cfg_Telegram :: TelegramConfig

definition DefaultQueues :: "(string \<times> int) list" where
  "DefaultQueues = [(''critical'', 6), (''default'', 3), (''analysis'', 2), (''market'', 2),
     (''notifications'', 2), (''maintenance'', 1)]"

section \<open>Reading one variable\<close>

type_synonym env = "string \<Rightarrow> string option"

text \<open>A getter returns a value and an error, as in the source.\<close>

type_synonym 'a got = "'a \<times> error option"

record text_parsers =
  ParseFloat :: "string \<Rightarrow> error + float64"
  ParseDuration :: "string \<Rightarrow> error + duration"

definition Getenv :: "env \<Rightarrow> string \<Rightarrow> string" where
  "Getenv env key = (case env key of None \<Rightarrow> [] | Some v \<Rightarrow> v)"

text \<open>
  The error of \<open>strconv\<close>: digits are read from the left, and the range is exceeded or a
  character is wrong, whichever comes first.
\<close>

fun scan_range :: "int \<Rightarrow> string \<Rightarrow> bool" where
  "scan_range n [] \<longleftrightarrow> False"
| "scan_range n (c # s) \<longleftrightarrow> is_digit c \<and>
     (let n' = 10 * n + int (digit_val c) in 2 ^ 64 \<le> n' \<or> scan_range n' s)"

definition NumError :: "unicode \<Rightarrow> string \<Rightarrow> string \<Rightarrow> string \<Rightarrow> error" where
  "NumError U fn s body = New (''strconv.'' @ fn @ '': parsing '' @ Quote U s @ '': ''
     @ (if scan_range 0 body \<or> all_digits body then ''value out of range'' else ''invalid syntax''))"

definition unsigned_part :: "string \<Rightarrow> string" where
  "unsigned_part s = (case s of [] \<Rightarrow> [] | c # t \<Rightarrow> if c = CHR ''-'' \<or> c = CHR ''+'' then t else s)"

definition Atoi :: "unicode \<Rightarrow> string \<Rightarrow> error + int" where
  "Atoi U s = (case ParseInt64 s of None \<Rightarrow> Inl (NumError U ''Atoi'' s (unsigned_part s)) | Some n \<Rightarrow> Inr n)"

definition ParseUint :: "unicode \<Rightarrow> string \<Rightarrow> error + u64" where
  "ParseUint U s = (case ParseUint64 s of None \<Rightarrow> Inl (NumError U ''ParseUint'' s s) | Some n \<Rightarrow> Inr (of_nat n))"

definition ParseBool :: "unicode \<Rightarrow> string \<Rightarrow> error + bool" where
  "ParseBool U s =
     (if s \<in> set [''1'', ''t'', ''T'', ''true'', ''TRUE'', ''True''] then Inr True
      else if s \<in> set [''0'', ''f'', ''F'', ''false'', ''FALSE'', ''False''] then Inr False
      else Inl (New (''strconv.ParseBool: parsing '' @ Quote U s @ '': invalid syntax'')))"

definition getString :: "env \<Rightarrow> string \<Rightarrow> string \<Rightarrow> string" where
  "getString env key def = (case env key of Some v \<Rightarrow> if v \<noteq> [] then v else def | None \<Rightarrow> def)"

text \<open>The shape of the getters of a parsed value; \<open>zero\<close> is what is returned with an error.\<close>

definition get_parsed :: "(string \<Rightarrow> error + 'a) \<Rightarrow> 'a \<Rightarrow> env \<Rightarrow> string \<Rightarrow> 'a \<Rightarrow> 'a got" where
  "get_parsed parse zero env key def = (case env key of
       None \<Rightarrow> (def, None)
     | Some v \<Rightarrow> if v = [] then (def, None)
         else case parse v of Inl err \<Rightarrow> (zero, Some (Wrap (key @ '': '') err [])) | Inr x \<Rightarrow> (x, None))"

definition getInt :: "unicode \<Rightarrow> env \<Rightarrow> string \<Rightarrow> int \<Rightarrow> int got" where
  "getInt U = get_parsed (Atoi U) 0"

definition getInt32 :: "unicode \<Rightarrow> env \<Rightarrow> string \<Rightarrow> 32 word \<Rightarrow> 32 word got" where
  "getInt32 U env key def = (case getInt U env key (sint def) of
       (n, Some err) \<Rightarrow> (0, Some err) | (n, None) \<Rightarrow> (word_of_int n, None))"

definition getUint :: "unicode \<Rightarrow> env \<Rightarrow> string \<Rightarrow> u64 \<Rightarrow> u64 got" where
  "getUint U = get_parsed (ParseUint U) 0"

definition getFloat :: "text_parsers \<Rightarrow> env \<Rightarrow> string \<Rightarrow> float64 \<Rightarrow> float64 got" where
  "getFloat L = get_parsed (ParseFloat L) (Fin 0)"

definition getBool :: "unicode \<Rightarrow> env \<Rightarrow> string \<Rightarrow> bool \<Rightarrow> bool got" where
  "getBool U = get_parsed (ParseBool U) False"

definition getDuration :: "text_parsers \<Rightarrow> env \<Rightarrow> string \<Rightarrow> duration \<Rightarrow> duration got" where
  "getDuration L = get_parsed (ParseDuration L) 0"

fun parse_ids :: "unicode \<Rightarrow> string \<Rightarrow> string list \<Rightarrow> i64 list \<Rightarrow> i64 list got" where
  "parse_ids U key [] out = (out, None)"
| "parse_ids U key (p # ps) out =
     (let part = TrimSpace p in
      if part = [] then parse_ids U key ps out
      else case ParseInt64 part of
        None \<Rightarrow> ([], Some (New (key @ '': '' @ Quote U part @ '' is not a valid id'')))
      | Some n \<Rightarrow> if n \<le> 0 then ([], Some (New (key @ '': id '' @ dec_int n @ '' must be positive'')))
          else parse_ids U key ps (out @ [word_of_int n]))"

definition getInt64List :: "unicode \<Rightarrow> env \<Rightarrow> string \<Rightarrow> i64 list got" where
  "getInt64List U env key = (case env key of
       None \<Rightarrow> ([], None)
     | Some raw \<Rightarrow> if TrimSpace raw = [] then ([], None) else parse_ids U key (split_on CHR '','' raw) [])"

section \<open>Loading and validating\<close>

text \<open>The closure \<open>e\<close>: an error is collected, reading goes on.\<close>

definition collect :: "'a got \<Rightarrow> error list" where
  "collect g = (case snd g of None \<Rightarrow> [] | Some err \<Rightarrow> [err])"

definition load_chain :: "unicode \<Rightarrow> text_parsers \<Rightarrow> env \<Rightarrow> ChainConfig \<times> error list" where
  "load_chain U L env =
     (let chainID = getUint U env ''RH_CHAIN_ID'' 4663;
          timeout = getDuration L env ''RH_REQUEST_TIMEOUT'' (10 * second);
          retries = getInt U env ''RH_MAX_RETRIES'' 3;
          backoff = getDuration L env ''RH_RETRY_BACKOFF'' (250 * millisecond);
          stale = getDuration L env ''RH_BLOCK_STALE_AFTER'' (2 * minute)
      in (\<lparr>CC_ChainID = fst chainID,
           CC_RPCURL = getString env ''RH_RPC_URL'' ''https://rpc.mainnet.chain.robinhood.com'',
           CC_WSURL = getString env ''RH_WS_URL'' [], CC_RequestTimeout = fst timeout, CC_MaxRetries = fst retries,
           CC_RetryBackoff = fst backoff, CC_BlockStaleAfter = fst stale\<rparr>,
          collect chainID @ collect timeout @ collect retries @ collect backoff @ collect stale))"

definition load_postgres :: "unicode \<Rightarrow> text_parsers \<Rightarrow> env \<Rightarrow> PostgresConfig \<times> error list" where
  "load_postgres U L env =
     (let maxc = getInt32 U env ''POSTGRES_MAX_CONNS'' 10;
          minc = getInt32 U env ''POSTGRES_MIN_CONNS'' 1;
          lifetime = getDuration L env ''POSTGRES_MAX_CONN_LIFETIME'' hour;
          idle = getDuration L env ''POSTGRES_MAX_CONN_IDLE_TIME'' (30 * minute);
          timeout = getDuration L env ''POSTGRES_CONNECT_TIMEOUT'' (10 * second)
      in (\<lparr>PC_URL = getString env ''POSTGRES_URL'' [], PC_MaxConns = fst maxc, PC_MinConns = fst minc,
           PC_MaxConnLifetime = fst lifetime, PC_MaxConnIdleTime = fst idle, PC_ConnectTimeout = fst timeout\<rparr>,
          collect maxc @ collect minc @ collect lifetime @ collect idle @ collect timeout))"

definition load_redis :: "unicode \<Rightarrow> env \<Rightarrow> RedisConfig \<times> error list" where
  "load_redis U env =
     (let db = getInt U env ''REDIS_DB'' 0; pool = getInt U env ''REDIS_POOL_SIZE'' 10
      in (\<lparr>RC_Addr = getString env ''REDIS_ADDR'' ''localhost:6379'', RC_Password = Getenv env ''REDIS_PASSWORD'',
           RC_DB = fst db, RC_PoolSize = fst pool\<rparr>, collect db @ collect pool))"

definition load_worker :: "unicode \<Rightarrow> text_parsers \<Rightarrow> env \<Rightarrow> WorkerConfig \<times> error list" where
  "load_worker U L env =
     (let conc = getInt U env ''WORKER_CONCURRENCY'' 10;
          shutdown = getDuration L env ''WORKER_SHUTDOWN_TIMEOUT'' (30 * second)
      in (\<lparr>WC_Concurrency = fst conc, WC_Queues = DefaultQueues, WC_ShutdownTimeout = fst shutdown\<rparr>,
          collect conc @ collect shutdown))"

definition load_risk :: "unicode \<Rightarrow> text_parsers \<Rightarrow> env \<Rightarrow> RiskConfig \<times> error list" where
  "load_risk U L env =
     (let stop = getFloat L env ''STOP_LOSS_PERCENT'' (Fin 5);
          recovery = getFloat L env ''CAPITAL_RECOVERY_PERCENT'' (Fin 100);
          position = getFloat L env ''MAX_POSITION_PERCENT'' (Fin 5);
          open_positions = getInt U env ''MAX_OPEN_POSITIONS'' 5;
          daily = getFloat L env ''DAILY_LOSS_LIMIT_PERCENT'' (Fin 10);
          slippage = getInt U env ''MAX_SLIPPAGE_BPS'' 100;
          liquidity = getFloat L env ''MIN_LIQUIDITY_USD'' (Fin 10000);
          score = getFloat L env ''MIN_SCORE'' (Fin 60)
      in (\<lparr>RK_StopLossPercent = fst stop, RK_CapitalRecoveryPercent = fst recovery,
           RK_MaxPositionPercent = fst position, RK_MaxOpenPositions = fst open_positions,
           RK_DailyLossLimitPercent = fst daily, RK_MaxSlippageBPS = fst slippage,
           RK_MinLiquidityUSD = fst liquidity, RK_MinScore = fst score\<rparr>,
          collect stop @ collect recovery @ collect position @ collect open_positions @ collect daily @ collect slippage @ collect liquidity @ collect score))"

definition load_telegram :: "unicode \<Rightarrow> text_parsers \<Rightarrow> env \<Rightarrow> TelegramConfig \<times> error list" where
  "load_telegram U L env =
     (let ids = getInt64List U env ''TELEGRAM_ALLOWED_USER_IDS'';
          ttl = getDuration L env ''TELEGRAM_INITDATA_TTL'' (15 * minute);
          rate = getInt U env ''TELEGRAM_RATE_LIMIT'' 20;
          window = getDuration L env ''TELEGRAM_RATE_WINDOW'' minute
      in (\<lparr>TC_BotToken = Getenv env ''TELEGRAM_BOT_TOKEN'', TC_AllowedUserIDs = fst ids,
           TC_MiniAppURL = getString env ''TELEGRAM_MINIAPP_URL'' [], TC_InitDataTTL = fst ttl,
           TC_RateLimit = fst rate, TC_RateWindow = fst window\<rparr>,
          collect ids @ collect ttl @ collect rate @ collect window))"

definition read_env :: "unicode \<Rightarrow> text_parsers \<Rightarrow> env \<Rightarrow> Config \<times> error list" where
  "read_env U L env =
     (let json = getBool U env ''LOG_JSON'' False;
          shutdown = getDuration L env ''SHUTDOWN_TIMEOUT'' (20 * second)
      in (\<lparr>Cfg_AppEnv = getString env ''APP_ENV'' ''development'', Cfg_LogLevel = getString env ''LOG_LEVEL'' ''info'',
           Cfg_LogJSON = fst json, Cfg_HTTPAddr = getString env ''HTTP_ADDR'' '':8080'', Cfg_ShutdownTimeout = fst shutdown,
           Cfg_Chain = fst (load_chain U L env), Cfg_Postgres = fst (load_postgres U L env),
           Cfg_Redis = fst (load_redis U env), Cfg_Worker = fst (load_worker U L env),
           Cfg_Risk = fst (load_risk U L env), Cfg_Telegram = fst (load_telegram U L env)\<rparr>,
          collect json @ collect shutdown @ snd (load_chain U L env) @ snd (load_postgres U L env) @ snd (load_redis U env)
          @ snd (load_worker U L env) @ snd (load_risk U L env) @ snd (load_telegram U L env)))"

definition validate :: "Config \<Rightarrow> error option" where
  "validate c =
     (let pg = Cfg_Postgres c; ch = Cfg_Chain c; rk = Cfg_Risk c; tg = Cfg_Telegram c in errors_Join
     (err_if (PC_URL pg = []) ''POSTGRES_URL is required''
      @ err_if (CC_RPCURL ch = []) ''RH_RPC_URL is required''
      @ err_if (CC_ChainID ch = 0) ''RH_CHAIN_ID must be non-zero''
      @ err_if (RC_Addr (Cfg_Redis c) = []) ''REDIS_ADDR is required''
      @ err_if (sint (PC_MaxConns pg) < 1) ''POSTGRES_MAX_CONNS must be >= 1''
      @ err_if (sint (PC_MinConns pg) < 0 \<or> sint (PC_MinConns pg) > sint (PC_MaxConns pg))
          ''POSTGRES_MIN_CONNS must be between 0 and POSTGRES_MAX_CONNS''
      @ err_if (WC_Concurrency (Cfg_Worker c) < 1) ''WORKER_CONCURRENCY must be >= 1''
      @ err_if (CC_MaxRetries ch < 0) ''RH_MAX_RETRIES must be >= 0''
      @ err_if (CC_RequestTimeout ch \<le> 0) ''RH_REQUEST_TIMEOUT must be > 0''
      @ err_if (float_le (RK_StopLossPercent rk) (Fin 0) \<or> float_le (Fin 100) (RK_StopLossPercent rk))
          ''STOP_LOSS_PERCENT must be in (0,100)''
      @ err_if (float_le (RK_CapitalRecoveryPercent rk) (Fin 0)) ''CAPITAL_RECOVERY_PERCENT must be > 0''
      @ err_if (RK_MaxOpenPositions rk < 1) ''MAX_OPEN_POSITIONS must be >= 1''
      @ err_if (RK_MaxSlippageBPS rk < 0 \<or> RK_MaxSlippageBPS rk > 10000) ''MAX_SLIPPAGE_BPS must be in [0,10000]''
      @ err_if (Enabled tg \<and> length (TC_AllowedUserIDs tg) = 0)
          ''TELEGRAM_ALLOWED_USER_IDS is required when TELEGRAM_BOT_TOKEN is set''
      @ err_if (TC_InitDataTTL tg \<le> 0) ''TELEGRAM_INITDATA_TTL must be > 0''
      @ err_if (TC_RateLimit tg < 1) ''TELEGRAM_RATE_LIMIT must be >= 1''))"

definition Load :: "unicode \<Rightarrow> text_parsers \<Rightarrow> env \<Rightarrow> error + Config" where
  "Load U L env = (case read_env U L env of (cfg, errs) \<Rightarrow>
     if errs \<noteq> [] then Inl (Join errs)
     else case validate cfg of Some err \<Rightarrow> Inl err | None \<Rightarrow> Inr cfg)"

text \<open>
  \<open>strings.EqualFold\<close> with a text of letters that fold only to their other case in Unicode too
  (no \<open>k\<close> and no \<open>s\<close>), so that folding is that of ASCII.
\<close>

definition IsProduction :: "Config \<Rightarrow> bool" where
  "IsProduction c \<longleftrightarrow> map ascii_lower (Cfg_AppEnv c) = ''production''"

text \<open>The same two functions in the main packages of the bot, the API and the worker.\<close>

definition toTelegramIDs :: "i64 list \<Rightarrow> TelegramUserID list" where
  "toTelegramIDs ids = map (\<lambda>i. i) ids"

definition defaultPolicy :: "Config \<Rightarrow> WalletPolicy" where
  "defaultPolicy cfg =
     (let rk = Cfg_Risk cfg in zero_WalletPolicy
       \<lparr>Pol_MaxPositionPercent := RK_MaxPositionPercent rk, Pol_MaxOpenPositions := RK_MaxOpenPositions rk,
        Pol_DailyLossLimitPercent := RK_DailyLossLimitPercent rk, Pol_StopLossPercent := RK_StopLossPercent rk,
        Pol_CapitalRecoveryPercent := RK_CapitalRecoveryPercent rk, Pol_MaxSlippageBPS := RK_MaxSlippageBPS rk,
        Pol_MinLiquidityUSD := RK_MinLiquidityUSD rk, Pol_TradingEnabled := False\<rparr>)"

section \<open>What is accepted\<close>

text \<open>
  The variables that are parsed and the texts their kind admits. The empty text counts as
  not set.
\<close>

datatype kind = KInt | KUint | KFloat | KBool | KDuration | KIds

definition variables :: "(string \<times> kind) list" where
  "variables =
     [(''LOG_JSON'', KBool), (''SHUTDOWN_TIMEOUT'', KDuration),
      (''RH_CHAIN_ID'', KUint), (''RH_REQUEST_TIMEOUT'', KDuration), (''RH_MAX_RETRIES'', KInt),
      (''RH_RETRY_BACKOFF'', KDuration), (''RH_BLOCK_STALE_AFTER'', KDuration),
      (''POSTGRES_MAX_CONNS'', KInt), (''POSTGRES_MIN_CONNS'', KInt), (''POSTGRES_MAX_CONN_LIFETIME'', KDuration),
      (''POSTGRES_MAX_CONN_IDLE_TIME'', KDuration), (''POSTGRES_CONNECT_TIMEOUT'', KDuration),
      (''REDIS_DB'', KInt), (''REDIS_POOL_SIZE'', KInt),
      (''WORKER_CONCURRENCY'', KInt), (''WORKER_SHUTDOWN_TIMEOUT'', KDuration),
      (''STOP_LOSS_PERCENT'', KFloat), (''CAPITAL_RECOVERY_PERCENT'', KFloat), (''MAX_POSITION_PERCENT'', KFloat),
      (''MAX_OPEN_POSITIONS'', KInt), (''DAILY_LOSS_LIMIT_PERCENT'', KFloat), (''MAX_SLIPPAGE_BPS'', KInt),
      (''MIN_LIQUIDITY_USD'', KFloat), (''MIN_SCORE'', KFloat),
      (''TELEGRAM_ALLOWED_USER_IDS'', KIds), (''TELEGRAM_INITDATA_TTL'', KDuration),
      (''TELEGRAM_RATE_LIMIT'', KInt), (''TELEGRAM_RATE_WINDOW'', KDuration)]"

definition is_id :: "string \<Rightarrow> bool" where
  "is_id s \<longleftrightarrow> (case ParseInt64 s of None \<Rightarrow> False | Some n \<Rightarrow> 0 < n)"

fun admits :: "text_parsers \<Rightarrow> kind \<Rightarrow> string \<Rightarrow> bool" where
  "admits L KInt v \<longleftrightarrow> ParseInt64 v \<noteq> None"
| "admits L KUint v \<longleftrightarrow> ParseUint64 v \<noteq> None"
| "admits L KFloat v \<longleftrightarrow> \<not> isl (ParseFloat L v)"
| "admits L KBool v \<longleftrightarrow> v \<in> set [''1'', ''t'', ''T'', ''true'', ''TRUE'', ''True'',
     ''0'', ''f'', ''F'', ''false'', ''FALSE'', ''False'']"
| "admits L KDuration v \<longleftrightarrow> \<not> isl (ParseDuration L v)"
| "admits L KIds v \<longleftrightarrow> (\<forall>p \<in> set (split_on CHR '','' v). TrimSpace p = [] \<or> is_id (TrimSpace p))"

definition var_ok :: "text_parsers \<Rightarrow> env \<Rightarrow> string \<times> kind \<Rightarrow> bool" where
  "var_ok L env = (\<lambda>(k, kd). case env k of None \<Rightarrow> True | Some v \<Rightarrow> v = [] \<or> admits L kd v)"

definition well_formed :: "text_parsers \<Rightarrow> env \<Rightarrow> bool" where
  "well_formed L env \<longleftrightarrow> list_all (var_ok L env) variables"

text \<open>The constraints as the messages of \<open>validate\<close> word them; the two percentages are numbers.\<close>

definition config_ok :: "Config \<Rightarrow> bool" where
  "config_ok c \<longleftrightarrow>
     PC_URL (Cfg_Postgres c) \<noteq> [] \<and> CC_RPCURL (Cfg_Chain c) \<noteq> [] \<and> RC_Addr (Cfg_Redis c) \<noteq> []
   \<and> CC_ChainID (Cfg_Chain c) \<noteq> 0 \<and> 0 \<le> CC_MaxRetries (Cfg_Chain c) \<and> 0 < CC_RequestTimeout (Cfg_Chain c)
   \<and> 1 \<le> sint (PC_MaxConns (Cfg_Postgres c)) \<and> 0 \<le> sint (PC_MinConns (Cfg_Postgres c))
   \<and> sint (PC_MinConns (Cfg_Postgres c)) \<le> sint (PC_MaxConns (Cfg_Postgres c))
   \<and> 1 \<le> WC_Concurrency (Cfg_Worker c)
   \<and> (case RK_StopLossPercent (Cfg_Risk c) of Fin x \<Rightarrow> 0 < x \<and> x < 100 | _ \<Rightarrow> False)
   \<and> (case RK_CapitalRecoveryPercent (Cfg_Risk c) of Fin x \<Rightarrow> 0 < x | _ \<Rightarrow> False)
   \<and> 1 \<le> RK_MaxOpenPositions (Cfg_Risk c)
   \<and> 0 \<le> RK_MaxSlippageBPS (Cfg_Risk c) \<and> RK_MaxSlippageBPS (Cfg_Risk c) \<le> 10000
   \<and> (Enabled (Cfg_Telegram c) \<longrightarrow> TC_AllowedUserIDs (Cfg_Telegram c) \<noteq> [])
   \<and> 0 < TC_InitDataTTL (Cfg_Telegram c) \<and> 1 \<le> TC_RateLimit (Cfg_Telegram c)"

lemma float_le_Fin_right: "float_le x (Fin r) \<longleftrightarrow> x = NegInf \<or> (\<exists>y. x = Fin y \<and> y \<le> r)"
  by (cases x) auto

lemma float_le_Fin_left: "float_le (Fin r) x \<longleftrightarrow> x = PosInf \<or> (\<exists>y. x = Fin y \<and> r \<le> y)"
  by (cases x) auto

lemma validate_None:
  assumes "RK_StopLossPercent (Cfg_Risk c) = Fin x" "RK_CapitalRecoveryPercent (Cfg_Risk c) = Fin y"
  shows "validate c = None \<longleftrightarrow> config_ok c"
  by (auto simp: validate_def config_ok_def Let_def assms not_le not_less)

lemma snd_get_parsed:
  assumes "\<And>v. isl (parse v) \<longleftrightarrow> \<not> admits L kd v"
  shows "snd (get_parsed parse zero env key def) = None \<longleftrightarrow> var_ok L env (key, kd)"
proof (cases "env key")
  case (Some v)
  with assms [of v] show ?thesis by (cases "parse v") (simp_all add: get_parsed_def var_ok_def)
qed (simp add: get_parsed_def var_ok_def)

lemma collect_Nil [simp]: "collect g = [] \<longleftrightarrow> snd g = None"
  by (simp add: collect_def split: option.splits)

lemma getter_errors:
  "snd (getInt U env k i) = None \<longleftrightarrow> var_ok L env (k, KInt)"
  "snd (getInt32 U env k j) = None \<longleftrightarrow> var_ok L env (k, KInt)"
  "snd (getUint U env k u) = None \<longleftrightarrow> var_ok L env (k, KUint)"
  "snd (getFloat L env k f) = None \<longleftrightarrow> var_ok L env (k, KFloat)"
  "snd (getBool U env k b) = None \<longleftrightarrow> var_ok L env (k, KBool)"
  "snd (getDuration L env k d) = None \<longleftrightarrow> var_ok L env (k, KDuration)"
proof -
  show int: "snd (getInt U env k i) = None \<longleftrightarrow> var_ok L env (k, KInt)" for i
    unfolding getInt_def by (rule snd_get_parsed) (simp add: Atoi_def split: option.splits)
  have "snd (getInt32 U env k j) = snd (getInt U env k (sint j))"
    by (simp add: getInt32_def split: prod.splits option.splits)
  with int show "snd (getInt32 U env k j) = None \<longleftrightarrow> var_ok L env (k, KInt)" by simp
  show "snd (getUint U env k u) = None \<longleftrightarrow> var_ok L env (k, KUint)"
    unfolding getUint_def by (rule snd_get_parsed) (simp add: ParseUint_def split: option.splits)
  show "snd (getFloat L env k f) = None \<longleftrightarrow> var_ok L env (k, KFloat)"
    unfolding getFloat_def by (rule snd_get_parsed) simp
  show "snd (getBool U env k b) = None \<longleftrightarrow> var_ok L env (k, KBool)"
    unfolding getBool_def by (rule snd_get_parsed) (simp add: ParseBool_def)
  show "snd (getDuration L env k d) = None \<longleftrightarrow> var_ok L env (k, KDuration)"
    unfolding getDuration_def by (rule snd_get_parsed) simp
qed

lemma blank_one_part: "TrimSpace raw = [] \<Longrightarrow> split_on CHR '','' raw = [raw]"
  using TrimSpace_keeps_visible [of "CHR '',''" raw] by (intro split_on_single) auto

text \<open>The parts that count, and what the loop makes of them.\<close>

definition id_parts :: "string \<Rightarrow> string list" where
  "id_parts raw = filter (\<lambda>p. p \<noteq> []) (map TrimSpace (split_on CHR '','' raw))"

lemma parse_ids_parts:
  "parse_ids U key ps out = (ids, None) \<longleftrightarrow>
     (\<forall>p \<in> set ps. TrimSpace p = [] \<or> is_id (TrimSpace p))
     \<and> ids = out @ map (\<lambda>p. word_of_int (the (ParseInt64 p))) (filter (\<lambda>p. p \<noteq> []) (map TrimSpace ps))"
  by (induction ps arbitrary: out) (auto simp: Let_def is_id_def split: option.splits)

lemma parse_ids_snd: "snd (parse_ids U key ps out) = None \<longleftrightarrow> (\<forall>p \<in> set ps. TrimSpace p = [] \<or> is_id (TrimSpace p))"
  by (metis parse_ids_parts prod.collapse sndI)

lemma getInt64List_Some:
  assumes "env key = Some raw"
  shows "getInt64List U env key = (ids, None) \<longleftrightarrow>
    admits L KIds raw \<and> ids = map (\<lambda>p. word_of_int (the (ParseInt64 p))) (id_parts raw)"
proof (cases "TrimSpace raw = []")
  case True
  with assms blank_one_part [OF True] show ?thesis by (auto simp: getInt64List_def id_parts_def)
next
  case False
  with assms show ?thesis by (simp add: getInt64List_def parse_ids_parts id_parts_def)
qed

lemma snd_getInt64List: "snd (getInt64List U env key) = None \<longleftrightarrow> var_ok L env (key, KIds)"
proof (cases "env key")
  case None
  then show ?thesis by (simp add: getInt64List_def var_ok_def)
next
  case (Some raw)
  have "TrimSpace [] = []" by (simp add: TrimSpace_def trim_left.simps trim_left_rev.simps)
  then have "admits L KIds []" by simp
  with getInt64List_Some [where env = env, OF Some, of U "fst (getInt64List U env key)" L]
    getInt64List_Some [where env = env, OF Some, of U "map (\<lambda>p. word_of_int (the (ParseInt64 p))) (id_parts raw)" L]
  show ?thesis by (auto simp: Some var_ok_def prod_eq_iff simp del: admits.simps)
qed

lemma read_env_errors: "snd (read_env U L env) = [] \<longleftrightarrow> well_formed L env"
  by (simp add: read_env_def load_chain_def load_postgres_def load_redis_def load_worker_def load_risk_def
      load_telegram_def Let_def well_formed_def variables_def getter_errors [where L = L] snd_getInt64List [where L = L])

lemma Load_Inr: "Load U L env = Inr cfg \<longleftrightarrow> well_formed L env \<and> cfg = fst (read_env U L env) \<and> validate cfg = None"
  using read_env_errors [of U L env] by (auto simp: Load_def split: prod.splits option.splits)

text \<open>
  C23. Where the two validated percentages read are finite numbers, \<open>Load\<close> accepts exactly the
  environments in which every parsed variable that is set has a text of its kind (none is
  replaced by its default, none is dropped) and the configuration they give is within the
  documented bounds: endpoints named, a non-zero chain, pool sizes in order (after their
  conversion to 32 bits), positive timeouts and limits, a stop loss in (0,100), a positive
  capital recovery, and an allowlist whenever the bot is enabled. What it returns is that
  configuration. For percentages that are not numbers see \<open>Load_accepts_NaN\<close>.
\<close>

theorem Load_accepts_exactly:
  assumes "RK_StopLossPercent (Cfg_Risk (fst (read_env U L env))) = Fin x"
    and "RK_CapitalRecoveryPercent (Cfg_Risk (fst (read_env U L env))) = Fin y"
  shows "Load U L env = Inr cfg \<longleftrightarrow> well_formed L env \<and> cfg = fst (read_env U L env) \<and> config_ok cfg"
  using validate_None [OF assms] by (auto simp: Load_Inr)

section \<open>The allowlist\<close>

lemma sint_word_of_int_i64:
  assumes "- (2 ^ 63) \<le> n" "n < 2 ^ 63"
  shows "sint (word_of_int n :: i64) = n"
  using assms by (simp add: signed_of_int signed_take_bit_int_eq_self)

lemma TrimSpace_dec_int: "0 < n \<Longrightarrow> TrimSpace (dec_int n) = dec_int n"
proof -
  assume "0 < n"
  have "33 \<le> (of_char c :: nat) \<and> (of_char c :: nat) < 128" if "c \<in> set (dec_nat (nat n))" for c
    using that dec_nat_all_digits [of "nat n"] by (auto simp: all_digits_def list_all_iff is_digit_def)
  with \<open>0 < n\<close> show ?thesis by (intro TrimSpace_visible) (simp_all add: dec_int_def)
qed

lemma dec_int_no_comma: "0 < n \<Longrightarrow> CHR '','' \<notin> set (dec_int n)"
  using dec_nat_all_digits [of "nat n"] by (auto simp: dec_int_def all_digits_def list_all_iff is_digit_def)

lemma Load_ids:
  assumes "Load U L env = Inr cfg"
  shows "getInt64List U env ''TELEGRAM_ALLOWED_USER_IDS'' = (TC_AllowedUserIDs (Cfg_Telegram cfg), None)"
proof -
  have "var_ok L env (''TELEGRAM_ALLOWED_USER_IDS'', KIds)"
    using assms by (simp add: Load_Inr well_formed_def variables_def)
  then have "snd (getInt64List U env ''TELEGRAM_ALLOWED_USER_IDS'') = None" by (simp add: snd_getInt64List [where L = L])
  moreover have "TC_AllowedUserIDs (Cfg_Telegram cfg) = fst (getInt64List U env ''TELEGRAM_ALLOWED_USER_IDS'')"
    using assms by (simp add: Load_Inr read_env_def load_telegram_def Let_def)
  ultimately show ?thesis by (simp add: prod_eq_iff)
qed

lemma parsed_ids_allowed:
  assumes env: "env key = Some raw" and got: "getInt64List U env key = (ids, None)"
  shows "Allows (NewAllowlist (toTelegramIDs ids)) i \<longleftrightarrow>
    (\<exists>p \<in> set (split_on CHR '','' raw). ParseInt64 (TrimSpace p) = Some (sint i))" (is "_ \<longleftrightarrow> ?listed")
proof -
  from got have ok: "\<forall>p \<in> set (split_on CHR '','' raw). TrimSpace p = [] \<or> is_id (TrimSpace p)"
    and ids: "ids = map (\<lambda>p. word_of_int (the (ParseInt64 p))) (id_parts raw)"
    by (simp_all add: getInt64List_Some [where env = env, OF env, where L = undefined])
  have blank: "ParseInt64 [] = None" by (simp add: ParseInt64_def all_digits_def)
  have id: "\<exists>n. ParseInt64 (TrimSpace p) = Some n \<and> 0 < n \<and> sint (word_of_int n :: i64) = n"
    if "p \<in> set (split_on CHR '','' raw)" "TrimSpace p \<noteq> []" for p
    using ok that sint_word_of_int_i64 ParseInt64_range
    by (cases "ParseInt64 (TrimSpace p)") (auto simp: is_id_def)
  show ?thesis
  proof
    assume "Allows (NewAllowlist (toTelegramIDs ids)) i"
    then obtain p where "p \<in> set (split_on CHR '','' raw)" "TrimSpace p \<noteq> []"
        "i = word_of_int (the (ParseInt64 (TrimSpace p)))"
      by (auto simp: Allows_iff toTelegramIDs_def ids id_parts_def)
    with id [of p] show ?listed by auto
  next
    assume ?listed
    then obtain p where p: "p \<in> set (split_on CHR '','' raw)" "ParseInt64 (TrimSpace p) = Some (sint i)" by auto
    with blank have "TrimSpace p \<noteq> []" by auto
    with id [of p] p show "Allows (NewAllowlist (toTelegramIDs ids)) i"
      by (force simp: Allows_iff toTelegramIDs_def ids id_parts_def TelegramUserID_Valid_def)
  qed
qed

lemma written_ids_parsed:
  assumes env: "env key = Some (str_join '','' (map dec_int ns))" and ns: "ns \<noteq> []" "\<forall>n \<in> set ns. 0 < n \<and> n < 2 ^ 63"
  shows "getInt64List U env key = (map word_of_int ns, None)"
proof -
  let ?raw = "str_join '','' (map dec_int ns)"
  have raw: "split_on CHR '','' ?raw = map dec_int ns"
    using ns by (auto simp: split_on_str_join dec_int_no_comma)
  have parse: "\<forall>n \<in> set ns. ParseInt64 (TrimSpace (dec_int n)) = Some n \<and> TrimSpace (dec_int n) \<noteq> []"
    using ns by (auto simp: TrimSpace_dec_int ParseInt64_dec_int) (simp add: dec_int_def split: if_splits)
  then have "id_parts ?raw = map (\<lambda>n. TrimSpace (dec_int n)) ns"
    by (simp add: id_parts_def raw o_def filter_id_conv)
  with parse ns show ?thesis
    by (simp add: getInt64List_Some [where env = env, OF env, where L = undefined] raw is_id_def)
qed

text \<open>
  C24. With \<open>TELEGRAM_ALLOWED_USER_IDS\<close> set: the allowlist of a loaded configuration admits
  exactly the IDs written in the variable, whatever the spaces and empty entries between
  them. An entry that is not empty and not a positive 64-bit number fails startup, wherever it
  stands; none is dropped silently. And positive IDs written with commas are read back as
  that list, in order, without an error.
\<close>

theorem allowlist_exact:
  assumes "env ''TELEGRAM_ALLOWED_USER_IDS'' = Some raw"
  shows "(Load U L env = Inr cfg \<longrightarrow>
      (\<forall>i. Allows (NewAllowlist (toTelegramIDs (TC_AllowedUserIDs (Cfg_Telegram cfg)))) i \<longleftrightarrow>
         (\<exists>p \<in> set (split_on CHR '','' raw). ParseInt64 (TrimSpace p) = Some (sint i))))
    \<and> ((\<exists>p \<in> set (split_on CHR '','' raw). TrimSpace p \<noteq> [] \<and>
          (case ParseInt64 (TrimSpace p) of None \<Rightarrow> True | Some n \<Rightarrow> n \<le> 0)) \<longrightarrow> isl (Load U L env))
    \<and> (raw = str_join '','' (map dec_int ns) \<and> ns \<noteq> [] \<and> (\<forall>n \<in> set ns. 0 < n \<and> n < 2 ^ 63) \<longrightarrow>
        getInt64List U env ''TELEGRAM_ALLOWED_USER_IDS'' = (map word_of_int ns, None))"
proof (intro conjI impI allI)
  fix i
  assume "Load U L env = Inr cfg"
  from parsed_ids_allowed [where env = env, OF assms Load_ids [OF this]]
  show "Allows (NewAllowlist (toTelegramIDs (TC_AllowedUserIDs (Cfg_Telegram cfg)))) i \<longleftrightarrow>
      (\<exists>p \<in> set (split_on CHR '','' raw). ParseInt64 (TrimSpace p) = Some (sint i))" .
next
  assume bad: "\<exists>p \<in> set (split_on CHR '','' raw). TrimSpace p \<noteq> [] \<and>
    (case ParseInt64 (TrimSpace p) of None \<Rightarrow> True | Some n \<Rightarrow> n \<le> 0)"
  show "isl (Load U L env)"
  proof (cases "Load U L env")
    case (Inr c)
    with bad show ?thesis
      by (force simp: is_id_def getInt64List_Some [where env = env, OF assms, where L = undefined] dest!: Load_ids split: option.splits)
  qed simp
next
  assume "raw = str_join '','' (map dec_int ns) \<and> ns \<noteq> [] \<and> (\<forall>n \<in> set ns. 0 < n \<and> n < 2 ^ 63)"
  with assms show "getInt64List U env ''TELEGRAM_ALLOWED_USER_IDS'' = (map word_of_int ns, None)"
    by (auto intro: written_ids_parsed)
qed

section \<open>What startup does not catch\<close>

text \<open>
  The policy given to new wallets is checked only in part: three of its limits are not
  validated at startup. With finite limits, an accepted configuration gives a valid policy
  exactly if these three are in range; otherwise every attempt to link a wallet fails.
\<close>

lemma default_policy_valid_iff:
  assumes "Load U L env = Inr cfg" "finite_limits (defaultPolicy cfg)"
  shows "Validate (defaultPolicy cfg) = None \<longleftrightarrow>
      float_less (Fin 0) (RK_MaxPositionPercent (Cfg_Risk cfg)) \<and> float_le (RK_MaxPositionPercent (Cfg_Risk cfg)) (Fin 100)
    \<and> float_less (Fin 0) (RK_DailyLossLimitPercent (Cfg_Risk cfg)) \<and> float_le (RK_DailyLossLimitPercent (Cfg_Risk cfg)) (Fin 100)
    \<and> float_le (Fin 0) (RK_MinLiquidityUSD (Cfg_Risk cfg))"
proof -
  from assms(2) obtain x y where "RK_StopLossPercent (Cfg_Risk cfg) = Fin x" "RK_CapitalRecoveryPercent (Cfg_Risk cfg) = Fin y"
    by (auto simp: finite_limits_def defaultPolicy_def Let_def zero_WalletPolicy_def)
  from validate_None [OF this] assms(1) have "config_ok cfg" by (auto simp: Load_Inr)
  with assms(2) show ?thesis
    by (auto simp: Validate_def defaultPolicy_def Let_def finite_limits_def config_ok_def zero_WalletPolicy_def not_le not_less)
qed

definition sample_parsers :: text_parsers where
  "sample_parsers = \<lparr>ParseFloat = (\<lambda>v. case ParseInt64 v of None \<Rightarrow> Inl (New ''syntax'') | Some n \<Rightarrow> Inr (Fin (of_int n))),
     ParseDuration = (\<lambda>v. Inl (New ''syntax''))\<rparr>"

definition sample_allow_env :: "string \<Rightarrow> env" where
  "sample_allow_env ids = Map.empty(''POSTGRES_URL'' \<mapsto> ''db'', ''TELEGRAM_ALLOWED_USER_IDS'' \<mapsto> ids)"

theorem Load_accepts_exactly_witness:
  "Load ascii_tables sample_parsers (sample_allow_env ''7'') = Inr (fst (read_env ascii_tables sample_parsers (sample_allow_env ''7'')))
   \<and> config_ok (fst (read_env ascii_tables sample_parsers (sample_allow_env ''7'')))"
proof -
  let ?cfg = "fst (read_env ascii_tables sample_parsers (sample_allow_env ''7''))"
  have finite: "RK_StopLossPercent (Cfg_Risk ?cfg) = Fin 5" "RK_CapitalRecoveryPercent (Cfg_Risk ?cfg) = Fin 100"
    by code_simp+
  have "Load ascii_tables sample_parsers (sample_allow_env ''7'') = Inr ?cfg" by code_simp
  with Load_accepts_exactly [OF finite] show ?thesis by blast
qed

theorem allowlist_exact_witness:
  "(let cfg = fst (read_env ascii_tables sample_parsers (sample_allow_env '' 7,, 42 ''))
    in Allows (NewAllowlist (toTelegramIDs (TC_AllowedUserIDs (Cfg_Telegram cfg)))) 42)
   \<and> isl (Load ascii_tables sample_parsers (sample_allow_env ''7,x''))"
proof
  let ?cfg = "fst (read_env ascii_tables sample_parsers (sample_allow_env '' 7,, 42 ''))"
  have env: "sample_allow_env ids ''TELEGRAM_ALLOWED_USER_IDS'' = Some ids" for ids by (simp add: sample_allow_env_def)
  have "Load ascii_tables sample_parsers (sample_allow_env '' 7,, 42 '') = Inr ?cfg" by code_simp
  moreover have "list_ex (\<lambda>p. ParseInt64 (TrimSpace p) = Some (sint (42 :: i64))) (split_on CHR '','' '' 7,, 42 '')" by code_simp
  ultimately show "let cfg = ?cfg in Allows (NewAllowlist (toTelegramIDs (TC_AllowedUserIDs (Cfg_Telegram cfg)))) 42"
    using allowlist_exact [where env = "sample_allow_env '' 7,, 42 ''", OF env] by (simp add: list_ex_iff Let_def)
  have "list_ex (\<lambda>p. TrimSpace p \<noteq> [] \<and> (case ParseInt64 (TrimSpace p) of None \<Rightarrow> True | Some n \<Rightarrow> n \<le> 0)) (split_on CHR '','' ''7,x'')"
    by code_simp
  then show "isl (Load ascii_tables sample_parsers (sample_allow_env ''7,x''))"
    using allowlist_exact [where env = "sample_allow_env ''7,x''", OF env] by (auto simp: list_ex_iff)
qed

text \<open>
  The bounds of the two percentages are tested by comparing with \<open>\<le>\<close> and \<open>\<ge>\<close>, and every
  comparison with NaN is false: a stop loss and a capital recovery that are not numbers load.
\<close>

definition nan_parsers :: text_parsers where
  "nan_parsers = sample_parsers\<lparr>ParseFloat := (\<lambda>v. if v = ''NaN'' then Inr NaN else ParseFloat sample_parsers v)\<rparr>"

theorem Load_accepts_NaN:
  "case Load ascii_tables nan_parsers (Map.empty(''POSTGRES_URL'' \<mapsto> ''db'', ''STOP_LOSS_PERCENT'' \<mapsto> ''NaN'',
      ''CAPITAL_RECOVERY_PERCENT'' \<mapsto> ''NaN'')) of
     Inl err \<Rightarrow> False
   | Inr cfg \<Rightarrow> RK_StopLossPercent (Cfg_Risk cfg) = NaN \<and> RK_CapitalRecoveryPercent (Cfg_Risk cfg) = NaN \<and> \<not> config_ok cfg"
  by code_simp

text \<open>A position limit of 200 percent passes startup and fails every link.\<close>

lemma bad_default_policy_loads:
  "case Load ascii_tables sample_parsers (Map.empty(''POSTGRES_URL'' \<mapsto> ''db'', ''MAX_POSITION_PERCENT'' \<mapsto> ''200'')) of
     Inl err \<Rightarrow> False | Inr cfg \<Rightarrow> Validate (defaultPolicy cfg) \<noteq> None"
  by code_simp

text \<open>\<open>getInt32\<close> parses 64 bits and keeps the low 32: a pool of 4294967297 connections is one of 1.\<close>

lemma getInt32_truncates:
  "env key = Some (dec_int 4294967297) \<Longrightarrow> getInt32 U env key def = (1, None)"
  by (simp add: getInt32_def getInt_def get_parsed_def Atoi_def ParseInt64_dec_int) (simp add: dec_int_def)

end
