(* ===== verification/ChainClient.thy ===== *)
theory ChainClient
  imports Retry DomainChain
begin

text \<open>
  \<open>internal/chain/client.go\<close>: the read-only JSON-RPC client. The go-ethereum client is a
  parameter, the record \<open>ethclient\<close>; its results are records with hashes and addresses in the
  hexadecimal text go-ethereum's \<open>Hex\<close> methods give them. The wrapping in timeouts and
  retries, the checks of the chain ID, and the conversion to the domain's canonical types are
  the source's.
\<close>

section \<open>go-ethereum's values\<close>

record Header =
  Hd_Number :: int
  Hd_Hash :: string
  Hd_ParentHash :: string
  Hd_Time :: u64

record eth_log =
  el_Address :: string
  el_Topics :: "string list"
  el_Data :: string
  el_BlockNumber :: u64
  el_TxHash :: string
  el_Index :: u64
  el_Removed :: bool

record eth_tx =
  et_Hash :: string
  et_Sender :: "error + string"
  et_Value :: "int option"
  et_Nonce :: u64
  et_Gas :: u64
  et_GasPrice :: "int option"
  et_Data :: string
  et_To :: "string option"

record eth_receipt =
  er_TxHash :: string
  er_Status :: u64
  er_BlockNumber :: int
  er_BlockHash :: string
  er_GasUsed :: u64
  er_EffectiveGasPrice :: "int option"
  er_ContractAddress :: string
  er_Logs :: "eth_log list"

record eth_query =
  eq_FromBlock :: "int option"
  eq_ToBlock :: "int option"
  eq_Addresses :: "string list"
  eq_Topics :: "string list list"

record 's ethclient =
  eth_Dial :: "('s, unit) op"
  eth_Close :: "'s \<Rightarrow> 's"
  eth_ChainID :: "('s, int) op"
  eth_HeaderByNumber :: "int option \<Rightarrow> ('s, Header) op"
  eth_TransactionByHash :: "string \<Rightarrow> ('s, eth_tx \<times> bool) op"
  eth_TransactionReceipt :: "string \<Rightarrow> ('s, eth_receipt) op"
  eth_BalanceAt :: "string \<Rightarrow> int option \<Rightarrow> ('s, int option) op"
  eth_FilterLogs :: "eth_query \<Rightarrow> ('s, eth_log list) op"

section \<open>The client's values\<close>

record Log =
  Log_Address :: Address
  Log_Topics :: "Hash list"
  Log_Data :: string
  Log_BlockNumber :: u64
  Log_TxHash :: Hash
  Log_LogIndex :: u64
  Log_Removed :: bool

record Transaction =
  Tx_Hash :: Hash
  Tx_From :: Address
  Tx_To :: "Address option"
  Tx_Value :: Wei
  Tx_Nonce :: u64
  Tx_Gas :: u64
  Tx_GasPrice :: "int option"
  Tx_Data :: string
  Tx_Pending :: bool

record Receipt =
  Rc_TxHash :: Hash
  Rc_Status :: u64
  Rc_BlockNumber :: u64
  Rc_BlockHash :: Hash
  Rc_GasUsed :: u64
  Rc_EffectiveGasPrice :: "int option"
  Rc_ContractAddress :: "Address option"
  Rc_Logs :: "Log list"

record LogQuery =
  Q_FromBlock :: "u64 option"
  Q_ToBlock :: "u64 option"
  Q_Addresses :: "Address list"
  Q_Topics :: "Hash list list"

record 's Client =
  cl_eth :: "'s ethclient"
  cl_ctx :: "'s Ctx"
  cl_expected :: u64
  cl_retry :: retryPolicy

text \<open>The per-request timeout bounds the call inside; it shows as an error of that call.\<close>

definition Client_call :: "unicode \<Rightarrow> 's Client \<Rightarrow> ('s, 'a) op \<Rightarrow> ('s, 'a) op" where
  "Client_call U c fn = retry_Do U (cl_ctx c) (cl_retry c) fn"

definition Client_ChainID :: "unicode \<Rightarrow> 's Client \<Rightarrow> ('s, u64) op" where
  "Client_ChainID U c = attempt (Client_call U c (eth_ChainID (cl_eth c))) throw
     (\<lambda>i. if \<not> (0 \<le> i \<and> i < 2 ^ 64) then throw (New (''chain id '' @ dec_int i @ '' out of range''))
          else ok (word_of_int i))"

definition Dial :: "unicode \<Rightarrow> 's ethclient \<Rightarrow> 's Ctx \<Rightarrow> u64 \<Rightarrow> int \<Rightarrow> duration \<Rightarrow> ('s, 's Client) op" where
  "Dial U eth ctx expected maxRetries backoff =
     attempt (eth_Dial eth) (\<lambda>err. throw (Wrap ''dial rpc: '' err []))
       (\<lambda>_. let c = \<lparr>cl_eth = eth, cl_ctx = ctx, cl_expected = expected,
                     cl_retry = \<lparr>MaxRetries = maxRetries, Backoff = backoff\<rparr>\<rparr> in
         if expected \<noteq> 0 then
           attempt (Client_ChainID U c)
             (\<lambda>err. after (eth_Close eth) (throw (Wrap ''verify chain id: '' err [])))
             (\<lambda>got. if got \<noteq> expected then
                  after (eth_Close eth) (throw (Wrap [] (Sentinel ErrWrongChain)
                    ('': node reports '' @ dec_nat (unat got) @ '' ('' @ ChainName got @ ''), expected ''
                     @ dec_nat (unat expected) @ '' ('' @ ChainName expected @ '')'')))
                else ok c)
         else ok c)"

definition headerToRef :: "Header \<Rightarrow> BlockRef" where
  "headerToRef h = \<lparr>Block_Number = word_of_int (Hd_Number h), Block_Hash = Hd_Hash h,
     Block_ParentHash = Hd_ParentHash h, Block_Time = time_unix (Hd_Time h)\<rparr>"

text \<open>The pattern of the three lookups: a missing object is the package's own error.\<close>

definition not_found_or :: "error \<Rightarrow> ('s, 'a) op" where
  "not_found_or err = (if errors_Is err (Foreign EthereumNotFound) then throw (Sentinel ChainErrNotFound) else throw err)"

definition headerRef :: "unicode \<Rightarrow> 's Client \<Rightarrow> int option \<Rightarrow> ('s, BlockRef) op" where
  "headerRef U c number = attempt (Client_call U c (eth_HeaderByNumber (cl_eth c) number)) not_found_or
     (\<lambda>h. ok (headerToRef h))"

definition LatestBlock :: "unicode \<Rightarrow> 's Client \<Rightarrow> ('s, BlockRef) op" where
  "LatestBlock U c = headerRef U c None"

definition BlockByNumber :: "unicode \<Rightarrow> 's Client \<Rightarrow> u64 \<Rightarrow> ('s, BlockRef) op" where
  "BlockByNumber U c number = headerRef U c (Some (uint number))"

definition parsed_or :: "'a \<Rightarrow> error + 'a \<Rightarrow> 'a" where
  "parsed_or old r = (case r of Inl err \<Rightarrow> old | Inr x \<Rightarrow> x)"

definition normaliseTx :: "unicode \<Rightarrow> Transaction \<Rightarrow> Transaction" where
  "normaliseTx U t = t\<lparr>Tx_Hash := parsed_or (Tx_Hash t) (ParseHash U (Tx_Hash t)),
     Tx_From := parsed_or (Tx_From t) (ParseAddress U (Tx_From t)),
     Tx_To := map_option (\<lambda>a. parsed_or a (ParseAddress U a)) (Tx_To t)\<rparr>"

definition TransactionByHash :: "unicode \<Rightarrow> 's Client \<Rightarrow> Hash \<Rightarrow> ('s, Transaction) op" where
  "TransactionByHash U c h = attempt (Client_call U c (eth_TransactionByHash (cl_eth c) h)) not_found_or
     (\<lambda>(tx, pending). case et_Sender tx of
        Inl err \<Rightarrow> throw (Wrap ''recover sender: '' err [])
      | Inr sender \<Rightarrow> ok (normaliseTx U \<lparr>Tx_Hash = et_Hash tx, Tx_From = sender, Tx_To = et_To tx,
          Tx_Value = NewWei (et_Value tx), Tx_Nonce = et_Nonce tx, Tx_Gas = et_Gas tx,
          Tx_GasPrice = et_GasPrice tx, Tx_Data = et_Data tx, Tx_Pending = pending\<rparr>))"

definition convertLog :: "unicode \<Rightarrow> eth_log \<Rightarrow> Log" where
  "convertLog U l = \<lparr>Log_Address = parsed_or [] (ParseAddress U (el_Address l)),
     Log_Topics = map (\<lambda>t. parsed_or [] (ParseHash U t)) (el_Topics l), Log_Data = el_Data l,
     Log_BlockNumber = el_BlockNumber l, Log_TxHash = parsed_or [] (ParseHash U (el_TxHash l)),
     Log_LogIndex = el_Index l, Log_Removed = el_Removed l\<rparr>"

definition normaliseReceipt :: "unicode \<Rightarrow> Receipt \<Rightarrow> Receipt" where
  "normaliseReceipt U r = r\<lparr>Rc_TxHash := parsed_or (Rc_TxHash r) (ParseHash U (Rc_TxHash r)),
     Rc_BlockHash := parsed_or (Rc_BlockHash r) (ParseHash U (Rc_BlockHash r)),
     Rc_ContractAddress := map_option (\<lambda>a. parsed_or a (ParseAddress U a)) (Rc_ContractAddress r)\<rparr>"

definition ReceiptByHash :: "unicode \<Rightarrow> 's Client \<Rightarrow> Hash \<Rightarrow> ('s, Receipt) op" where
  "ReceiptByHash U c h = attempt (Client_call U c (eth_TransactionReceipt (cl_eth c) h)) not_found_or
     (\<lambda>r. ok (normaliseReceipt U \<lparr>Rc_TxHash = er_TxHash r, Rc_Status = er_Status r,
        Rc_BlockNumber = word_of_int (er_BlockNumber r), Rc_BlockHash = er_BlockHash r, Rc_GasUsed = er_GasUsed r,
        Rc_EffectiveGasPrice = er_EffectiveGasPrice r,
        Rc_ContractAddress = (if er_ContractAddress r \<noteq> zero_address then Some (er_ContractAddress r) else None),
        Rc_Logs = map (convertLog U) (er_Logs r)\<rparr>))"

definition Client_BalanceAt :: "unicode \<Rightarrow> 's Client \<Rightarrow> Address \<Rightarrow> u64 option \<Rightarrow> ('s, Wei) op" where
  "Client_BalanceAt U c addr blockNumber = (case ParseAddress U addr of
       Inl err \<Rightarrow> throw err
     | Inr parsed \<Rightarrow> attempt (Client_call U c (eth_BalanceAt (cl_eth c) parsed (map_option uint blockNumber))) throw
         (\<lambda>bal. ok (NewWei bal)))"

fun parse_addresses :: "unicode \<Rightarrow> Address list \<Rightarrow> error + Address list" where
  "parse_addresses U [] = Inr []"
| "parse_addresses U (a # as) = (case ParseAddress U a of Inl err \<Rightarrow> Inl err
     | Inr p \<Rightarrow> map_sum (\<lambda>e. e) ((#) p) (parse_addresses U as))"

definition FilterLogs :: "unicode \<Rightarrow> 's Client \<Rightarrow> LogQuery \<Rightarrow> ('s, Log list) op" where
  "FilterLogs U c q = (case parse_addresses U (Q_Addresses q) of
       Inl err \<Rightarrow> throw err
     | Inr addrs \<Rightarrow> attempt (Client_call U c (eth_FilterLogs (cl_eth c)
           \<lparr>eq_FromBlock = map_option uint (Q_FromBlock q), eq_ToBlock = map_option uint (Q_ToBlock q),
            eq_Addresses = addrs, eq_Topics = Q_Topics q\<rparr>)) throw
         (\<lambda>raw. ok (map (convertLog U) raw)))"

section \<open>Facts\<close>

text \<open>A successful retried call is a successful answer of the node.\<close>

lemma do_loop_Inr: "do_loop U ctx p b fn n err s = (Inr a, t) \<Longrightarrow> \<exists>s'. fn s' = (Inr a, t)"
proof (induction U ctx p b fn n err s rule: do_loop.induct)
  case (1 U ctx p b fn n err s)
  from 1(2) show ?case
    by (subst (asm) do_loop.simps) (auto split: option.splits prod.splits sum.splits if_split_asm dest: 1(1) [rotated -1])
qed

lemma call_Inr: "Client_call U c fn s = (Inr a, t) \<Longrightarrow> \<exists>s'. fn s' = (Inr a, t)"
  unfolding Client_call_def retry_Do_def Let_def by (rule do_loop_Inr)

lemma ChainID_Inr:
  assumes "Client_ChainID U c s = (Inr i, t)"
  shows "\<exists>s'. eth_ChainID (cl_eth c) s' = (Inr (uint i), t)"
  using assms call_Inr [of U c "eth_ChainID (cl_eth c)" s] unfolding Client_ChainID_def
  by (auto elim!: attempt_cases split: if_splits simp: take_bit_int_eq_self unsigned_of_int)

text \<open>
  C31. \<open>Dial\<close> refuses the wrong network and leaves no connection behind. A dial that succeeds with an
  expected chain has read exactly that chain ID from the connected client, and the node
  itself reported that number, without truncation to 64 bits; the same holds of every chain
  ID the client reads later. A dial that fails did not connect, or every other answer to
  the question for the chain (an error, another chain, a number out of range) has closed the
  connection as its last step, and another chain is the error \<open>ErrWrongChain\<close>.
\<close>

theorem Dial_refuses_wrong_chain:
  assumes "Dial U eth ctx expected maxRetries backoff s = (r, t)"
    and "c = \<lparr>cl_eth = eth, cl_ctx = ctx, cl_expected = expected, cl_retry = \<lparr>MaxRetries = maxRetries, Backoff = backoff\<rparr>\<rparr>"
  shows "case r of
      Inr c' \<Rightarrow> c' = c
        \<and> (\<exists>s1. eth_Dial eth s = (Inr (), s1) \<and> (if expected = 0 then t = s1 else Client_ChainID U c s1 = (Inr expected, t)))
        \<and> (\<forall>s i t. Client_ChainID U c s = (Inr i, t) \<longrightarrow> (\<exists>s'. eth_ChainID eth s' = (Inr (uint i), t)))
    | Inl err \<Rightarrow> (\<exists>e. eth_Dial eth s = (Inl e, t))
        \<or> (\<exists>s1 q u. expected \<noteq> 0 \<and> eth_Dial eth s = (Inr (), s1) \<and> Client_ChainID U c s1 = (q, u) \<and> q \<noteq> Inr expected
             \<and> (\<not> isl q \<longrightarrow> errors_Is err (Sentinel ErrWrongChain)) \<and> t = eth_Close eth u)"
proof -
  have reads: "\<forall>s i t. Client_ChainID U c s = (Inr i, t) \<longrightarrow> (\<exists>s'. eth_ChainID eth s' = (Inr (uint i), t))"
    using ChainID_Inr [of U c] by (simp add: assms(2))
  from assms(1) show ?thesis
    unfolding Dial_def Let_def assms(2) [symmetric]
  proof (rule attempt_cases)
    fix s1 a
    assume dial: "eth_Dial eth s = (Inr a, s1)"
      and run: "(if expected \<noteq> 0 then attempt (Client_ChainID U c) (\<lambda>err. after (eth_Close eth) (throw (Wrap ''verify chain id: '' err [])))
        (\<lambda>got. if got \<noteq> expected then after (eth_Close eth) (throw (Wrap [] (Sentinel ErrWrongChain)
            ('': node reports '' @ dec_nat (unat got) @ '' ('' @ ChainName got @ ''), expected ''
             @ dec_nat (unat expected) @ '' ('' @ ChainName expected @ '')''))) else ok c) else ok c) s1 = (r, t)"
    show ?thesis
    proof (cases "expected = 0")
      case False
      with run have "attempt (Client_ChainID U c) (\<lambda>err. after (eth_Close eth) (throw (Wrap ''verify chain id: '' err [])))
        (\<lambda>got. if got \<noteq> expected then after (eth_Close eth) (throw (Wrap [] (Sentinel ErrWrongChain)
            ('': node reports '' @ dec_nat (unat got) @ '' ('' @ ChainName got @ ''), expected ''
             @ dec_nat (unat expected) @ '' ('' @ ChainName expected @ '')''))) else ok c) s1 = (r, t)" by simp
      then show ?thesis
        by (rule attempt_cases) (use dial False reads in \<open>auto simp: after_def split: if_splits\<close>)
    qed (use run dial reads in auto)
  qed auto
qed

text \<open>A node for examples; its state counts the calls.\<close>

definition sample_eth :: "nat ethclient" where
  "sample_eth = \<lparr>eth_Dial = ok (), eth_Close = (\<lambda>s. s), eth_ChainID = sample_call,
     eth_HeaderByNumber = (\<lambda>_. throw (Foreign EthereumNotFound)),
     eth_TransactionByHash = (\<lambda>_. throw (Foreign EthereumNotFound)),
     eth_TransactionReceipt = (\<lambda>_. throw (Foreign EthereumNotFound)),
     eth_BalanceAt = (\<lambda>_ _. ok (Some 0)), eth_FilterLogs = (\<lambda>_. ok [])\<rparr>"

theorem Dial_refuses_wrong_chain_witness:
  "\<not> isl (fst (Dial ascii_tables sample_eth sample_ctx 4663 3 0 0))
   \<and> isl (fst (Dial ascii_tables (sample_eth\<lparr>eth_Close := \<lambda>s. s + 100\<rparr>) sample_ctx 1 3 0 0))
   \<and> 100 \<le> snd (Dial ascii_tables (sample_eth\<lparr>eth_Close := \<lambda>s. s + 100\<rparr>) sample_ctx 1 3 0 0)"
proof -
  let ?eth = "sample_eth\<lparr>eth_Close := \<lambda>s. s + 100\<rparr>"
  let ?run = "Dial ascii_tables ?eth sample_ctx 1 3 0 0"
  have good: "\<not> isl (fst (Dial ascii_tables sample_eth sample_ctx 4663 3 0 0))" by code_simp
  obtain r t where run: "?run = (r, t)" by fastforce
  have "eth_ChainID ?eth s' \<noteq> (Inr (uint (1 :: u64)), u)" for s' u by (simp add: sample_eth_def sample_call_def)
  with Dial_refuses_wrong_chain [OF run refl] have "isl r \<and> (\<exists>u. t = eth_Close ?eth u)"
    by (cases r) (fastforce simp: sample_eth_def [THEN arg_cong [of _ _ eth_Dial]])+
  then have "isl r \<and> 100 \<le> t" by auto
  with good run show ?thesis by simp
qed

lemma parsed_hash: "hashRe (TrimSpace h) \<Longrightarrow> lower_hex_re 64 (parsed_or d (ParseHash U h))"
  by (simp add: parsed_or_def ParseHash_Inr [THEN iffD2] hashRe_def lower_hex_map)

lemma parsed_address: "addressRe (TrimSpace a) \<Longrightarrow> lower_hex_re 40 (parsed_or d (ParseAddress U a))"
  by (simp add: parsed_or_def ParseAddress_Inr [THEN iffD2] addressRe_def lower_hex_map)

text \<open>
  The canonical form of what the client hands out, and that go-ethereum renders its own
  hashes and addresses as hexadecimal of the right length, in any letter case, such as the
  checksummed form of \<open>Address.Hex\<close>.
\<close>

definition canonical_log :: "Log \<Rightarrow> bool" where
  "canonical_log l \<longleftrightarrow> lower_hex_re 40 (Log_Address l) \<and> lower_hex_re 64 (Log_TxHash l) \<and> list_all (lower_hex_re 64) (Log_Topics l)"

definition canonical_tx :: "Transaction \<Rightarrow> bool" where
  "canonical_tx t \<longleftrightarrow> lower_hex_re 64 (Tx_Hash t) \<and> lower_hex_re 40 (Tx_From t) \<and> pred_option (lower_hex_re 40) (Tx_To t)"

definition canonical_receipt :: "Receipt \<Rightarrow> bool" where
  "canonical_receipt r \<longleftrightarrow> lower_hex_re 64 (Rc_TxHash r) \<and> lower_hex_re 64 (Rc_BlockHash r)
     \<and> pred_option (lower_hex_re 40) (Rc_ContractAddress r) \<and> list_all canonical_log (Rc_Logs r)"

definition hex_log :: "eth_log \<Rightarrow> bool" where
  "hex_log l \<longleftrightarrow> hex_re 40 (el_Address l) \<and> hex_re 64 (el_TxHash l) \<and> list_all (hex_re 64) (el_Topics l)"

definition hex_tx :: "eth_tx \<Rightarrow> bool" where
  "hex_tx t \<longleftrightarrow> hex_re 64 (et_Hash t) \<and> (case et_Sender t of Inl e \<Rightarrow> True | Inr a \<Rightarrow> hex_re 40 a) \<and> pred_option (hex_re 40) (et_To t)"

definition hex_receipt :: "eth_receipt \<Rightarrow> bool" where
  "hex_receipt r \<longleftrightarrow> hex_re 64 (er_TxHash r) \<and> hex_re 64 (er_BlockHash r) \<and> hex_re 40 (er_ContractAddress r)
     \<and> list_all hex_log (er_Logs r)"

definition answers_ok :: "('a \<Rightarrow> bool) \<Rightarrow> ('s, 'a) op \<Rightarrow> bool" where
  "answers_ok P m \<longleftrightarrow> (\<forall>s. case fst (m s) of Inl e \<Rightarrow> True | Inr a \<Rightarrow> P a)"

definition renders_hex :: "'s ethclient \<Rightarrow> bool" where
  "renders_hex eth \<longleftrightarrow> (\<forall>h. answers_ok (\<lambda>(t, pending). hex_tx t) (eth_TransactionByHash eth h))
     \<and> (\<forall>h. answers_ok hex_receipt (eth_TransactionReceipt eth h)) \<and> (\<forall>q. answers_ok (list_all hex_log) (eth_FilterLogs eth q))"

lemma canonical_parsed:
  "hex_re 64 h \<Longrightarrow> lower_hex_re 64 (parsed_or d (ParseHash U h))" "hex_re 40 a \<Longrightarrow> lower_hex_re 40 (parsed_or d (ParseAddress U a))"
  by (simp_all add: parsed_hash parsed_address hashRe_def addressRe_def hex_re_TrimSpace)

lemma canonical_convertLog: "hex_log l \<Longrightarrow> canonical_log (convertLog U l)"
  by (auto simp: hex_log_def canonical_log_def convertLog_def canonical_parsed list_all_iff)

lemma answered: "answers_ok P m \<Longrightarrow> Client_call U c m s = (Inr a, t) \<Longrightarrow> P a"
  by (drule call_Inr) (metis answers_ok_def fst_conv sum.simps(6))

text \<open>
  C32. Everything of a transaction, a receipt and a log that the client's lookups return is
  canonical: the hash, the sender and the receiver of a transaction; the transaction's and the
  block's hash and the contract address of a receipt, and the address, the transaction hash and
  every topic of its logs and of the logs a filter returns are in the domain's lower-case form.
  Headers are not among them: their hashes are passed on as go-ethereum renders them.
\<close>

theorem client_results_canonical:
  assumes "renders_hex (cl_eth c)"
  shows "(TransactionByHash U c h s = (Inr tx, t1) \<longrightarrow> canonical_tx tx)
    \<and> (ReceiptByHash U c h s = (Inr rc, t2) \<longrightarrow> canonical_receipt rc)
    \<and> (FilterLogs U c q s = (Inr ls, t3) \<longrightarrow> list_all canonical_log ls)"
proof (intro conjI impI)
  note node = assms [unfolded renders_hex_def]
  note tx = answered [OF node [THEN conjunct1, THEN spec]] and rc = answered [OF node [THEN conjunct2, THEN conjunct1, THEN spec]]
    and logs = answered [OF node [THEN conjunct2, THEN conjunct2, THEN spec]]
  show "canonical_tx tx" if "TransactionByHash U c h s = (Inr tx, t1)"
    using that unfolding TransactionByHash_def
    by (auto elim!: attempt_cases dest!: tx simp: not_found_or_def canonical_tx_def normaliseTx_def hex_tx_def canonical_parsed
        pred_option_def split: sum.splits if_splits)
  show "canonical_receipt rc" if "ReceiptByHash U c h s = (Inr rc, t2)"
    using that unfolding ReceiptByHash_def
    by (auto elim!: attempt_cases dest!: rc simp: not_found_or_def canonical_receipt_def normaliseReceipt_def hex_receipt_def
        canonical_parsed list_all_iff canonical_convertLog split: if_splits)
  show "list_all canonical_log ls" if "FilterLogs U c q s = (Inr ls, t3)"
    using that unfolding FilterLogs_def
    by (auto elim!: attempt_cases dest!: logs simp: list_all_iff canonical_convertLog split: sum.splits)
qed

text \<open>A node that renders everything in upper case.\<close>

definition sample_log :: eth_log where
  "sample_log = \<lparr>el_Address = ''0x'' @ replicate 40 (CHR ''B''), el_Topics = [''0x'' @ replicate 64 (CHR ''C'')], el_Data = [],
     el_BlockNumber = 7, el_TxHash = ''0x'' @ replicate 64 (CHR ''A''), el_Index = 0, el_Removed = False\<rparr>"

definition sample_receipt :: eth_receipt where
  "sample_receipt = \<lparr>er_TxHash = ''0x'' @ replicate 64 (CHR ''A''), er_Status = 1, er_BlockNumber = 7,
     er_BlockHash = ''0x'' @ replicate 64 (CHR ''D''), er_GasUsed = 21000, er_EffectiveGasPrice = None,
     er_ContractAddress = ''0x'' @ replicate 40 (CHR ''E''), er_Logs = [sample_log]\<rparr>"

definition sample_upper_eth :: "nat ethclient" where
  "sample_upper_eth = sample_eth\<lparr>eth_TransactionReceipt := \<lambda>h. ok sample_receipt\<rparr>"

lemma sample_upper_renders: "renders_hex sample_upper_eth"
proof -
  have "hex_re n (''0x'' @ replicate n d)" if "is_hex_char d" for n d
    using that by (auto simp: hex_re_def HasPrefix_iff list_all_iff)
  then have "hex_re n (CHR ''0'' # CHR ''x'' # replicate n d)" if "is_hex_char d" for n d using that by fastforce
  moreover have "is_hex_char (CHR ''A'')" "is_hex_char (CHR ''B'')" "is_hex_char (CHR ''C'')" "is_hex_char (CHR ''D'')" "is_hex_char (CHR ''E'')"
    by code_simp+
  ultimately have "hex_receipt sample_receipt" by (simp add: hex_receipt_def hex_log_def sample_receipt_def sample_log_def)
  then show ?thesis by (simp add: renders_hex_def answers_ok_def sample_upper_eth_def sample_eth_def)
qed

definition sample_upper_client :: "nat Client" where
  "sample_upper_client = \<lparr>cl_eth = sample_upper_eth, cl_ctx = sample_ctx, cl_expected = 0, cl_retry = \<lparr>MaxRetries = 3, Backoff = 0\<rparr>\<rparr>"

theorem client_results_canonical_witness:
  "case fst (ReceiptByHash ascii_tables sample_upper_client [] 0) of
     Inl err \<Rightarrow> False | Inr r \<Rightarrow> canonical_receipt r \<and> length (Rc_Logs r) = 1"
proof -
  have call: "Client_call ascii_tables sample_upper_client (eth_TransactionReceipt (cl_eth sample_upper_client) []) 0 = (Inr sample_receipt, 0)"
    by (simp add: Client_call_def retry_Do_def Let_def do_loop.simps [of _ _ _ _ _ 0] ok_def sample_upper_client_def sample_upper_eth_def sample_ctx_def)
  then obtain r t where run: "ReceiptByHash ascii_tables sample_upper_client [] 0 = (Inr r, t)" and logs: "length (Rc_Logs r) = 1"
    by (simp add: ReceiptByHash_def attempt_def ok_def normaliseReceipt_def sample_receipt_def)
  have "renders_hex (cl_eth sample_upper_client)" by (simp add: sample_upper_client_def sample_upper_renders)
  from client_results_canonical [OF this] have "canonical_receipt r" using run by blast
  with logs show ?thesis by (simp add: run)
qed

end
