(* ===== verification/Bootstrap.thy ===== *)
theory Bootstrap
  imports Config ChainClient LogRepos
begin

text \<open>
  \<open>internal/bootstrap\<close>, the connections it opens (\<open>persistence/postgres/postgres.go\<close>,
  \<open>migrate.go\<close>, \<open>persistence/redis/redis.go\<close>) and the \<open>migrate\<close> command. The drivers
  (pgx, go-redis, database/sql, go-ethereum) are the record \<open>drivers\<close> of operations on the
  world outside the tables; goose, which runs the migrations, is the record \<open>migrations\<close> of
  operations on the whole database. What the theorems ask of them are the predicates \<open>tracks\<close>,
  \<open>migrations_track\<close> and \<open>migrations_read\<close>.
\<close>

section \<open>The drivers\<close>

type_synonym handle = nat

text \<open>A parsed pgx configuration: \<open>px_conn\<close> stands for the part the code does not touch.\<close>

record pgx_config =
  px_conn :: string
  px_MaxConns :: "32 word"
  px_MinConns :: "32 word"
  px_MaxConnLifetime :: duration
  px_MaxConnIdleTime :: duration
  px_RuntimeParams :: "(string \<times> string) list option"

record 's drivers =
  pgx_ParseConfig :: "string \<Rightarrow> error + pgx_config"
  pgx_NewWithConfig :: "pgx_config \<Rightarrow> ('s, handle) op"
  pgx_Ping :: "handle \<Rightarrow> duration \<Rightarrow> ('s, unit) op"
  pgx_Close :: "handle \<Rightarrow> 's \<Rightarrow> 's"
  rds_NewClient :: "RedisConfig \<Rightarrow> 's \<Rightarrow> handle \<times> 's"
  rds_Ping :: "handle \<Rightarrow> duration \<Rightarrow> ('s, unit) op"
  rds_Close :: "handle \<Rightarrow> 's \<Rightarrow> error option \<times> 's"
  sql_Open :: "string \<Rightarrow> string \<Rightarrow> ('s, handle) op"
  sql_SetMaxOpenConns :: "handle \<Rightarrow> int \<Rightarrow> 's \<Rightarrow> 's"
  sql_Close :: "handle \<Rightarrow> 's \<Rightarrow> error option \<times> 's"
  goose_SetDialect :: "string \<Rightarrow> ('s, unit) op"
  eth_client :: "string \<Rightarrow> duration \<Rightarrow> 's ethclient"
  signal_ctx :: "'s Ctx"
  print_line :: "string \<Rightarrow> 's \<Rightarrow> 's"

text \<open>
  Opening a connection and naming the SQL dialect reach no table; applying and rolling back
  migrations creates and drops them, so these operations act on the whole database state.
\<close>

record 's migrations =
  goose_Up :: "handle \<Rightarrow> ('s, unit) op"
  goose_Down :: "handle \<Rightarrow> ('s, unit) op"
  goose_DownTo :: "handle \<Rightarrow> int \<Rightarrow> ('s, unit) op"
  goose_Status :: "handle \<Rightarrow> ('s, unit) op"
  goose_GetDBVersion :: "handle \<Rightarrow> ('s, int) op"

section \<open>Connections\<close>

definition postgres_Connect :: "'s drivers \<Rightarrow> PostgresConfig \<Rightarrow> ('s, handle) op" where
  "postgres_Connect X cfg = (case pgx_ParseConfig X (PC_URL cfg) of
       Inl err \<Rightarrow> throw (Wrap ''parse postgres url: '' err [])
     | Inr pc \<Rightarrow>
         (let pc = pc\<lparr>px_MaxConns := PC_MaxConns cfg, px_MinConns := PC_MinConns cfg,
                      px_MaxConnLifetime := PC_MaxConnLifetime cfg, px_MaxConnIdleTime := PC_MaxConnIdleTime cfg\<rparr>;
              params = (case px_RuntimeParams pc of None \<Rightarrow> [] | Some ps \<Rightarrow> ps);
              pc = pc\<lparr>px_RuntimeParams := Some (AList.update ''timezone'' ''UTC'' params)\<rparr> in
          attempt (pgx_NewWithConfig X pc) (\<lambda>err. throw (Wrap ''create pool: '' err []))
            (\<lambda>pool. attempt (pgx_Ping X pool (PC_ConnectTimeout cfg))
               (\<lambda>err. after (pgx_Close X pool) (throw (Wrap ''ping postgres: '' err [])))
               (\<lambda>_. ok pool))))"

definition redis_Connect :: "'s drivers \<Rightarrow> RedisConfig \<Rightarrow> ('s, handle) op" where
  "redis_Connect X cfg s = (case rds_NewClient X cfg s of (rdb, s1) \<Rightarrow>
     attempt (rds_Ping X rdb (5 * second))
       (\<lambda>err. after (\<lambda>s. snd (rds_Close X rdb s)) (throw (Wrap ''ping redis: '' err [])))
       (\<lambda>_. ok rdb) s1)"

text \<open>\<open>defer f()\<close>: the call runs when the function returns, whatever it returns.\<close>

definition deferred :: "('s \<Rightarrow> 's) \<Rightarrow> ('s, 'a) op \<Rightarrow> ('s, 'a) op" where
  "deferred f k s = (case k s of (r, t) \<Rightarrow> (r, f t))"

text \<open>The migrator is its database handle. Setting the embedded file system touches no state.\<close>

definition NewMigrator :: "'s drivers \<Rightarrow> PostgresConfig \<Rightarrow> ('s, handle) op" where
  "NewMigrator X cfg =
     attempt (sql_Open X ''pgx'' (PC_URL cfg)) (\<lambda>err. throw (Wrap ''open migration connection: '' err []))
       (\<lambda>db. after (sql_SetMaxOpenConns X db 1)
          (attempt (goose_SetDialect X ''postgres'')
             (\<lambda>err. after (\<lambda>s. snd (sql_Close X db s)) (throw (Wrap ''set goose dialect: '' err [])))
             (\<lambda>_. ok db)))"

definition Migrator_Reset :: "'s migrations \<Rightarrow> handle \<Rightarrow> ('s, unit) op" where
  "Migrator_Reset G m = goose_DownTo G m 0"

definition Migrator_Close :: "'z drivers \<Rightarrow> handle \<Rightarrow> 'z pgdb_scheme \<Rightarrow> 'z pgdb_scheme" where
  "Migrator_Close X m = pgdb.more_update (\<lambda>z. snd (sql_Close X m z))"

definition Migrate :: "'z drivers \<Rightarrow> 'z pgdb_scheme migrations \<Rightarrow> PostgresConfig \<Rightarrow> ('z pgdb_scheme, unit) op" where
  "Migrate X G cfg = attempt (outside (NewMigrator X cfg)) throw
     (\<lambda>m. deferred (Migrator_Close X m) (goose_Up G m))"

section \<open>Dependencies\<close>

record 's Deps =
  dep_Postgres :: "handle option"
  dep_Redis :: "handle option"
  dep_Chain :: "'s Client option"
  dep_closers :: "('s \<Rightarrow> error option \<times> 's) list"

record options =
  o_postgres :: bool
  o_redis :: bool
  o_chain :: bool
  o_migrate :: bool

definition WithPostgres :: "options \<Rightarrow> options" where
  "WithPostgres o1 = o1\<lparr>o_postgres := True\<rparr>"

definition WithRedis :: "options \<Rightarrow> options" where
  "WithRedis o1 = o1\<lparr>o_redis := True\<rparr>"

definition WithChain :: "options \<Rightarrow> options" where
  "WithChain o1 = o1\<lparr>o_chain := True\<rparr>"

definition WithMigrations :: "options \<Rightarrow> options" where
  "WithMigrations o1 = o1\<lparr>o_migrate := True, o_postgres := True\<rparr>"

text \<open>The closers run from the last to the first; their errors are joined.\<close>

fun run_closers :: "('s \<Rightarrow> error option \<times> 's) list \<Rightarrow> error list \<Rightarrow> 's \<Rightarrow> error list \<times> 's" where
  "run_closers [] errs s = (errs, s)"
| "run_closers (c # cs) errs s = (case c s of (r, s1) \<Rightarrow>
     run_closers cs (case r of None \<Rightarrow> errs | Some err \<Rightarrow> errs @ [err]) s1)"

definition closeAll :: "'s Deps \<Rightarrow> 's \<Rightarrow> error option \<times> 's" where
  "closeAll d s = (case run_closers (rev (dep_closers d)) [] s of (errs, s1) \<Rightarrow> (errors_Join errs, s1))"

definition Deps_Close :: "'s Deps \<Rightarrow> 's \<Rightarrow> error option \<times> 's" where
  "Deps_Close d = closeAll d"

definition no_error :: "('s \<Rightarrow> 's) \<Rightarrow> 's \<Rightarrow> error option \<times> 's" where
  "no_error f s = (None, f s)"

text \<open>The shape of the three blocks: on failure what is open is closed, on success a closer is added.\<close>

definition acquire :: "('s, 'h) op \<Rightarrow> ('h \<Rightarrow> 's Deps \<Rightarrow> 's Deps) \<Rightarrow> 's Deps \<Rightarrow> ('s, 's Deps) op" where
  "acquire connect add d = attempt connect
     (\<lambda>err. after (\<lambda>s. snd (closeAll d s)) (throw err)) (\<lambda>h. ok (add h d))"

definition add_postgres :: "'s drivers \<Rightarrow> handle \<Rightarrow> 's Deps \<Rightarrow> 's Deps" where
  "add_postgres X pool d = d\<lparr>dep_Postgres := Some pool, dep_closers := dep_closers d @ [no_error (pgx_Close X pool)]\<rparr>"

definition add_redis :: "'s drivers \<Rightarrow> handle \<Rightarrow> 's Deps \<Rightarrow> 's Deps" where
  "add_redis X rdb d = d\<lparr>dep_Redis := Some rdb, dep_closers := dep_closers d @ [rds_Close X rdb]\<rparr>"

definition add_chain :: "'s Client \<Rightarrow> 's Deps \<Rightarrow> 's Deps" where
  "add_chain c d = d\<lparr>dep_Chain := Some c, dep_closers := dep_closers d @ [no_error (eth_Close (cl_eth c))]\<rparr>"

text \<open>\<open>Dial\<close> replaces a timeout that is not positive by ten seconds.\<close>

definition dial_chain :: "unicode \<Rightarrow> 's drivers \<Rightarrow> ChainConfig \<Rightarrow> ('s, 's Client) op" where
  "dial_chain U X cfg = Dial U
     (eth_client X (CC_RPCURL cfg) (if CC_RequestTimeout cfg \<le> 0 then 10 * second else CC_RequestTimeout cfg))
     (signal_ctx X) (CC_ChainID cfg) (CC_MaxRetries cfg) (CC_RetryBackoff cfg)"

text \<open>The options start from nothing; migrations run first, over a connection of their own.\<close>

definition no_options :: options where
  "no_options = \<lparr>o_postgres = False, o_redis = False, o_chain = False, o_migrate = False\<rparr>"

definition no_deps :: "'s Deps" where
  "no_deps = \<lparr>dep_Postgres = None, dep_Redis = None, dep_Chain = None, dep_closers = []\<rparr>"

definition connect_deps :: "unicode \<Rightarrow> 's drivers \<Rightarrow> Config \<Rightarrow> options \<Rightarrow> ('s, 's Deps) op" where
  "connect_deps U X cfg o1 =
      attempt (if o_postgres o1 then acquire (postgres_Connect X (Cfg_Postgres cfg)) (add_postgres X) no_deps else ok no_deps) throw (\<lambda>d1.
      attempt (if o_redis o1 then acquire (redis_Connect X (Cfg_Redis cfg)) (add_redis X) d1 else ok d1) throw (\<lambda>d2.
      if o_chain o1 then acquire (dial_chain U X (Cfg_Chain cfg)) add_chain d2 else ok d2))"

definition bootstrap_New :: "unicode \<Rightarrow> 'z drivers \<Rightarrow> 'z pgdb_scheme migrations \<Rightarrow> Config \<Rightarrow> (options \<Rightarrow> options) list \<Rightarrow>
    ('z pgdb_scheme, 'z Deps) op" where
  "bootstrap_New U X G cfg opts =
     (let o1 = fold (\<lambda>opt. opt) opts no_options in
      attempt (if o_migrate o1 then Migrate X G (Cfg_Postgres cfg) else ok ()) (\<lambda>err. throw (Wrap ''migrate: '' err []))
        (\<lambda>_. outside (connect_deps U X cfg o1)))"

section \<open>The migrate command\<close>

definition migrate_command :: "unicode \<Rightarrow> 'z drivers \<Rightarrow> 'z pgdb_scheme migrations \<Rightarrow> Config \<Rightarrow> string \<Rightarrow> handle \<Rightarrow>
    ('z pgdb_scheme, unit) op" where
  "migrate_command U X G cfg cmd m =
     (if cmd = ''up'' then attempt (goose_Up G m) throw (\<lambda>_. attempt (goose_GetDBVersion G m) throw (\<lambda>v. ok ()))
      else if cmd = ''down'' then attempt (goose_Down G m) throw (\<lambda>_. attempt (goose_GetDBVersion G m) throw (\<lambda>v. ok ()))
      else if cmd = ''reset'' then
        (if IsProduction cfg then throw (New ''refusing to reset a production database'')
         else attempt (Migrator_Reset G m) throw (\<lambda>_. ok ()))
      else if cmd = ''status'' then goose_Status G m
      else if cmd = ''version'' then attempt (goose_GetDBVersion G m) throw
        (\<lambda>v. after (pgdb.more_update (print_line X (dec_int v))) (ok ()))
      else throw (New (''unknown command '' @ Quote U cmd)))"

definition migrate_run :: "unicode \<Rightarrow> text_parsers \<Rightarrow> 'z drivers \<Rightarrow> 'z pgdb_scheme migrations \<Rightarrow> env \<Rightarrow> string list \<Rightarrow>
    ('z pgdb_scheme, unit) op" where
  "migrate_run U L X G env args =
     (if length args < 2 then throw (New ''usage: migrate <up|down|reset|status|version>'')
      else case Load U L env of Inl err \<Rightarrow> throw err | Inr cfg \<Rightarrow>
        attempt (outside (NewMigrator X (Cfg_Postgres cfg))) throw
          (\<lambda>m. deferred (Migrator_Close X m) (migrate_command U X G cfg (args ! 1) m)))"

section \<open>What is open\<close>

datatype resource = Pool handle | Rdb handle | Sql handle | Rpc | Queue handle

text \<open>
  \<open>opens live tok m\<close>: a call that succeeds opens the resource named by its result, one that
  fails opens nothing. \<open>tracks live X\<close>: \<open>live\<close> is the stack of open resources, the drivers'
  constructors push, closing removes whatever it returns, and every other call leaves the
  stack alone.
\<close>

definition opens :: "('s \<Rightarrow> resource list) \<Rightarrow> ('h \<Rightarrow> resource) \<Rightarrow> ('s, 'h) op \<Rightarrow> bool" where
  "opens live tok m \<longleftrightarrow> (\<forall>s r t. m s = (r, t) \<longrightarrow> live t = (case r of Inl e \<Rightarrow> live s | Inr h \<Rightarrow> tok h # live s))"

definition borrows :: "('s \<Rightarrow> resource list) \<Rightarrow> ('s, 'a) op \<Rightarrow> bool" where
  "borrows live m \<longleftrightarrow> (\<forall>s. live (snd (m s)) = live s)"

definition closes :: "('s \<Rightarrow> resource list) \<Rightarrow> resource \<Rightarrow> ('s \<Rightarrow> 's) \<Rightarrow> bool" where
  "closes live h f \<longleftrightarrow> (\<forall>s. live (f s) = remove1 h (live s))"

definition tracks :: "('s \<Rightarrow> resource list) \<Rightarrow> 's drivers \<Rightarrow> bool" where
  "tracks live X \<longleftrightarrow>
     (\<forall>c. opens live Pool (pgx_NewWithConfig X c)) \<and> (\<forall>h d. borrows live (pgx_Ping X h d))
   \<and> (\<forall>h. closes live (Pool h) (pgx_Close X h))
   \<and> (\<forall>c s. live (snd (rds_NewClient X c s)) = Rdb (fst (rds_NewClient X c s)) # live s)
   \<and> (\<forall>h d. borrows live (rds_Ping X h d)) \<and> (\<forall>h. closes live (Rdb h) (\<lambda>s. snd (rds_Close X h s)))
   \<and> (\<forall>n u. opens live Sql (sql_Open X n u)) \<and> (\<forall>h n s. live (sql_SetMaxOpenConns X h n s) = live s)
   \<and> (\<forall>h. closes live (Sql h) (\<lambda>s. snd (sql_Close X h s)))
   \<and> (\<forall>n. borrows live (goose_SetDialect X n))
   \<and> (\<forall>u d. opens live (\<lambda>_. Rpc) (eth_Dial (eth_client X u d)) \<and> borrows live (eth_ChainID (eth_client X u d))
        \<and> closes live Rpc (eth_Close (eth_client X u d)))
   \<and> (\<forall>d s. live (snd (ctx_Wait (signal_ctx X) d s)) = live s)
   \<and> (\<forall>l s. live (print_line X l s) = live s)"

text \<open>
  Migrations run on the connection they are given and open none; asking for the status or the
  version of the schema changes no table.
\<close>

definition migrations_track :: "('z \<Rightarrow> resource list) \<Rightarrow> 'z pgdb_scheme migrations \<Rightarrow> bool" where
  "migrations_track live G \<longleftrightarrow> (let live = \<lambda>s. live (pgdb.more s) in
     (\<forall>h. borrows live (goose_Up G h)) \<and> (\<forall>h. borrows live (goose_Down G h)) \<and> (\<forall>h n. borrows live (goose_DownTo G h n))
   \<and> (\<forall>h. borrows live (goose_Status G h)) \<and> (\<forall>h. borrows live (goose_GetDBVersion G h)))"

definition migrations_read :: "'z pgdb_scheme migrations \<Rightarrow> bool" where
  "migrations_read G \<longleftrightarrow> (\<forall>h s. same_db s (snd (goose_Status G h s))) \<and> (\<forall>h s. same_db s (snd (goose_GetDBVersion G h s)))"

named_theorems borrow_rules \<open>calls that leave the open resources as they were\<close>

lemma borrows_ok [borrow_rules]: "borrows live (ok a)" and borrows_throw [borrow_rules]: "borrows live (throw err)"
  by (simp_all add: borrows_def)

lemma borrowsD: "borrows live m \<Longrightarrow> m s = (r, t) \<Longrightarrow> live t = live s"
  by (metis borrows_def snd_conv)

lemma borrowsI: "(\<And>s r t. m s = (r, t) \<Longrightarrow> live t = live s) \<Longrightarrow> borrows live m"
  by (metis borrows_def prod.collapse)

lemma borrows_attempt [borrow_rules]:
  assumes "borrows live m" "\<And>err. borrows live (h err)" "\<And>a. borrows live (k a)"
  shows "borrows live (attempt m h k)"
  by (rule borrowsI, erule attempt_cases) (metis borrowsD [OF assms(1)] borrowsD [OF assms(2)] borrowsD [OF assms(3)])+

lemma borrows_after [borrow_rules]: "(\<And>s. live (f s) = live s) \<Longrightarrow> borrows live k \<Longrightarrow> borrows live (after f k)"
  by (simp add: borrows_def after_def)

lemma borrows_If [borrow_rules]: "borrows live m \<Longrightarrow> borrows live m' \<Longrightarrow> borrows live (if b then m else m')"
  by simp

lemma opensI:
  assumes "\<And>s err t. m s = (Inl err, t) \<Longrightarrow> live t = live s" "\<And>s h t. m s = (Inr h, t) \<Longrightarrow> live t = tok h # live s"
  shows "opens live tok m"
  using assms by (auto simp: opens_def split: sum.splits)

lemma opensD:
  assumes "opens live tok m"
  shows "m s = (Inl err, t) \<Longrightarrow> live t = live s" "m s = (Inr h, t) \<Longrightarrow> live t = tok h # live s"
  using assms by (auto simp: opens_def)

lemma closesD: "closes live h f \<Longrightarrow> live (f s) = remove1 h (live s)"
  by (simp add: closes_def)

lemma on_the_world:
  "opens live tok m \<Longrightarrow> opens (\<lambda>s. live (pgdb.more s)) tok (outside m)"
  "closes live h f \<Longrightarrow> closes (\<lambda>s. live (pgdb.more s)) h (pgdb.more_update f)"
  by (auto simp: opens_def closes_def outside_def split: prod.splits)


text \<open>The pattern of every constructor: open, try the resource, close it when the trial fails.\<close>

lemma opens_checked:
  assumes "opens live tok m" "\<And>h. borrows live (k h)" "\<And>h. closes live (tok h) (f h)"
  shows "opens live tok (attempt m (\<lambda>err. throw (v err)) (\<lambda>h. attempt (k h) (\<lambda>err. after (f h) (throw (w err))) (\<lambda>_. ok h)))"
proof (rule opensI)
  note laws = opensD [OF assms(1)] borrowsD [OF assms(2)] and close = closesD [OF assms(3)]
  show "live t = live s"
    if "attempt m (\<lambda>err. throw (v err)) (\<lambda>h. attempt (k h) (\<lambda>err. after (f h) (throw (w err))) (\<lambda>_. ok h)) s = (Inl err, t)"
    for s err t using that by (auto elim!: attempt_cases simp: after_def close dest!: laws)
  show "live t = tok h # live s"
    if "attempt m (\<lambda>err. throw (v err)) (\<lambda>h. attempt (k h) (\<lambda>err. after (f h) (throw (w err))) (\<lambda>_. ok h)) s = (Inr h, t)"
    for s h t using that by (auto elim!: attempt_cases simp: after_def close dest!: laws)
qed

lemma opens_postgres:
  assumes "tracks live X"
  shows "opens live Pool (postgres_Connect X cfg)"
proof (cases "pgx_ParseConfig X (PC_URL cfg)")
  case (Inl err)
  then show ?thesis by (auto simp: postgres_Connect_def intro!: opensI)
next
  case (Inr pc)
  then show ?thesis
    unfolding postgres_Connect_def Let_def sum.case by (simp, intro opens_checked) (use assms in \<open>auto simp: tracks_def\<close>)
qed

lemma opens_redis:
  assumes "tracks live X"
  shows "opens live Rdb (redis_Connect X cfg)"
proof -
  have "opens live Rdb (\<lambda>s. case rds_NewClient X cfg s of (h, s1) \<Rightarrow> (Inr h, s1))"
    using assms by (auto simp: tracks_def split: prod.splits intro!: opensI) (metis fst_conv snd_conv)
  then have "opens live Rdb (attempt (\<lambda>s. case rds_NewClient X cfg s of (h, s1) \<Rightarrow> (Inr h, s1)) (\<lambda>err. throw err)
      (\<lambda>rdb. attempt (rds_Ping X rdb (5 * second))
         (\<lambda>err. after (\<lambda>s. snd (rds_Close X rdb s)) (throw (Wrap ''ping redis: '' err []))) (\<lambda>_. ok rdb)))"
    by (rule opens_checked) (use assms in \<open>auto simp: tracks_def\<close>)
  moreover have "redis_Connect X cfg = attempt (\<lambda>s. case rds_NewClient X cfg s of (h, s1) \<Rightarrow> (Inr h, s1)) (\<lambda>err. throw err)
      (\<lambda>rdb. attempt (rds_Ping X rdb (5 * second))
         (\<lambda>err. after (\<lambda>s. snd (rds_Close X rdb s)) (throw (Wrap ''ping redis: '' err []))) (\<lambda>_. ok rdb))"
    by (simp add: fun_eq_iff redis_Connect_def attempt_def [of "\<lambda>s. case rds_NewClient X cfg s of (h, s1) \<Rightarrow> (Inr h, s1)"] split: prod.splits)
  ultimately show ?thesis by simp
qed

lemma opens_migrator:
  assumes "tracks live X"
  shows "opens live Sql (NewMigrator X cfg)"
proof -
  have eq: "NewMigrator X cfg = attempt (sql_Open X ''pgx'' (PC_URL cfg)) (\<lambda>err. throw (Wrap ''open migration connection: '' err []))
     (\<lambda>db. attempt (after (sql_SetMaxOpenConns X db 1) (goose_SetDialect X ''postgres''))
       (\<lambda>err. after (\<lambda>s. snd (sql_Close X db s)) (throw (Wrap ''set goose dialect: '' err []))) (\<lambda>_. ok db))"
    by (simp add: NewMigrator_def after_def attempt_def fun_eq_iff split: prod.splits sum.splits)
  show ?thesis
    unfolding eq by (rule opens_checked) (use assms in \<open>auto simp: tracks_def intro!: borrows_after\<close>)
qed

lemma deferred_close_borrows:
  assumes "opens live tok m" "\<And>h. borrows live (k h)" "\<And>h. closes live (tok h) (f h)"
  shows "borrows live (attempt m throw (\<lambda>h. deferred (f h) (k h)))"
proof (rule borrowsI, erule attempt_cases)
  fix s t h s1 r
  assume m: "m s = (Inr h, s1)" and d: "deferred (f h) (k h) s1 = (r, t)"
  obtain t1 where "k h s1 = (r, t1)" "t = f h t1" using d by (auto simp: deferred_def split: prod.splits)
  with m show "live t = live s"
    using opensD(2) [OF assms(1) m] borrowsD [OF assms(2)] closesD [OF assms(3)] by simp
qed (simp add: opensD(1) [OF assms(1)])

lemma migrator_borrows:
  assumes "tracks live X" "\<And>m. borrows (\<lambda>s. live (pgdb.more s)) (k m)"
  shows "borrows (\<lambda>s. live (pgdb.more s)) (attempt (outside (NewMigrator X cfg)) throw (\<lambda>m. deferred (Migrator_Close X m) (k m)))"
  by (rule deferred_close_borrows [OF on_the_world(1) [OF opens_migrator [OF assms(1)]] assms(2)])
    (use assms(1) in \<open>auto simp: Migrator_Close_def tracks_def intro!: on_the_world(2)\<close>)

lemma borrows_Migrate:
  "tracks live X \<Longrightarrow> migrations_track live G \<Longrightarrow> borrows (\<lambda>s. live (pgdb.more s)) (Migrate X G cfg)"
  unfolding Migrate_def by (erule migrator_borrows) (simp add: migrations_track_def Let_def)

lemma borrows_retry:
  assumes "borrows live fn" "\<And>d s. live (snd (ctx_Wait ctx d s)) = live s"
  shows "borrows live (retry_Do U ctx p fn)"
proof -
  have "live (snd (do_loop U ctx p backoff fn n err s)) = live s" for backoff n err s
  proof (induction "nat (MaxRetries p - int n)" arbitrary: n err s rule: less_induct)
    case less
    obtain q s1 where q: "fn s = (q, s1)" by fastforce
    obtain w s2 where w: "ctx_Wait ctx (retry_wait backoff n) s1 = (w, s2)" by fastforce
    have s2: "live s2 = live s" using assms(2) [of "retry_wait backoff n" s1] borrowsD [OF assms(1) q] w by simp
    have "live (snd (do_loop U ctx p backoff fn (Suc n) err s2)) = live s" if "int n < MaxRetries p" for err
      using less [of "Suc n" err s2] that s2 by simp
    with q w s2 borrowsD [OF assms(1) q] show ?case
      by (subst do_loop.simps) (auto split: option.splits sum.splits)
  qed
  then show ?thesis by (simp add: borrows_def retry_Do_def Let_def)
qed

lemma opens_Dial:
  assumes "opens live (\<lambda>_. Rpc) (eth_Dial eth)" "borrows live (eth_ChainID eth)" "closes live Rpc (eth_Close eth)"
    and "\<And>d s. live (snd (ctx_Wait ctx d s)) = live s"
  shows "opens live (\<lambda>_. Rpc) (Dial U eth ctx expected retries backoff)"
proof -
  let ?c = "\<lparr>cl_eth = eth, cl_ctx = ctx, cl_expected = expected, cl_retry = \<lparr>MaxRetries = retries, Backoff = backoff\<rparr>\<rparr>"
  have chainID: "borrows live (Client_ChainID U ?c)"
    unfolding Client_ChainID_def Client_call_def using assms(2,4) by (intro borrow_rules borrows_retry) auto
  note laws = opensD [OF assms(1)] borrowsD [OF chainID] and close = closesD [OF assms(3)]
  show ?thesis
  proof (rule opensI)
    show "live t = live s" if "Dial U eth ctx expected retries backoff s = (Inl err, t)" for s err t
      using that unfolding Dial_def Let_def
      by (auto elim!: attempt_cases simp: after_def close split: if_splits dest!: laws)
    show "live t = Rpc # live s" if "Dial U eth ctx expected retries backoff s = (Inr c, t)" for s c t
      using that unfolding Dial_def Let_def
      by (auto elim!: attempt_cases simp: after_def close split: if_splits dest!: laws)
  qed
qed

lemma opens_chain: "tracks live X \<Longrightarrow> opens live (\<lambda>_. Rpc) (dial_chain U X cfg)"
  unfolding dial_chain_def tracks_def by (intro opens_Dial) blast+

section \<open>No leaks\<close>

text \<open>The resources a dependency record holds, the last opened first, and that its closers close them.\<close>

definition opened :: "'s Deps \<Rightarrow> resource list" where
  "opened d = (case dep_Chain d of None \<Rightarrow> [] | Some c \<Rightarrow> [Rpc])
     @ (case dep_Redis d of None \<Rightarrow> [] | Some h \<Rightarrow> [Rdb h])
     @ (case dep_Postgres d of None \<Rightarrow> [] | Some h \<Rightarrow> [Pool h])"

definition held :: "('s \<Rightarrow> resource list) \<Rightarrow> 's Deps \<Rightarrow> bool" where
  "held live d \<longleftrightarrow> list_all2 (\<lambda>c h. closes live h (\<lambda>s. snd (c s))) (rev (dep_closers d)) (opened d)"

lemma run_closers_live:
  assumes "list_all2 (\<lambda>c h. closes live h (\<lambda>s. snd (c s))) cs hs" "live s = hs @ base"
  shows "live (snd (run_closers cs errs s)) = base"
  using assms
proof (induction arbitrary: errs s rule: list_all2_induct)
  case (Cons c cs h hs)
  obtain r s1 where c: "c s = (r, s1)" by fastforce
  with Cons have "live s1 = hs @ base" by (auto simp: closes_def dest!: spec [of _ s])
  with Cons.IH c show ?case by simp
qed simp

lemma closeAll_live: "held live d \<Longrightarrow> live s = opened d @ base \<Longrightarrow> live (snd (closeAll d s)) = base"
  using run_closers_live [of live "rev (dep_closers d)" "opened d" s base "[]"]
  by (cases "run_closers (rev (dep_closers d)) [] s") (simp add: held_def closeAll_def)

lemma acquire_if_live:
  assumes "opens live tok connect" "held live d" "live s = opened d @ base"
    and add: "\<And>h s' t'. connect s' = (Inr h, t') \<Longrightarrow> opened (add h d) = tok h # opened d \<and> held live (add h d)"
    and run: "(if b then acquire connect add d else ok d) s = (r, t)"
  shows "case r of Inl err \<Rightarrow> live t = base
    | Inr d' \<Rightarrow> live t = opened d' @ base \<and> held live d' \<and> (if b then \<exists>h. d' = add h d else d' = d)"
proof (cases b)
  case True
  from run True have "attempt connect (\<lambda>err. after (\<lambda>s. snd (closeAll d s)) (throw err)) (\<lambda>h. ok (add h d)) s = (r, t)"
    by (simp add: acquire_def)
  then show ?thesis
  proof (rule attempt_cases)
    fix err s1
    assume "connect s = (Inl err, s1)" "after (\<lambda>s. snd (closeAll d s)) (throw err) s1 = (r, t)"
    with opensD(1) [OF assms(1)] closeAll_live [OF assms(2)] assms(3) show ?thesis by (simp add: after_def)
  next
    fix h s1
    assume "connect s = (Inr h, s1)" "ok (add h d) s1 = (r, t)"
    with opensD(2) [OF assms(1)] assms(3) add True show ?thesis by auto
  qed
qed (use assms in auto)

lemma Dial_eth: "Dial U eth ctx expected retries backoff s = (Inr c, t) \<Longrightarrow> cl_eth c = eth"
  unfolding Dial_def Let_def by (auto elim!: attempt_cases simp: after_def split: if_splits)

lemma dial_chain_eth: "dial_chain U X cfg s = (Inr c, t) \<Longrightarrow> \<exists>u w. cl_eth c = eth_client X u w"
  unfolding dial_chain_def by (intro exI) (erule Dial_eth)

lemma add_laws:
  assumes "tracks live X" "held live d"
  shows "dep_Postgres d = None \<Longrightarrow> dep_Redis d = None \<Longrightarrow> dep_Chain d = None \<Longrightarrow>
      opened (add_postgres X h d) = Pool h # opened d \<and> held live (add_postgres X h d)"
    and "dep_Redis d = None \<Longrightarrow> dep_Chain d = None \<Longrightarrow>
      opened (add_redis X h d) = Rdb h # opened d \<and> held live (add_redis X h d)"
    and "dep_Chain d = None \<Longrightarrow> cl_eth c = eth_client X u w \<Longrightarrow>
      opened (add_chain c d) = Rpc # opened d \<and> held live (add_chain c d)"
  using assms by (auto simp: held_def opened_def add_postgres_def add_redis_def add_chain_def tracks_def no_error_def)

text \<open>The three stages: a failure has closed everything, a success has added one resource if it was asked for.\<close>

lemma postgres_stage:
  assumes "tracks live X" "live s = base"
    and "d = no_deps"
    and run: "(if b then acquire (postgres_Connect X cfg) (add_postgres X) d else ok d) s = (r, t)"
  shows "case r of Inl err \<Rightarrow> live t = base | Inr d' \<Rightarrow> live t = opened d' @ base \<and> held live d'
    \<and> (dep_Postgres d' \<noteq> None \<longleftrightarrow> b) \<and> dep_Redis d' = None \<and> dep_Chain d' = None"
proof -
  have d: "held live d" "opened d = []" by (simp_all add: held_def opened_def assms(3) no_deps_def)
  have "case r of Inl err \<Rightarrow> live t = base | Inr d' \<Rightarrow> live t = opened d' @ base \<and> held live d'
      \<and> (if b then \<exists>h. d' = add_postgres X h d else d' = d)"
    by (rule acquire_if_live [OF opens_postgres [OF assms(1)] d(1) _ _ run])
      (use assms(2,3) d(2) add_laws(1) [OF assms(1) d(1)] in \<open>auto simp: no_deps_def\<close>)
  then show ?thesis by (auto simp: add_postgres_def assms(3) no_deps_def split: sum.splits if_splits)
qed

lemma redis_stage:
  assumes "tracks live X" "live s = opened d @ base" "held live d" "dep_Redis d = None" "dep_Chain d = None"
    and run: "(if b then acquire (redis_Connect X cfg) (add_redis X) d else ok d) s = (r, t)"
  shows "case r of Inl err \<Rightarrow> live t = base | Inr d' \<Rightarrow> live t = opened d' @ base \<and> held live d'
    \<and> dep_Postgres d' = dep_Postgres d \<and> (dep_Redis d' \<noteq> None \<longleftrightarrow> b) \<and> dep_Chain d' = None"
proof -
  have "case r of Inl err \<Rightarrow> live t = base | Inr d' \<Rightarrow> live t = opened d' @ base \<and> held live d'
      \<and> (if b then \<exists>h. d' = add_redis X h d else d' = d)"
    by (rule acquire_if_live [OF opens_redis [OF assms(1)] assms(3,2) _ run])
      (use assms(4,5) add_laws(2) [OF assms(1,3)] in auto)
  with assms(4,5) show ?thesis by (auto simp: add_redis_def split: sum.splits if_splits)
qed

lemma chain_stage:
  assumes "tracks live X" "live s = opened d @ base" "held live d" "dep_Chain d = None"
    and run: "(if b then acquire (dial_chain U X cfg) add_chain d else ok d) s = (r, t)"
  shows "case r of Inl err \<Rightarrow> live t = base | Inr d' \<Rightarrow> live t = opened d' @ base \<and> held live d'
    \<and> dep_Postgres d' = dep_Postgres d \<and> dep_Redis d' = dep_Redis d \<and> (dep_Chain d' \<noteq> None \<longleftrightarrow> b)"
proof -
  have "case r of Inl err \<Rightarrow> live t = base | Inr d' \<Rightarrow> live t = opened d' @ base \<and> held live d'
      \<and> (if b then \<exists>h. d' = add_chain h d else d' = d)"
    by (rule acquire_if_live [OF opens_chain [OF assms(1)] assms(3,2) _ run])
      (metis add_laws(3) [OF assms(1,3,4)] dial_chain_eth)
  with assms(4) show ?thesis by (auto simp: add_chain_def split: sum.splits if_splits)
qed

text \<open>The stages one after the other.\<close>

lemma connect_live:
  assumes "tracks live X" "connect_deps U X cfg o1 s = (r, t)"
  shows "case r of Inl err \<Rightarrow> live t = live s
    | Inr d \<Rightarrow> live t = opened d @ live s \<and> held live d
        \<and> (dep_Postgres d \<noteq> None \<longleftrightarrow> o_postgres o1) \<and> (dep_Redis d \<noteq> None \<longleftrightarrow> o_redis o1)
        \<and> (dep_Chain d \<noteq> None \<longleftrightarrow> o_chain o1)"
  using assms(2) [unfolded connect_deps_def]
proof (rule attempt_cases)
  fix d1 s2
  assume "(if o_postgres o1 then acquire (postgres_Connect X (Cfg_Postgres cfg)) (add_postgres X) no_deps else ok no_deps) s = (Inr d1, s2)"
  note 1 = postgres_stage [OF assms(1) refl refl this, simplified]
  assume "attempt (if o_redis o1 then acquire (redis_Connect X (Cfg_Redis cfg)) (add_redis X) d1 else ok d1) throw (\<lambda>d2.
    if o_chain o1 then acquire (dial_chain U X (Cfg_Chain cfg)) add_chain d2 else ok d2) s2 = (r, t)"
  then show ?thesis
  proof (rule attempt_cases)
    fix d2 s3
    assume "(if o_redis o1 then acquire (redis_Connect X (Cfg_Redis cfg)) (add_redis X) d1 else ok d1) s2 = (Inr d2, s3)"
    note 2 = redis_stage [OF assms(1) _ _ _ _ this, of "live s", simplified 1, simplified]
    assume "(if o_chain o1 then acquire (dial_chain U X (Cfg_Chain cfg)) add_chain d2 else ok d2) s3 = (r, t)"
    note 3 = chain_stage [OF assms(1) _ _ _ this, of "live s"]
    with 1 2 show ?thesis by (auto split: sum.splits)
  next
    fix err s3
    assume "(if o_redis o1 then acquire (redis_Connect X (Cfg_Redis cfg)) (add_redis X) d1 else ok d1) s2 = (Inl err, s3)"
      "throw err s3 = (r, t)"
    with 1 redis_stage [OF assms(1) _ _ _ _ this(1), of "live s"] show ?thesis by auto
  qed
next
  fix err s2
  assume "(if o_postgres o1 then acquire (postgres_Connect X (Cfg_Postgres cfg)) (add_postgres X) no_deps else ok no_deps) s = (Inl err, s2)"
    "throw err s2 = (r, t)"
  with postgres_stage [OF assms(1) refl refl this(1)] show ?thesis by auto
qed

text \<open>What a startup ends with are the connections it asked for, each made and tried by its constructor.\<close>

lemma connect_connected:
  assumes "connect_deps U X cfg o1 s = (Inr d, t)"
  shows "o_redis o1 \<Longrightarrow> \<exists>h z z'. dep_Redis d = Some h \<and> redis_Connect X (Cfg_Redis cfg) z = (Inr h, z')"
    and "o_chain o1 \<Longrightarrow> \<exists>c z z'. dep_Chain d = Some c \<and> dial_chain U X (Cfg_Chain cfg) z = (Inr c, z')"
proof -
  have redis: "\<exists>h z z'. dep_Redis d2 = Some h \<and> redis_Connect X (Cfg_Redis cfg) z = (Inr h, z')"
    if "acquire (redis_Connect X (Cfg_Redis cfg)) (add_redis X) d1 z = (Inr d2, z1)" for d1 d2 z z1
    using that by (fastforce simp: acquire_def after_def add_redis_def elim!: attempt_cases)
  have chain: "dep_Redis d = dep_Redis d2 \<and> (\<exists>c z z'. dep_Chain d = Some c \<and> dial_chain U X (Cfg_Chain cfg) z = (Inr c, z'))"
    if "acquire (dial_chain U X (Cfg_Chain cfg)) add_chain d2 z = (Inr d, z1)" for d2 z z1
    using that by (fastforce simp: acquire_def after_def add_chain_def elim!: attempt_cases)
  show "\<exists>h z z'. dep_Redis d = Some h \<and> redis_Connect X (Cfg_Redis cfg) z = (Inr h, z')" if "o_redis o1"
    using assms that unfolding connect_deps_def
    by (auto elim!: attempt_cases split: if_splits dest!: redis chain) blast+
  show "\<exists>c z z'. dep_Chain d = Some c \<and> dial_chain U X (Cfg_Chain cfg) z = (Inr c, z')" if "o_chain o1"
    using assms that unfolding connect_deps_def by (auto elim!: attempt_cases dest!: chain)
qed

lemma New_live:
  assumes "tracks live X" "migrations_track live G" "bootstrap_New U X G cfg opts s = (r, t)"
    and "o1 = fold (\<lambda>opt. opt) opts no_options"
  shows "case r of Inl err \<Rightarrow> live (pgdb.more t) = live (pgdb.more s)
    | Inr d \<Rightarrow> live (pgdb.more t) = opened d @ live (pgdb.more s) \<and> held live d
        \<and> (dep_Postgres d \<noteq> None \<longleftrightarrow> o_postgres o1) \<and> (dep_Redis d \<noteq> None \<longleftrightarrow> o_redis o1)
        \<and> (dep_Chain d \<noteq> None \<longleftrightarrow> o_chain o1)"
  using assms(3) [unfolded bootstrap_New_def Let_def, folded assms(4)]
proof (rule attempt_cases)
  fix err s1
  assume "(if o_migrate o1 then Migrate X G (Cfg_Postgres cfg) else ok ()) s = (Inl err, s1)"
    "throw (Wrap ''migrate: '' err []) s1 = (r, t)"
  with borrowsD [OF borrows_Migrate [OF assms(1,2)]] show ?thesis by (auto split: if_splits)
next
  fix u s1
  assume m: "(if o_migrate o1 then Migrate X G (Cfg_Postgres cfg) else ok ()) s = (Inr u, s1)"
  have live: "live (pgdb.more s1) = live (pgdb.more s)"
    using m borrowsD [OF borrows_Migrate [OF assms(1,2)]] by (auto split: if_splits)
  assume "outside (connect_deps U X cfg o1) s1 = (r, t)"
  then have "connect_deps U X cfg o1 (pgdb.more s1) = (r, pgdb.more t)"
    by (auto simp: outside_def split: prod.splits)
  from connect_live [OF assms(1) this] show ?thesis unfolding live .
qed

text \<open>Without \<open>WithMigrations\<close> a startup reaches no table.\<close>

lemma New_same:
  assumes "bootstrap_New U X G cfg opts s = (r, t)" "\<not> o_migrate (fold (\<lambda>opt. opt) opts no_options)"
  shows "same_db s t"
  using assms by (auto simp: bootstrap_New_def Let_def elim!: attempt_cases dest: outside_same)

text \<open>
  A partial startup never leaks: when \<open>New\<close> fails, everything it had opened is closed,
  the migration connection included; when it succeeds, exactly the requested dependencies are
  open, in the order PostgreSQL, Redis, chain, and \<open>Close\<close> releases them from the last to the
  first, whatever the closers return.
\<close>

theorem bootstrap_never_leaks:
  assumes "tracks live X" "migrations_track live G" "bootstrap_New U X G cfg opts s = (r, t)"
    and "o1 = fold (\<lambda>opt. opt) opts no_options"
  shows "case r of Inl err \<Rightarrow> live (pgdb.more t) = live (pgdb.more s)
    | Inr d \<Rightarrow> live (pgdb.more t) = opened d @ live (pgdb.more s) \<and> live (snd (Deps_Close d (pgdb.more t))) = live (pgdb.more s)
        \<and> (dep_Postgres d \<noteq> None \<longleftrightarrow> o_postgres o1) \<and> (dep_Redis d \<noteq> None \<longleftrightarrow> o_redis o1)
        \<and> (dep_Chain d \<noteq> None \<longleftrightarrow> o_chain o1)"
  using New_live [OF assms] closeAll_live by (auto simp: Deps_Close_def split: sum.splits)





text \<open>
  \<open>down\<close> has no such guard: in production as elsewhere it rolls one migration back, and at
  version 1 that is the rollback to zero.
\<close>

theorem production_down_unguarded:
  assumes "Load U L env = Inr cfg" "2 \<le> length args" "args ! 1 = ''down''"
    and "outside (NewMigrator X (Cfg_Postgres cfg)) s = (Inr m, s1)"
  shows "migrate_run U L X G env args s = deferred (Migrator_Close X m)
    (attempt (goose_Down G m) throw (\<lambda>_. attempt (goose_GetDBVersion G m) throw (\<lambda>v. ok ()))) s1"
  using assms by (simp add: migrate_run_def migrate_command_def attempt_def [of "outside (NewMigrator X (Cfg_Postgres cfg))"])

text \<open>Drivers for examples: the state is the stack of open resources, and Redis does not answer.\<close>

definition sample_drivers :: "resource list drivers" where
  "sample_drivers =
     \<lparr>pgx_ParseConfig = (\<lambda>u. Inr \<lparr>px_conn = u, px_MaxConns = 4, px_MinConns = 0, px_MaxConnLifetime = 0,
        px_MaxConnIdleTime = 0, px_RuntimeParams = None\<rparr>),
      pgx_NewWithConfig = (\<lambda>c s. (Inr 1, Pool 1 # s)), pgx_Ping = (\<lambda>h d. ok ()), pgx_Close = (\<lambda>h. remove1 (Pool h)),
      rds_NewClient = (\<lambda>c s. (2, Rdb 2 # s)), rds_Ping = (\<lambda>h d. throw (New ''refused'')),
      rds_Close = (\<lambda>h s. (None, remove1 (Rdb h) s)),
      sql_Open = (\<lambda>n u s. (Inr 3, Sql 3 # s)), sql_SetMaxOpenConns = (\<lambda>h n s. s), sql_Close = (\<lambda>h s. (None, remove1 (Sql h) s)),
      goose_SetDialect = (\<lambda>n. ok ()),
      eth_client = (\<lambda>u d. \<lparr>eth_Dial = (\<lambda>s. (Inr (), Rpc # s)), eth_Close = remove1 Rpc, eth_ChainID = ok 4663,
        eth_HeaderByNumber = (\<lambda>_. throw (Foreign EthereumNotFound)),
        eth_TransactionByHash = (\<lambda>_. throw (Foreign EthereumNotFound)),
        eth_TransactionReceipt = (\<lambda>_. throw (Foreign EthereumNotFound)),
        eth_BalanceAt = (\<lambda>_ _. ok (Some 0)), eth_FilterLogs = (\<lambda>_. ok [])\<rparr>),
      signal_ctx = \<lparr>ctx_Err = (\<lambda>_. None), ctx_Wait = (\<lambda>d s. (None, s))\<rparr>,
      print_line = (\<lambda>l s. s)\<rparr>"

lemma tracks_sample: "tracks (\<lambda>s. s) sample_drivers"
  by (simp add: tracks_def sample_drivers_def opens_def borrows_def closes_def)

text \<open>Migrations for examples: whatever rolls back drops the wallets and the trail.\<close>

definition sample_rollback :: "handle \<Rightarrow> ('z pgdb_scheme, unit) op" where
  "sample_rollback h s = (Inr (), s\<lparr>wallets := [], wallet_policies := [], audit_logs := [], chain_sync_state := []\<rparr>)"

definition sample_migrations :: "'z pgdb_scheme migrations" where
  "sample_migrations = \<lparr>goose_Up = (\<lambda>h. ok ()), goose_Down = sample_rollback, goose_DownTo = (\<lambda>h n. sample_rollback h),
     goose_Status = (\<lambda>h. ok ()), goose_GetDBVersion = (\<lambda>h. ok 5)\<rparr>"

lemma migrations_sample: "migrations_track live sample_migrations" "migrations_read sample_migrations"
  by (simp_all add: migrations_track_def migrations_read_def sample_migrations_def sample_rollback_def borrows_def)

definition sample_env :: env where
  "sample_env = Map.empty(''POSTGRES_URL'' \<mapsto> ''db'', ''APP_ENV'' \<mapsto> ''Production'')"

definition sample_cfg :: Config where
  "sample_cfg = fst (read_env ascii_tables sample_parsers sample_env)"

text \<open>A database with one recorded height, and no resource open.\<close>

definition sample_store :: "resource list pgdb_scheme" where
  "sample_store = empty_db []\<lparr>chain_sync_state := [\<lparr>sr_chain_id = 4663, sr_chain_name = ''robinhood'', sr_last_block_number = 7,
     sr_last_block_hash = [], sr_last_block_time = 0, sr_observed_at = 0, sr_updated_at = 0\<rparr>]\<rparr>"

theorem bootstrap_never_leaks_witness:
  "isl (fst (bootstrap_New ascii_tables sample_drivers sample_migrations sample_cfg [WithMigrations, WithRedis, WithChain] sample_store))
   \<and> pgdb.more (snd (bootstrap_New ascii_tables sample_drivers sample_migrations sample_cfg [WithMigrations, WithRedis, WithChain] sample_store)) = []"
proof -
  let ?run = "bootstrap_New ascii_tables sample_drivers sample_migrations sample_cfg [WithMigrations, WithRedis, WithChain] sample_store"
  have fails: "isl (fst ?run)" by code_simp
  then obtain err t where run: "?run = (Inl err, t)" by (cases ?run; cases "fst ?run") auto
  from bootstrap_never_leaks [OF tracks_sample migrations_sample(1) run refl] fails
  show ?thesis unfolding run by (auto simp: sample_store_def empty_db_def split: sum.splits)
qed


end
