(* ===== verification/Subscriber.thy ===== *)
theory Subscriber
  imports ChainClient
begin

text \<open>
  \<open>internal/chain/subscriber.go\<close>: the loop that keeps a subscription to new block heads
  alive. \<open>Run\<close> and \<open>session\<close> interact with the context, a timer and the WebSocket client at
  fixed points; between two such points the code is deterministic. A state is the
  subscriber with the point it is at, an observation is what the code sees there, and a
  step runs to the next point. The calls of \<open>onHead\<close> are collected in a list.
\<close>

section \<open>The subscriber\<close>

text \<open>
  The points: before \<open>Run\<close>, and then, each with the current backoff, the head of the loop, the dial, the request of
  the chain ID, the subscription (with the ID read in this session, if one was), the
  select of the stream, the end of a session with its error, the select on the timer, and
  the return of \<open>Run\<close>.
\<close>

datatype point =
    NotRunning
  | LoopTop duration
  | Dialing duration
  | AskingID duration
  | Subscribing duration "int option"
  | Streaming duration "int option"
  | SessionEnded duration error
  | Sleeping duration
  | RunReturned error

record HeadSubscriber =
  hs_wsURL :: string
  hs_expectedChain :: u64
  hs_dialTimeout :: duration
  hs_reconnectBase :: duration
  hs_reconnectMax :: duration
  hs_last :: BlockRef
  hs_lastSeen :: time
  hs_connected :: bool
  hs_point :: point
  hs_heads :: "BlockRef list"

definition NewHeadSubscriber :: "string \<Rightarrow> u64 \<Rightarrow> duration \<Rightarrow> duration \<Rightarrow> duration \<Rightarrow> HeadSubscriber" where
  "NewHeadSubscriber wsURL expectedChain dialTimeout reconnectBase reconnectMax =
     \<lparr>hs_wsURL = wsURL, hs_expectedChain = expectedChain,
      hs_dialTimeout = (if dialTimeout \<le> 0 then 10 * second else dialTimeout),
      hs_reconnectBase = (if reconnectBase \<le> 0 then second else reconnectBase),
      hs_reconnectMax = (if reconnectMax \<le> 0 then 30 * second else reconnectMax),
      hs_last = zero_BlockRef, hs_lastSeen = zero_time, hs_connected = False, hs_point = NotRunning, hs_heads = []\<rparr>"

definition HeadSubscriber_Last :: "HeadSubscriber \<Rightarrow> BlockRef \<times> time" where
  "HeadSubscriber_Last hs = (hs_last hs, hs_lastSeen hs)"

definition HeadSubscriber_Connected :: "HeadSubscriber \<Rightarrow> bool" where
  "HeadSubscriber_Connected hs = hs_connected hs"

definition setConnected :: "bool \<Rightarrow> HeadSubscriber \<Rightarrow> HeadSubscriber" where
  "setConnected v hs = hs\<lparr>hs_connected := v\<rparr>"

text \<open>\<open>backoff *= 2\<close> on a 64-bit duration, then the cap.\<close>

definition next_backoff :: "HeadSubscriber \<Rightarrow> duration \<Rightarrow> duration" where
  "next_backoff hs backoff =
     (let doubled = sint (2 * (word_of_int backoff :: i64))
      in if doubled > hs_reconnectMax hs then hs_reconnectMax hs else doubled)"

section \<open>Steps\<close>

datatype observation =
    CtxLive
  | CtxErr error
  | Dialed "error + unit"
  | GotChainID "error + int"
  | Subscribed "error + unit"
  | SubErr "error option"
  | HeadArrived Header time
  | TimerFired

definition wrong_chain :: "HeadSubscriber \<Rightarrow> int \<Rightarrow> error" where
  "wrong_chain hs i = Wrap [] (Sentinel ErrWrongChain)
     ('': websocket reports '' @ dec_int i @ '', expected '' @ dec_nat (unat (hs_expectedChain hs)))"

definition Run_start :: "HeadSubscriber \<Rightarrow> HeadSubscriber" where
  "Run_start hs = hs\<lparr>hs_point := if hs_wsURL hs = [] then RunReturned (New ''websocket url is empty'')
     else LoopTop (hs_reconnectBase hs)\<rparr>"

text \<open>The steps of \<open>Run\<close>, each for an observation the code can make at the point.\<close>

inductive run_step :: "HeadSubscriber \<Rightarrow> observation \<Rightarrow> HeadSubscriber \<Rightarrow> bool" where
  top_cancelled: "hs_point hs = LoopTop b \<Longrightarrow> run_step hs (CtxErr e) (hs\<lparr>hs_point := RunReturned e\<rparr>)"
| top_live: "hs_point hs = LoopTop b \<Longrightarrow> run_step hs CtxLive (hs\<lparr>hs_point := Dialing b\<rparr>)"
| ended_cancelled: "hs_point hs = SessionEnded b err \<Longrightarrow>
    run_step hs (CtxErr e) (setConnected False (hs\<lparr>hs_point := RunReturned e\<rparr>))"
| ended_live: "hs_point hs = SessionEnded b err \<Longrightarrow>
    run_step hs CtxLive (setConnected False (hs\<lparr>hs_point := Sleeping b\<rparr>))"
| sleep_cancelled: "hs_point hs = Sleeping b \<Longrightarrow> run_step hs (CtxErr e) (hs\<lparr>hs_point := RunReturned e\<rparr>)"
| sleep_over: "hs_point hs = Sleeping b \<Longrightarrow> run_step hs TimerFired (hs\<lparr>hs_point := LoopTop (next_backoff hs b)\<rparr>)"

text \<open>The steps of \<open>session\<close>.\<close>

inductive session_step :: "HeadSubscriber \<Rightarrow> observation \<Rightarrow> HeadSubscriber \<Rightarrow> bool" where
  dial_failed: "hs_point hs = Dialing b \<Longrightarrow>
    session_step hs (Dialed (Inl e)) (hs\<lparr>hs_point := SessionEnded b (Wrap ''dial websocket: '' e [])\<rparr>)"
| dialed_unchecked: "hs_point hs = Dialing b \<Longrightarrow> hs_expectedChain hs = 0 \<Longrightarrow>
    session_step hs (Dialed (Inr ())) (hs\<lparr>hs_point := Subscribing b None\<rparr>)"
| dialed: "hs_point hs = Dialing b \<Longrightarrow> hs_expectedChain hs \<noteq> 0 \<Longrightarrow>
    session_step hs (Dialed (Inr ())) (hs\<lparr>hs_point := AskingID b\<rparr>)"
| id_failed: "hs_point hs = AskingID b \<Longrightarrow>
    session_step hs (GotChainID (Inl e)) (hs\<lparr>hs_point := SessionEnded b (Wrap ''verify chain id: '' e [])\<rparr>)"
| id_wrong: "hs_point hs = AskingID b \<Longrightarrow> \<not> (0 \<le> i \<and> i < 2 ^ 64) \<or> word_of_int i \<noteq> hs_expectedChain hs \<Longrightarrow>
    session_step hs (GotChainID (Inr i)) (hs\<lparr>hs_point := SessionEnded b (wrong_chain hs i)\<rparr>)"
| id_right: "hs_point hs = AskingID b \<Longrightarrow> 0 \<le> i \<Longrightarrow> i < 2 ^ 64 \<Longrightarrow> word_of_int i = hs_expectedChain hs \<Longrightarrow>
    session_step hs (GotChainID (Inr i)) (hs\<lparr>hs_point := Subscribing b (Some i)\<rparr>)"
| subscribe_failed: "hs_point hs = Subscribing b i \<Longrightarrow>
    session_step hs (Subscribed (Inl e)) (hs\<lparr>hs_point := SessionEnded b (Wrap ''subscribe new head: '' e [])\<rparr>)"
| subscribed: "hs_point hs = Subscribing b i \<Longrightarrow>
    session_step hs (Subscribed (Inr ())) (setConnected True (hs\<lparr>hs_point := Streaming b i\<rparr>))"
| stream_cancelled: "hs_point hs = Streaming b i \<Longrightarrow>
    session_step hs (CtxErr e) (hs\<lparr>hs_point := SessionEnded b e\<rparr>)"
| stream_failed: "hs_point hs = Streaming b i \<Longrightarrow>
    session_step hs (SubErr e)
      (hs\<lparr>hs_point := SessionEnded b (case e of None \<Rightarrow> New ''subscription closed'' | Some err \<Rightarrow> err)\<rparr>)"
| stream_head: "hs_point hs = Streaming b i \<Longrightarrow> ref = headerToRef h \<Longrightarrow>
    session_step hs (HeadArrived h now) (hs\<lparr>hs_last := ref, hs_lastSeen := now, hs_heads := hs_heads hs @ [ref]\<rparr>)"

definition sub_step :: "HeadSubscriber \<Rightarrow> observation \<Rightarrow> HeadSubscriber \<Rightarrow> bool" where
  "sub_step hs ob hs' \<longleftrightarrow> run_step hs ob hs' \<or> session_step hs ob hs'"

text \<open>The states \<open>Run\<close> can be in after a sequence of observations.\<close>

inductive sub_run :: "HeadSubscriber \<Rightarrow> observation list \<Rightarrow> HeadSubscriber \<Rightarrow> bool" for hs where
  sub_start: "sub_run hs [] (Run_start hs)"
| sub_next: "sub_run hs obs h1 \<Longrightarrow> sub_step h1 ob h2 \<Longrightarrow> sub_run hs (obs @ [ob]) h2"

section \<open>What the loop keeps\<close>

fun backoff_of :: "point \<Rightarrow> duration option" where
  "backoff_of (LoopTop b) = Some b"
| "backoff_of (Dialing b) = Some b"
| "backoff_of (AskingID b) = Some b"
| "backoff_of (Subscribing b i) = Some b"
| "backoff_of (Streaming b i) = Some b"
| "backoff_of (SessionEnded b e) = Some b"
| "backoff_of (Sleeping b) = Some b"
| "backoff_of _ = None"

definition session_ok :: "HeadSubscriber \<Rightarrow> bool" where
  "session_ok hs \<longleftrightarrow>
     (case hs_point hs of
        Streaming b i \<Rightarrow> hs_connected hs \<and> (hs_expectedChain hs \<noteq> 0 \<longrightarrow> i = Some (uint (hs_expectedChain hs)))
      | Subscribing b i \<Rightarrow> \<not> hs_connected hs \<and> (hs_expectedChain hs \<noteq> 0 \<longrightarrow> i = Some (uint (hs_expectedChain hs)))
      | SessionEnded b e \<Rightarrow> True
      | _ \<Rightarrow> \<not> hs_connected hs)
   \<and> hs_last hs = (if hs_heads hs = [] then zero_BlockRef else last (hs_heads hs))"

lemmas step_elims = run_step.cases session_step.cases

lemma sub_step_config:
  assumes "sub_step hs ob hs'"
  shows "hs_expectedChain hs' = hs_expectedChain hs \<and> hs_reconnectMax hs' = hs_reconnectMax hs
    \<and> hs_reconnectBase hs' = hs_reconnectBase hs"
  using assms unfolding sub_step_def by (elim disjE step_elims) (simp_all add: setConnected_def)

lemma sub_step_session:
  assumes "sub_step hs ob hs'" "session_ok hs"
  shows "session_ok hs'"
  using assms unfolding sub_step_def
  by (elim disjE step_elims)
    (auto simp: session_ok_def setConnected_def uint_word_of_int_eq take_bit_int_eq_self dest: sym [of _ "hs_expectedChain _"])

lemma sub_step_backoff:
  assumes "sub_step hs ob hs'" "backoff_of (hs_point hs') = Some b'"
  shows "\<exists>b. backoff_of (hs_point hs) = Some b \<and> b' = (if ob = TimerFired then next_backoff hs b else b)"
  using assms unfolding sub_step_def by (elim disjE step_elims) (auto simp: setConnected_def)

lemma sub_step_returned:
  assumes "sub_step hs ob hs'" "hs_point hs' = RunReturned e"
  shows "ob = CtxErr e"
  using assms unfolding sub_step_def by (elim disjE step_elims) (auto simp: setConnected_def)

lemma sub_run_config:
  assumes "sub_run hs0 obs hs"
  shows "hs_expectedChain hs = hs_expectedChain hs0 \<and> hs_reconnectMax hs = hs_reconnectMax hs0
    \<and> hs_reconnectBase hs = hs_reconnectBase hs0"
  using assms by induction (auto simp: Run_start_def dest!: sub_step_config)

lemma next_backoff_min:
  assumes "0 \<le> b" "b < 2 ^ 62"
  shows "next_backoff hs b = min (2 * b) (hs_reconnectMax hs)"
proof -
  have "2 * (word_of_int b :: i64) = push_bit 1 (word_of_int b)" by (simp add: push_bit_eq_mult)
  moreover have "sint (push_bit 1 (word_of_int b :: i64)) = b * 2 ^ 1"
    using assms by (intro push_bit_sint) auto
  ultimately have "sint (2 * (word_of_int b :: i64)) = 2 * b" by (simp only: power_one_right mult.commute)
  then show ?thesis by (simp add: next_backoff_def Let_def min_def)
qed

lemma sub_run_backoff:
  assumes "sub_run hs0 obs hs" "0 < hs_reconnectBase hs0" "hs_reconnectBase hs0 \<le> hs_reconnectMax hs0"
    and "hs_reconnectMax hs0 < 2 ^ 62" "backoff_of (hs_point hs) = Some b"
  shows "b = min (hs_reconnectBase hs0 * 2 ^ count_list obs TimerFired) (hs_reconnectMax hs0)"
  using assms(1,5)
proof (induction arbitrary: b)
  case sub_start
  with assms(3) show ?case by (auto simp: Run_start_def split: if_splits)
next
  case (sub_next obs h1 ob h2)
  from sub_step_backoff [OF sub_next.hyps(2) sub_next.prems] obtain b1 where
    b1: "backoff_of (hs_point h1) = Some b1" "b = (if ob = TimerFired then next_backoff h1 b1 else b1)" by blast
  let ?x = "hs_reconnectBase hs0 * 2 ^ count_list obs TimerFired"
  have IH: "b1 = min ?x (hs_reconnectMax hs0)" using sub_next.IH [OF b1(1)] .
  have "0 \<le> ?x" using assms(2) by simp
  with IH assms have "0 \<le> b1" "b1 < 2 ^ 62" by auto
  from next_backoff_min [OF this] sub_run_config [OF sub_next.hyps(1)]
  have "next_backoff h1 b1 = min (2 * b1) (hs_reconnectMax hs0)" by simp
  with b1(2) IH \<open>0 \<le> ?x\<close> assms(2,3) show ?case by (auto simp: min_def)
qed

text \<open>
  C28. Whatever the node, the network and the context do, in every state of \<open>Run\<close>: heads
  are streamed only in a session whose node reported the expected chain (when one is
  expected), \<open>Connected\<close> is true exactly while streaming (and until the end of a broken
  session is handled), \<open>Last\<close> is the last head handed to \<open>onHead\<close>; and \<open>Run\<close> returns only
  with the context's error, unless there is no URL.
\<close>

theorem subscriber_invariant:
  assumes "sub_run (NewHeadSubscriber url chain dialTimeout base mx) obs hs"
  shows "session_ok hs \<and> (\<forall>e. hs_point hs = RunReturned e \<longrightarrow> url = [] \<or> (\<exists>obs'. obs = obs' @ [CtxErr e]))"
  using assms
proof induction
  case sub_start
  then show ?case by (auto simp: Run_start_def NewHeadSubscriber_def session_ok_def)
next
  case (sub_next obs h1 ob h2)
  then show ?case using sub_step_session sub_step_returned by blast
qed

text \<open>
  C29. The backoff before the next attempt is exactly the base doubled once per wait, capped
  at the maximum. It depends on nothing else: a session that streamed heads for days does not
  reset it.
\<close>

theorem subscriber_backoff_exact:
  assumes "sub_run hs0 obs hs" "0 < hs_reconnectBase hs0" "hs_reconnectBase hs0 \<le> hs_reconnectMax hs0"
    and "hs_reconnectMax hs0 < 2 ^ 62" "backoff_of (hs_point hs) = Some b"
  shows "b = min (hs_reconnectBase hs0 * 2 ^ count_list obs TimerFired) (hs_reconnectMax hs0)"
  using assms by (rule sub_run_backoff)

definition sample_subscriber :: HeadSubscriber where
  "sample_subscriber = NewHeadSubscriber ''wss://node'' 4663 0 0 0"

definition sample_header :: Header where
  "sample_header = \<lparr>Hd_Number = 7, Hd_Hash = ''0x1'', Hd_ParentHash = ''0x0'', Hd_Time = 5\<rparr>"

text \<open>A session that streams one head and then breaks.\<close>

definition sample_session :: "observation list" where
  "sample_session = [CtxLive, Dialed (Inr ()), GotChainID (Inr 4663), Subscribed (Inr ()), HeadArrived sample_header 9,
     SubErr None, CtxLive, TimerFired]"

lemma sample_run:
  "\<exists>hs. sub_run sample_subscriber sample_session hs \<and> hs_point hs = LoopTop (next_backoff sample_subscriber second)
     \<and> hs_heads hs = [headerToRef sample_header]"
proof -
  let ?h0 = "Run_start sample_subscriber"
  have p0: "hs_point ?h0 = LoopTop second" "hs_expectedChain ?h0 = 4663" "hs_heads ?h0 = []" "hs_reconnectMax ?h0 = hs_reconnectMax sample_subscriber"
    by (simp_all add: Run_start_def sample_subscriber_def NewHeadSubscriber_def)
  let ?h1 = "?h0\<lparr>hs_point := Dialing second\<rparr>"
  let ?h2 = "?h1\<lparr>hs_point := AskingID second\<rparr>"
  let ?h3 = "?h2\<lparr>hs_point := Subscribing second (Some 4663)\<rparr>"
  let ?h4 = "setConnected True (?h3\<lparr>hs_point := Streaming second (Some 4663)\<rparr>)"
  let ?ref = "headerToRef sample_header"
  let ?h5 = "?h4\<lparr>hs_last := ?ref, hs_lastSeen := 9, hs_heads := hs_heads ?h4 @ [?ref]\<rparr>"
  let ?h6 = "?h5\<lparr>hs_point := SessionEnded second (New ''subscription closed'')\<rparr>"
  let ?h7 = "setConnected False (?h6\<lparr>hs_point := Sleeping second\<rparr>)"
  let ?h8 = "?h7\<lparr>hs_point := LoopTop (next_backoff ?h7 second)\<rparr>"
  have s1: "sub_step ?h0 CtxLive ?h1" using top_live p0(1) by (simp add: sub_step_def)
  have s2: "sub_step ?h1 (Dialed (Inr ())) ?h2" using dialed [of ?h1 second] p0 by (simp add: sub_step_def)
  have s3: "sub_step ?h2 (GotChainID (Inr 4663)) ?h3" using id_right [of ?h2 second 4663] p0 by (simp add: sub_step_def)
  have s4: "sub_step ?h3 (Subscribed (Inr ())) ?h4" using subscribed [of ?h3 second "Some 4663"] by (simp add: sub_step_def)
  have s5: "sub_step ?h4 (HeadArrived sample_header 9) ?h5"
    using stream_head [of ?h4 second "Some 4663" ?ref sample_header 9] by (simp add: sub_step_def setConnected_def)
  have s6: "sub_step ?h5 (SubErr None) ?h6"
    using stream_failed [of ?h5 second "Some 4663" None] by (simp add: sub_step_def setConnected_def)
  have s7: "sub_step ?h6 CtxLive ?h7"
    using ended_live [of ?h6 second "New ''subscription closed''"] by (simp add: sub_step_def setConnected_def)
  have s8: "sub_step ?h7 TimerFired ?h8" using sleep_over [of ?h7 second] by (simp add: sub_step_def setConnected_def)
  note r = sub_next [OF sub_next [OF sub_next [OF sub_next [OF sub_next [OF sub_next [OF sub_next [OF sub_next
    [OF sub_start s1] s2] s3] s4] s5] s6] s7] s8]
  from r have "sub_run sample_subscriber sample_session ?h8" by (simp only: sample_session_def append.simps)
  moreover have "next_backoff ?h7 second = next_backoff sample_subscriber second"
    using p0(4) by (simp add: next_backoff_def setConnected_def Let_def)
  ultimately show ?thesis using p0(3) by (intro exI [of _ ?h8]) (simp add: setConnected_def)
qed

theorem subscriber_invariant_witness:
  "\<exists>hs. sub_run sample_subscriber sample_session hs \<and> session_ok hs \<and> hs_heads hs = [headerToRef sample_header]"
proof -
  from sample_run obtain hs where hs: "sub_run sample_subscriber sample_session hs" "hs_heads hs = [headerToRef sample_header]" by blast
  from subscriber_invariant [OF hs(1) [unfolded sample_subscriber_def]] hs show ?thesis by blast
qed

theorem subscriber_backoff_exact_witness:
  "\<exists>hs. sub_run sample_subscriber sample_session hs \<and> hs_heads hs \<noteq> [] \<and> backoff_of (hs_point hs) = Some (2 * second)"
proof -
  from sample_run obtain hs b where hs: "sub_run sample_subscriber sample_session hs" "hs_heads hs = [headerToRef sample_header]"
    "backoff_of (hs_point hs) = Some b" by auto
  have cfg: "hs_reconnectBase sample_subscriber = second" "hs_reconnectMax sample_subscriber = 30 * second"
    by (simp_all add: sample_subscriber_def NewHeadSubscriber_def)
  have "count_list sample_session TimerFired = 1" by (simp add: sample_session_def)
  with subscriber_backoff_exact [OF hs(1) _ _ _ hs(3)] cfg have "b = 2 * second" by (simp add: duration_defs)
  with hs show ?thesis by auto
qed

end
