(* ===== verification/System.thy ===== *)
theory System
  imports Frames Bootstrap Subscriber
begin

text \<open>
  The three processes put together (\<open>cmd/bot\<close>, \<open>cmd/api\<close>, \<open>cmd/worker\<close>): how a loaded
  configuration wires the services, and the steps the running system takes on its one
  database. Every other piece of the world (Redis, the queue, the chain, Telegram, the
  clock) is the part of the state outside the tables, and changes between steps as it likes.
\<close>

section \<open>Wiring\<close>

text \<open>What the processes share: the loaded configuration, the clients, and the parameters of the model.\<close>

record 'z system =
  sy_U :: unicode
  sy_F :: formats
  sy_P :: primitives
  sy_J :: decoders
  sy_rfc3339 :: "time \<Rightarrow> string"
  sy_cfg :: Config
  sy_version :: string
  sy_clock :: "'z pgdb_scheme \<Rightarrow> time"
  sy_outside_clock :: "'z \<Rightarrow> time"
  sy_chain :: "'z Client"
  sy_redis :: "'z redis"
  sy_redis_ping :: "('z, unit) op"
  sy_asynq :: "'z asynq_client"
  sy_api :: "'z TelegramAPI"

definition sy_allowlist :: "'z system \<Rightarrow> Allowlist" where
  "sy_allowlist Y = NewAllowlist (toTelegramIDs (TC_AllowedUserIDs (Cfg_Telegram (sy_cfg Y))))"

definition sy_chainID :: "'z system \<Rightarrow> u64" where
  "sy_chainID Y = CC_ChainID (Cfg_Chain (sy_cfg Y))"

text \<open>The chain client as the port of the wallet service and as that of the health checker.\<close>

definition address_probe :: "unicode \<Rightarrow> 's Client \<Rightarrow> 's AddressProbe" where
  "address_probe U c = \<lparr>Probe_ChainID = Client_ChainID U c, Probe_BalanceAt = Client_BalanceAt U c\<rparr>"

definition chain_probe :: "unicode \<Rightarrow> 'z Client \<Rightarrow> 'z pgdb_scheme ChainProbe" where
  "chain_probe U c = \<lparr>Probe_chain_id = outside (Client_ChainID U c), Probe_latest_block = outside (LatestBlock U c)\<rparr>"

definition sy_onboarding :: "'z system \<Rightarrow> 'z pgdb_scheme Onboarding" where
  "sy_onboarding Y = pg_onboarding (sy_allowlist Y) (sy_clock Y)"

definition sy_wallets :: "'z system \<Rightarrow> 'z pgdb_scheme WalletService" where
  "sy_wallets Y = pg_wallet_service (sy_U Y) (Some (address_probe (sy_U Y) (sy_chain Y)))
     (Some (NewEnqueuer (sy_outside_clock Y) (sy_asynq Y))) (sy_chainID Y) (defaultPolicy (sy_cfg Y)) (sy_clock Y)"

definition Pool_Health :: "('z pgdb_scheme, unit) op" where
  "Pool_Health = query (\<lambda>s. Inr ())"

definition sy_health :: "'z system \<Rightarrow> 'z pgdb_scheme HeadWatcher option \<Rightarrow> 'z pgdb_scheme HealthChecker" where
  "sy_health Y watcher = NewHealthChecker (Some Pool_Health) (Some (outside (sy_redis_ping Y)))
     (Some (chain_probe (sy_U Y) (sy_chain Y))) watcher (sy_chainID Y)
     (CC_BlockStaleAfter (Cfg_Chain (sy_cfg Y))) (sy_version Y) None (sy_clock Y)"

definition sy_chain_sync :: "'z system \<Rightarrow> 'z pgdb_scheme ChainSync" where
  "sy_chain_sync Y = NewChainSync (chain_probe (sy_U Y) (sy_chain Y)) (SyncStateRepo (sy_U Y)) (sy_chainID Y)"

definition outside_api :: "'z TelegramAPI \<Rightarrow> 'z pgdb_scheme TelegramAPI" where
  "outside_api a = \<lparr>SendMessage = (\<lambda>c m. outside (SendMessage a c m)), SetMyCommands = (\<lambda>m. outside (SetMyCommands a m)),
     GetMe = outside (GetMe a), API_Start = (\<lambda>s. snd (outside_call (\<lambda>z. ((), API_Start a z)) s))\<rparr>"

text \<open>
  The bot, which does not start without a token: its router with the five commands
  registered. The schedule is that of a health check.
\<close>

definition sy_router :: "'z system \<Rightarrow> nat list \<Rightarrow> error + 'z pgdb_scheme Router" where
  "sy_router Y sched =
     (if \<not> Enabled (Cfg_Telegram (sy_cfg Y)) then Inl (New ''TELEGRAM_BOT_TOKEN is not set'')
      else let limiter = NewRateLimiter (sy_redis Y) ''telegram'';
          r = NewRouter (sy_onboarding Y)
            (Some (\<lambda>identity limit window. outside_call (Allow (sy_outside_clock Y) limiter identity limit window)))
            (TC_RateLimit (Cfg_Telegram (sy_cfg Y))) (TC_RateWindow (Cfg_Telegram (sy_cfg Y))) in
      Register (sy_U Y) (sy_F Y) (sy_rfc3339 Y) sched r
        \<lparr>Deps_Health = Some (sy_health Y None), Deps_Wallets = Some (sy_wallets Y), Deps_ChainID = sy_chainID Y,
         Deps_MiniAppURL = TC_MiniAppURL (Cfg_Telegram (sy_cfg Y)), Deps_Version = sy_version Y\<rparr>)"

text \<open>The API: without a bot token the Mini App is not mounted; a verifier that cannot be built ends the process.\<close>

definition api_miniapp :: "'z system \<Rightarrow> error + 'z pgdb_scheme MiniAppDeps" where
  "api_miniapp Y =
     (let tg = Cfg_Telegram (sy_cfg Y) in
      if \<not> Enabled tg then Inr \<lparr>Mini_Auth = None, Mini_Wallets = sy_wallets Y, Mini_ChainID = sy_chainID Y\<rparr>
      else case NewVerifier (sy_P Y) (sy_outside_clock Y)
          \<lparr>Opt_BotToken = TC_BotToken tg, Opt_TTL = TC_InitDataTTL tg,
           Opt_Guard = Some (NewReplayGuard (sy_redis Y) ''miniapp''), Opt_Now = None, Opt_ClockSkew = 0\<rparr> of
        Inl err \<Rightarrow> Inl err
      | Inr v \<Rightarrow> Inr \<lparr>Mini_Auth = Some (pg_miniapp (sy_U Y) (sy_P Y) v (sy_allowlist Y) (sy_clock Y)),
                      Mini_Wallets = sy_wallets Y, Mini_ChainID = sy_chainID Y\<rparr>)"

text \<open>The worker: the handler of each task type; notifications need a bot token.\<close>

datatype task =
    HealthTask bool "error + unit"
  | SyncTask bool "error + unit"
  | VerifyTask "error + string"
  | NotifyTask "error + i64 \<times> string"

definition worker_handler :: "'z system \<Rightarrow> nat list \<Rightarrow> task \<Rightarrow> ('z pgdb_scheme, unit) op option" where
  "worker_handler Y sched tk = (case tk of
       HealthTask nonempty decoded \<Rightarrow>
         Some (Server_Handle TypeSystemHealthCheck (HealthCheck (Check (sy_rfc3339 Y) sched (sy_health Y None)) nonempty) decoded)
     | SyncTask nonempty decoded \<Rightarrow>
         Some (Server_Handle TypeChainSyncHead (SyncHead (sy_chain_sync Y) nonempty) decoded)
     | VerifyTask decoded \<Rightarrow> Some (Server_Handle TypeWalletVerify (WalletVerify (sy_wallets Y)) decoded)
     | NotifyTask decoded \<Rightarrow>
         if Enabled (Cfg_Telegram (sy_cfg Y))
         then Some (Server_Handle TypeTelegramNotification
           (TelegramNotification (Some (Notifier_Send (outside_api (sy_api Y))))) decoded)
         else None)"

section \<open>The running system\<close>

text \<open>
  What can happen: a message reaches the bot, a request the API, a task the worker, a head
  the API's subscriber; the API is asked for the health of the dependencies; or the world
  outside the tables moves on.
\<close>

datatype event =
    Message "nat list" "SDK_Message option"
  | Request route http_request
  | Task "nat list" task
  | NewHead BlockRef
  | Probe "nat list"
  | World

text \<open>The goroutines of one health check, each once, in some order.\<close>

definition schedule_of :: "'s HealthChecker \<Rightarrow> nat list \<Rightarrow> bool" where
  "schedule_of h sched \<longleftrightarrow> distinct sched \<and> set sched = {..<length (component_names h)}"

inductive sys_step :: "'z system \<Rightarrow> 'z pgdb_scheme \<Rightarrow> event \<Rightarrow> 'z pgdb_scheme \<Rightarrow> bool" for Y where
  message: "sy_router Y sched = Inr r \<Longrightarrow> schedule_of (sy_health Y None) sched \<Longrightarrow>
    sys_step Y s (Message sched m)
      (handleUpdate (sy_U Y) (sy_F Y) \<lparr>bot_api = outside_api (sy_api Y), bot_router = r\<rparr> m s)"
| request: "api_miniapp Y = Inr d \<Longrightarrow> mountMiniApp (sy_U Y) (sy_J Y) (sy_rfc3339 Y) d = Some serve \<Longrightarrow>
    serve rt req s = (resp, t) \<Longrightarrow> sys_step Y s (Request rt req) t"
| task: "worker_handler Y sched tk = Some h \<Longrightarrow> schedule_of (sy_health Y None) sched \<Longrightarrow> h s = (r, t) \<Longrightarrow>
    sys_step Y s (Task sched tk) t"
| new_head: "CC_WSURL (Cfg_Chain (sy_cfg Y)) \<noteq> [] \<Longrightarrow> ChainSync_Record (sy_chain_sync Y) block s = (r, t) \<Longrightarrow> sys_step Y s (NewHead block) t"
| probe: "schedule_of (sy_health Y watcher) sched \<Longrightarrow>
    Check (sy_rfc3339 Y) sched (sy_health Y watcher) s = (report, t) \<Longrightarrow> sys_step Y s (Probe sched) t"
| world: "same_db s t \<Longrightarrow> sys_step Y s World t"

inductive sys_run :: "'z system \<Rightarrow> 'z pgdb_scheme \<Rightarrow> event list \<Rightarrow> 'z pgdb_scheme \<Rightarrow> bool" for Y where
  start: "sys_run Y s [] s"
| move: "sys_run Y s es t \<Longrightarrow> sys_step Y t ev u \<Longrightarrow> sys_run Y s (es @ [ev]) u"

inductive_cases message_stepE: "sys_step Y s (Message sched m) t"
inductive_cases request_stepE: "sys_step Y s (Request rt req) t"
inductive_cases task_stepE: "sys_step Y s (Task sched tk) t"
inductive_cases new_head_stepE: "sys_step Y s (NewHead block) t"
inductive_cases probe_stepE: "sys_step Y s (Probe sched) t"
inductive_cases world_stepE: "sys_step Y s World t"

section \<open>What a step leaves alone\<close>

text \<open>\<open>quiet s t\<close>: nothing but added audit rows and the world outside the tables differs.\<close>

definition quiet :: "'z pgdb_scheme \<Rightarrow> 'z pgdb_scheme \<Rightarrow> bool" where
  "quiet s t \<longleftrightarrow> (db_ok s \<longrightarrow> db_ok t) \<and> (\<exists>rows. audit_logs t = audit_logs s @ rows)
     \<and> same_db (s\<lparr>audit_logs := audit_logs t\<rparr>) t"

lemma quiet_refl [simp, intro]: "quiet s s"
  by (simp add: quiet_def same_db_def)

lemma quiet_trans [trans]: "quiet s t \<Longrightarrow> quiet t u \<Longrightarrow> quiet s u"
  by (auto simp: quiet_def same_db_def)

lemma quiet_same: "same_db s t \<Longrightarrow> quiet s t"
  using db_ok_sameI by (auto simp: quiet_def same_db_def)

lemma quiet_appended: "appended s t \<Longrightarrow> quiet s t"
  using appended_db_ok by (auto simp: quiet_def appended_def)

lemma quietD:
  assumes "quiet s t"
  shows "db_ok s \<Longrightarrow> db_ok t" "wallet_at t = wallet_at s" "policy_at t = policy_at s" "account_of t = account_of s"
    and "engine t = engine s" "logged s t"
proof -
  from assms have s: "same_db (s\<lparr>audit_logs := audit_logs t\<rparr>) t" and "db_ok s \<Longrightarrow> db_ok t"
    and "\<exists>rows. audit_logs t = audit_logs s @ rows" by (auto simp: quiet_def)
  then show "logged s t" using s by (simp add: logged_def same_db_def)
  show "db_ok s \<Longrightarrow> db_ok t" by fact
  show "wallet_at t = wallet_at s" "policy_at t = policy_at s" "account_of t = account_of s" "engine t = engine s"
    using s by (auto simp: same_db_def wallet_at_def policy_at_def find_wallet_def find_policy_def account_of_def
        find_tg_def user_with_def fun_eq_iff)
qed

text \<open>The calls that are quiet, in the form the bot and the worker make them.\<close>

lemma quiet_outside: "outside m s = (r, t) \<Longrightarrow> quiet s t"
  by (rule quiet_same) (rule outside_same)

lemma quiet_outside_call: "outside_call f s = (r, t) \<Longrightarrow> quiet s t"
  by (auto simp: outside_call_def same_db_def split: prod.splits intro!: quiet_same)

lemma quiet_query: "query q s = (r, t) \<Longrightarrow> quiet s t"
  by (rule quiet_same) (rule query_same)

lemma quiet_record: "quiet s (Onboarding_recordAudit (sy_onboarding Y) ev s)"
  by (rule quiet_appended)
    (auto simp: Onboarding_recordAudit_def sy_onboarding_def pg_onboarding_def NewOnboarding_def AuditRepo_def
      intro: Record_appended [OF prod.collapse [symmetric]])

lemma quiet_RecordCommand: "quiet s (RecordCommand (sy_onboarding Y) i name outcome s)"
  by (simp add: RecordCommand_def quiet_record)

lemma quiet_RecordRateLimited: "quiet s (RecordRateLimited (sy_onboarding Y) i name s)"
  by (simp add: RecordRateLimited_def quiet_record)

lemma quiet_send: "quiet s (send (Some (Bot_Send \<lparr>bot_api = outside_api a, bot_router = r\<rparr>)) chat m s)"
proof -
  have "quiet s t" if "Bot_Send \<lparr>bot_api = outside_api a, bot_router = r\<rparr> chat m s = (q, t)" for q t
    using that by (auto simp: Bot_Send_def outside_api_def elim!: attempt_cases split: if_splits intro: quiet_outside)
  then show ?thesis by (auto simp: send_def intro: prod.collapse [symmetric])
qed

lemma jobs_quiet:
  assumes "i < length (jobs F (sy_health Y watcher))" "(jobs F (sy_health Y watcher) ! i) s = (c, t)"
  shows "quiet s t"
proof -
  have "quiet s t" if "pingComponent n Pool_Health now s = (c, t)" for n now c
    using that by (auto simp: pingComponent_def Pool_Health_def Let_def split: prod.splits intro: quiet_query)
  moreover have "quiet s t" if "pingComponent n (outside m) now s = (c, t)" for n m now c
    using that by (auto simp: pingComponent_def Let_def split: prod.splits intro: quiet_outside)
  moreover have "quiet s t" if "checkChain F h (chain_probe U cl) s = (c, t)" for h U cl c
    using that by (auto simp: checkChain_def chain_probe_def Let_def split: prod.splits sum.splits if_splits
        intro: quiet_outside quiet_trans)
  moreover have "quiet s t" if "checkHead F h w s = (c, t)" for h w c
    using that by (auto simp: checkHead_def Let_def split: prod.splits if_splits)
  ultimately show ?thesis
    using assms by (auto simp: jobs_def sy_health_def NewHealthChecker_def nth_Cons' split: option.splits if_splits)
qed

lemma run_jobs_quiet:
  assumes "\<And>i s c t. i < length js \<Longrightarrow> (js ! i) s = (c, t) \<Longrightarrow> quiet s t" "set is \<subseteq> {..<length js}"
    and "run_jobs js is results s = (out, t)"
  shows "quiet s t"
  using assms(2,3)
proof (induction "is" arbitrary: results s)
  case (Cons i "is")
  obtain c s1 where c: "(js ! i) s = (c, s1)" by fastforce
  with Cons.prems have "quiet s1 t" by (intro Cons.IH) auto
  moreover have "quiet s s1" using Cons.prems(1) c by (intro assms(1)) auto
  ultimately show ?case by (blast intro: quiet_trans)
qed simp

lemma Check_quiet:
  assumes "schedule_of (sy_health Y watcher) sched" "Check F sched (sy_health Y watcher) s = (report, t)"
  shows "quiet s t"
proof -
  obtain out where "run_jobs (jobs F (sy_health Y watcher)) sched
      (replicate (length (jobs F (sy_health Y watcher))) (up [])) s = (out, t)"
    using assms(2) by (auto simp: Check_def Let_def split: prod.splits)
  then show ?thesis
    by (rule run_jobs_quiet [rotated 2]) (use assms(1) jobs_quiet in \<open>auto simp: schedule_of_def length_jobs\<close>)
qed

section \<open>What a step can change\<close>

text \<open>No account is relinked, and a new one belongs to an allowlisted ID.\<close>

definition accounts_grow :: "'z system \<Rightarrow> 'z pgdb_scheme \<Rightarrow> 'z pgdb_scheme \<Rightarrow> bool" where
  "accounts_grow Y s t \<longleftrightarrow>
     (\<forall>i u. account_of s i = Some u \<longrightarrow> account_of t i = Some u)
   \<and> (\<forall>i. account_of t i \<noteq> account_of s i \<longrightarrow> Allows (sy_allowlist Y) i)"

text \<open>An account that an allowlisted Telegram ID has.\<close>

definition admitted :: "'z system \<Rightarrow> 'z pgdb_scheme \<Rightarrow> UserID \<Rightarrow> bool" where
  "admitted Y s u \<longleftrightarrow> (\<exists>tid a. account_of s tid = Some a \<and> User_ID a = u \<and> Allows (sy_allowlist Y) tid)"

text \<open>
  What the events \<open>es\<close> can have added to the logs: rows at the end of the audit trail and,
  by a sync task or a new head only, a height of the configured chain that is no lower.
\<close>

definition syncs :: "event \<Rightarrow> bool" where
  "syncs ev \<longleftrightarrow> (case ev of Task sched (SyncTask nonempty decoded) \<Rightarrow> True | NewHead block \<Rightarrow> True | _ \<Rightarrow> False)"

fun no_lower :: "int option \<Rightarrow> int option \<Rightarrow> bool" where
  "no_lower h None \<longleftrightarrow> False"
| "no_lower None (Some n) \<longleftrightarrow> True"
| "no_lower (Some m) (Some n) \<longleftrightarrow> m \<le> n"

definition recorded :: "'z system \<Rightarrow> event list \<Rightarrow> 'z pgdb_scheme \<Rightarrow> 'z pgdb_scheme \<Rightarrow> bool" where
  "recorded Y es s t \<longleftrightarrow> (\<exists>rows. audit_logs t = audit_logs s @ rows)
     \<and> (\<forall>c. height t c = height s c \<or> c = sy_chainID Y \<and> list_ex syncs es \<and> no_lower (height s c) (height t c))"

lemma no_lower_trans: "no_lower a b \<Longrightarrow> no_lower b c \<Longrightarrow> no_lower a c"
  by (cases a; cases b; cases c) auto

lemma no_lower_raised: "no_lower a (raised a n)"
  by (cases a) (simp_all add: raised_def)

lemma recorded_refl: "recorded Y [] s s"
  by (simp add: recorded_def)

lemma recorded_trans: "recorded Y es s t \<Longrightarrow> recorded Y fs t u \<Longrightarrow> recorded Y (es @ fs) s u"
  unfolding recorded_def by (auto 0 3) (metis no_lower_trans)+

lemma recorded_logged: "logged s t \<Longrightarrow> recorded Y es s t"
  by (auto simp: logged_def recorded_def height_def find_head_def)

lemma logged_recorded: "logged s t \<Longrightarrow> recorded Y es t u \<Longrightarrow> recorded Y es s u"
  using recorded_trans [OF recorded_logged [of s t Y "[]"], of es u] by simp

text \<open>
  The causes a change of wallet \<open>i\<close> can have: its linking by an admitted account, its
  verification by the worker, or a new policy from its admitted owner.
\<close>

definition untouched :: "'z pgdb_scheme \<Rightarrow> 'z pgdb_scheme \<Rightarrow> string \<Rightarrow> bool" where
  "untouched s t i \<longleftrightarrow> wallet_at t i = wallet_at s i \<and> policy_at t i = policy_at s i"

definition newly_linked :: "'z system \<Rightarrow> 'z pgdb_scheme \<Rightarrow> 'z pgdb_scheme \<Rightarrow> string \<Rightarrow> bool" where
  "newly_linked Y s t i \<longleftrightarrow> wallet_at s i = None
     \<and> (\<exists>w q. wallet_at t i = Some w \<and> Wallet_Status w = WalletPending \<and> admitted Y t (Wallet_UserID w)
          \<and> policy_at t i = Some q \<and> \<not> Pol_TradingEnabled q)"

definition newly_verified :: "'z pgdb_scheme \<Rightarrow> 'z pgdb_scheme \<Rightarrow> string \<Rightarrow> bool" where
  "newly_verified s t i \<longleftrightarrow> policy_at t i = policy_at s i
     \<and> (\<exists>w w'. wallet_at s i = Some w \<and> Wallet_Status w = WalletPending
          \<and> wallet_at t i = Some w' \<and> same_wallet w w' \<and> Wallet_Status w' = WalletActive)"

definition new_policy :: "'z system \<Rightarrow> 'z pgdb_scheme \<Rightarrow> 'z pgdb_scheme \<Rightarrow> string \<Rightarrow> bool" where
  "new_policy Y s t i \<longleftrightarrow>
     (\<exists>w. wallet_at s i = Some w \<and> wallet_at t i = Some w \<and> admitted Y t (Wallet_UserID w))"

definition caused :: "'z system \<Rightarrow> event \<Rightarrow> 'z pgdb_scheme \<Rightarrow> 'z pgdb_scheme \<Rightarrow> string \<Rightarrow> bool" where
  "caused Y ev s t i \<longleftrightarrow> untouched s t i \<or>
     (case ev of
        Message sched m \<Rightarrow> newly_linked Y s t i
      | Request rt req \<Rightarrow> rt = PostWallets \<and> newly_linked Y s t i \<or> (\<exists>j. rt = PutPolicy j) \<and> new_policy Y s t i
      | Task sched tk \<Rightarrow> (\<exists>decoded. tk = VerifyTask decoded) \<and> newly_verified s t i
      | _ \<Rightarrow> False)"

lemma untouched_quiet: "quiet s t \<Longrightarrow> untouched s t i"
  by (simp add: untouched_def quietD)

lemma accounts_grow_refl: "account_of t = account_of s \<Longrightarrow> accounts_grow Y s t"
  by (simp add: accounts_grow_def)

lemma admitted_grow: "accounts_grow Y s t \<Longrightarrow> admitted Y s u \<Longrightarrow> admitted Y t u"
  by (auto simp: accounts_grow_def admitted_def)

lemma account_identities: "identities t = identities s \<Longrightarrow> account_of t = account_of s"
  by (auto simp: identities_def account_of_def find_tg_def user_with_def fun_eq_iff)

lemma keeps_accounts: "(\<And>X. keeps (identities_are X) m) \<Longrightarrow> m s = (r, t) \<Longrightarrow> account_of t = account_of s"
  using keepsD [of "identities_are (identities s)" m s r t] by (auto simp: identities_are_def intro: account_identities)

lemma Authorize_step:
  assumes "db_ok s" "Authorize (sy_onboarding Y) tu s = (r, t)"
  shows "db_ok t" "wallet_at t = wallet_at s" "policy_at t = policy_at s" "accounts_grow Y s t"
    and "r = Inr idn \<Longrightarrow> admitted Y t (User_ID (Id_User idn))" "logged s t"
proof -
  note run = assms(2) [unfolded sy_onboarding_def]
  show "db_ok t" "wallet_at t = wallet_at s" "policy_at t = policy_at s"
    using keepsD [OF keeps_wallets_Authorize [of "wallet_at s" "policy_at s"] _ run] assms(1) by (auto simp: wallets_are_def)
  show "logged s t" by (rule keeps_logged [OF pgl.Authorize_keeps run])
  show "accounts_grow Y s t" using pgo.Authorize_accounts [OF assms(1) run] by (auto simp: accounts_grow_def)
  show "r = Inr idn \<Longrightarrow> admitted Y t (User_ID (Id_User idn))"
    using pgo.Authorize_success [OF assms(1)] run by (fastforce simp: admitted_def)
qed

lemma Link_step:
  assumes "db_ok s" "admitted Y s (Req_UserID req)" "WalletService_Link (sy_U Y) (sy_wallets Y) req s = (r, t)"
  shows "db_ok t" "account_of t = account_of s" "untouched s t i \<or> newly_linked Y s t i" "logged s t"
proof -
  note run = assms(3) [unfolded sy_wallets_def]
  have "pg_uuid_in (engine s) (Req_UserID req) = Some (Req_UserID req)"
    using assms(2) account_canonical [OF assms(1)] unfolding admitted_def by metis
  note own = Link_own [OF assms(1) this refl run]
  show "db_ok t" using own by blast
  show "logged s t" by (rule keeps_logged [OF pgl.svc.Link_keeps run])
  show acc: "account_of t = account_of s" by (rule keeps_accounts [OF pgi.svc.Link_keeps run])
  show "untouched s t i \<or> newly_linked Y s t i"
    using own [of i] assms(2) acc by (auto simp: untouched_def newly_linked_def own_change_def admitted_def)
qed

lemma List_step:
  assumes "db_ok s" "WalletService_List (sy_wallets Y) u s = (r, t)"
  shows "db_ok t" "account_of t = account_of s" "untouched s t i" "logged s t"
  using pgs.List_effect(1) [OF assms(1) assms(2) [unfolded sy_wallets_def]]
    keeps_accounts [OF pgi.svc.List_keeps assms(2) [unfolded sy_wallets_def]]
    keeps_logged [OF pgl.svc.List_keeps assms(2) [unfolded sy_wallets_def]] by (auto simp: untouched_def)

text \<open>\<open>settles Y s t\<close>: what a command can have done, up to quiet calls.\<close>

definition settles :: "'z system \<Rightarrow> 'z pgdb_scheme \<Rightarrow> 'z pgdb_scheme \<Rightarrow> bool" where
  "settles Y s t \<longleftrightarrow> (db_ok s \<longrightarrow> db_ok t) \<and> account_of t = account_of s \<and> logged s t
     \<and> (\<forall>i. untouched s t i \<or> newly_linked Y s t i)"

lemma settles_quiet: "quiet s t \<Longrightarrow> settles Y s t"
  by (simp add: settles_def untouched_def quietD)

lemma settles_then_quiet: "settles Y s t \<Longrightarrow> quiet t u \<Longrightarrow> settles Y s u"
  by (auto simp: settles_def untouched_def newly_linked_def admitted_def quietD dest: quietD(6) intro: logged_trans)

lemma quiet_then_settles: "quiet s t \<Longrightarrow> settles Y t u \<Longrightarrow> settles Y s u"
  by (auto simp: settles_def untouched_def newly_linked_def quietD dest: quietD(6) intro: logged_trans)

definition sy_deps :: "'z system \<Rightarrow> 'z pgdb_scheme CommandDeps" where
  "sy_deps Y = \<lparr>Deps_Health = Some (sy_health Y None), Deps_Wallets = Some (sy_wallets Y), Deps_ChainID = sy_chainID Y,
     Deps_MiniAppURL = TC_MiniAppURL (Cfg_Telegram (sy_cfg Y)), Deps_Version = sy_version Y\<rparr>"

lemma handler_settles:
  assumes "cmd \<in> set (command_set (sy_U Y) F rfc3339 sched (sy_deps Y) m)" "schedule_of (sy_health Y None) sched"
    and "db_ok s" "admitted Y s (User_ID (Id_User (Req_Identity req)))" "Cmd_Handler cmd req s = (r, t)"
  shows "settles Y s t"
proof -
  have "settles Y s t" if "handleStart (sy_deps Y) req s = (r, t)"
    using that settles_quiet by (auto simp: handleStart_def Let_def)
  moreover have "settles Y s t" if "handleHelp (sy_U Y) m req s = (r, t)"
    using that settles_quiet by (auto simp: handleHelp_def)
  moreover have "settles Y s t" if "handleHealth (sy_U Y) rfc3339 sched (sy_deps Y) req s = (r, t)"
    using that by (auto simp: handleHealth_def sy_deps_def split: prod.splits
        intro!: settles_quiet dest!: Check_quiet [OF assms(2)])
  moreover have "settles Y s t" if "handleStatus F (sy_deps Y) req s = (r, t)"
    using that List_step [OF assms(3)]
    by (fastforce simp: handleStatus_def sy_deps_def Let_def settles_def elim!: attempt_cases split: if_splits)
  moreover have "settles Y s t" if "handleConnect (sy_U Y) (sy_deps Y) req s = (r, t)"
  proof -
    have "t = s \<or> (\<exists>lreq q. Req_UserID lreq = User_ID (Id_User (Req_Identity req))
        \<and> WalletService_Link (sy_U Y) (sy_wallets Y) lreq s = (q, t))"
      using that by (auto simp: handleConnect_def sy_deps_def Let_def elim!: attempt_cases split: if_splits)
    then show ?thesis
    proof (elim disjE exE conjE)
      fix lreq q
      assume "Req_UserID lreq = User_ID (Id_User (Req_Identity req))"
        and run: "WalletService_Link (sy_U Y) (sy_wallets Y) lreq s = (q, t)"
      with Link_step [OF assms(3) _ run] assms(4) show ?thesis by (simp add: settles_def)
    qed (simp add: settles_quiet)
  qed
  ultimately show ?thesis using assms(1,5) by (auto simp: command_set_def command_def)
qed

lemma sy_router_Inr:
  assumes "sy_router Y sched = Inr r"
  obtains m where "rt_onboarding r = sy_onboarding Y"
    "rt_commands r = map (\<lambda>c. (Cmd_Name c, c)) (command_set (sy_U Y) (sy_F Y) (sy_rfc3339 Y) sched (sy_deps Y) m)"
    "\<And>u s b t. throttle r u s = (b, t) \<Longrightarrow> quiet s t"
proof -
  let ?lim = "\<lambda>identity limit window. outside_call
    (Allow (sy_outside_clock Y) (NewRateLimiter (sy_redis Y) ''telegram'') identity limit window)"
  let ?r = "NewRouter (sy_onboarding Y) (Some ?lim) (TC_RateLimit (Cfg_Telegram (sy_cfg Y))) (TC_RateWindow (Cfg_Telegram (sy_cfg Y)))"
  have reg: "Register (sy_U Y) (sy_F Y) (sy_rfc3339 Y) sched ?r (sy_deps Y) = Inr r"
    using assms by (simp add: sy_router_def sy_deps_def Let_def split: if_splits)
  have "rt_commands ?r = []" by (simp add: NewRouter_def)
  from this reg obtain m where r: "r = ?r\<lparr>rt_commands := map (\<lambda>c. (Cmd_Name c, c))
      (command_set (sy_U Y) (sy_F Y) (sy_rfc3339 Y) sched (sy_deps Y) m)\<rparr>" by (rule Register_fresh)
  show ?thesis
  proof (rule that [of m])
    show "quiet s t" if "throttle r u s = (b, t)" for u s b t
      using that by (auto simp: throttle_def r NewRouter_def split: prod.splits intro: quiet_outside_call)
  qed (simp_all add: r NewRouter_def)
qed

lemma quiet_reply:
  "quiet s (send (Some (Bot_Send \<lparr>bot_api = outside_api a, bot_router = r\<rparr>)) c msg_text (RecordCommand (sy_onboarding Y) k name outcome s))"
  "quiet s (send (Some (Bot_Send \<lparr>bot_api = outside_api a, bot_router = r\<rparr>)) c msg_text (RecordRateLimited (sy_onboarding Y) k name s))"
  by (rule quiet_trans [OF quiet_RecordCommand quiet_send] quiet_trans [OF quiet_RecordRateLimited quiet_send])+

lemma run_command_settles:
  assumes "sy_router Y sched = Inr r" "schedule_of (sy_health Y None) sched"
    and "db_ok s" "admitted Y s (User_ID (Id_User idn))"
  shows "settles Y s (run_command r u (Some (Bot_Send \<lparr>bot_api = outside_api a, bot_router = r\<rparr>)) name args idn s)"
  using assms(1)
proof (rule sy_router_Inr)
  fix m
  assume ob: "rt_onboarding r = sy_onboarding Y"
    and cmds: "rt_commands r = map (\<lambda>c. (Cmd_Name c, c)) (command_set (sy_U Y) (sy_F Y) (sy_rfc3339 Y) sched (sy_deps Y) m)"
  show ?thesis
  proof (cases "map_of (rt_commands r) name")
    case None
    then show ?thesis by (auto simp: run_command_def ob intro!: settles_quiet quiet_reply)
  next
    case (Some cmd)
    then have cmd: "cmd \<in> set (command_set (sy_U Y) (sy_F Y) (sy_rfc3339 Y) sched (sy_deps Y) m)"
      by (auto simp: cmds dest!: map_of_SomeD)
    obtain q t where q: "Cmd_Handler cmd \<lparr>Req_Identity = idn, Req_ChatID = Up_ChatID u, Req_Args = args, Req_Raw = Up_Text u\<rparr> s
        = (q, t)" by fastforce
    have "settles Y s t" by (rule handler_settles [OF cmd assms(2,3) _ q]) (use assms(4) in simp)
    with Some q show ?thesis
      by (cases q) (auto simp: run_command_def ob intro!: settles_then_quiet [of Y s t] quiet_reply)
  qed
qed

lemma Dispatch_settles:
  assumes "sy_router Y sched = Inr r" "schedule_of (sy_health Y None) sched" "db_ok s"
    and t: "t = Dispatch (sy_U Y) (sy_F Y) r u (Some (Bot_Send \<lparr>bot_api = outside_api a, bot_router = r\<rparr>)) s"
  shows "t = s \<or> (\<exists>q s1. Authorize (sy_onboarding Y) (update_user u) s = (q, s1) \<and> settles Y s1 t)"
  using assms(1)
proof (rule sy_router_Inr)
  assume ob: "rt_onboarding r = sy_onboarding Y" and limiter: "\<And>u s b t. throttle r u s = (b, t) \<Longrightarrow> quiet s t"
  let ?reply = "Some (Bot_Send \<lparr>bot_api = outside_api a, bot_router = r\<rparr>)"
  obtain name args where name: "parseCommand (sy_U Y) (Up_Text u) = (name, args)" by fastforce
  obtain q s1 where q: "Authorize (sy_onboarding Y) (update_user u) s = (q, s1)" by fastforce
  note auth = Authorize_step [OF assms(3) q]
  obtain b s2 where b: "throttle r u s1 = (b, s2)" by fastforce
  note s2 = limiter [OF b]
  have "t = s \<or> settles Y s1 t"
  proof (cases q)
    case Inl
    then show ?thesis by (auto simp: t Dispatch_def name ob q intro: settles_quiet quiet_send)
  next
    case (Inr idn)
    with auth(1,5) quietD [OF s2] have "db_ok s2" "admitted Y s2 (User_ID (Id_User idn))" by (simp_all add: admitted_def)
    then have "settles Y s1 (run_command r u ?reply name args idn s2)"
      by (intro quiet_then_settles [OF s2] run_command_settles [OF assms(1,2)])
    moreover have "settles Y s1 (send ?reply c msg_text (RecordRateLimited (sy_onboarding Y) k name s2))" for c msg_text k
      by (intro settles_quiet quiet_trans [OF s2] quiet_reply)
    ultimately show ?thesis
      using Inr by (cases "name = [] \<or> Up_IsBot u"; cases b) (auto simp: t Dispatch_def name ob q b simp del: append_Cons)
  qed
  with q show ?thesis by blast
qed

lemma message_step:
  assumes "db_ok s" "sys_step Y s (Message sched msg) t"
  shows "db_ok t \<and> accounts_grow Y s t \<and> recorded Y [Message sched msg] s t \<and> caused Y (Message sched msg) s t i"
proof -
  from assms(2) obtain r where r: "sy_router Y sched = Inr r" and sched: "schedule_of (sy_health Y None) sched"
    and t: "t = handleUpdate (sy_U Y) (sy_F Y) \<lparr>bot_api = outside_api (sy_api Y), bot_router = r\<rparr> msg s"
    by (rule message_stepE)
  have "t = s \<or> (\<exists>u. t = Dispatch (sy_U Y) (sy_F Y) r u (Some (Bot_Send \<lparr>bot_api = outside_api (sy_api Y), bot_router = r\<rparr>)) s)"
    by (auto simp: t handleUpdate_def split: option.splits)
  then consider "t = s" | u q s1 where "Authorize (sy_onboarding Y) (update_user u) s = (q, s1)" "settles Y s1 t"
    using Dispatch_settles [OF r sched assms(1)] by blast
  then have "db_ok t \<and> accounts_grow Y s t \<and> logged s t \<and> (untouched s t i \<or> newly_linked Y s t i)"
  proof cases
    case 1
    with assms(1) show ?thesis by (simp add: accounts_grow_def untouched_def)
  next
    case (2 u q s1)
    with Authorize_step [OF assms(1) 2(1)] show ?thesis
      by (auto simp: settles_def untouched_def newly_linked_def accounts_grow_def intro: logged_trans)
  qed
  then show ?thesis by (simp add: caused_def recorded_logged)
qed

lemma accounts_grow_trans: "accounts_grow Y s t \<Longrightarrow> accounts_grow Y t u \<Longrightarrow> accounts_grow Y s u"
  unfolding accounts_grow_def by metis

lemma grow_quiet: "db_ok t \<and> accounts_grow Y s t \<Longrightarrow> quiet t u \<Longrightarrow> db_ok u \<and> accounts_grow Y s u"
  by (simp add: quietD accounts_grow_def)

lemma Authenticate_grows:
  assumes "db_ok s" "Authenticate (pg_miniapp U P v (sy_allowlist Y) (sy_clock Y)) raw s = (r, t)"
  shows "accounts_grow Y s t"
proof -
  let ?m = "pg_miniapp U P v (sy_allowlist Y) (sy_clock Y)" and ?P = "\<lambda>t. db_ok t \<and> accounts_grow Y s t"
  have "keeps ?P (Authenticate ?m raw)"
  proof (rule keeps_Authenticate)
    fix verify tu ev
    show "keeps ?P (verify raw)" if "ma_verifier ?m = Some verify"
    proof -
      have "verify raw = outside (Verify U P v raw)" using that by (auto simp: pg_miniapp_def NewMiniAppAuth_def)
      then show ?thesis by (metis (no_types, lifting) keepsI grow_quiet quiet_outside)
    qed
    show "keeps ?P (Authorize (ma_onboarding ?m) tu)"
    proof (rule keepsI)
      fix s1 q s2
      assume s1: "?P s1" and run: "Authorize (ma_onboarding ?m) tu s1 = (q, s2)"
      have "Authorize (sy_onboarding Y) tu s1 = (q, s2)"
        using run by (simp add: pg_miniapp_def NewMiniAppAuth_def sy_onboarding_def)
      with s1 Authorize_step(1,4) [of s1 Y tu q s2] show "?P s2" by (blast intro: accounts_grow_trans)
    qed
    show "keeps_fun ?P (MiniAppAuth_recordAudit ?m ev)"
      unfolding keeps_fun_def using grow_quiet [OF _ quiet_appended [OF pg_miniapp_audit]] by blast
  qed
  from keepsD [OF this _ assms(2)] assms(1) show ?thesis by (simp add: accounts_grow_def)
qed

lemma Authenticate_admitted:
  assumes "db_ok s" "Authenticate (pg_miniapp U P v (sy_allowlist Y) (sy_clock Y)) raw s = (Inr idn, t)"
  shows "admitted Y t (User_ID (Id_User idn))"
  using assms(2)
proof (rule Authenticate_Inr)
  fix d s1 s2 z
  assume 1: "same_db s s1" "Authorize (pg_onboarding (sy_allowlist Y) (sy_clock Y)) (telegram_user_of d) s1 = (Inr idn, s2)"
    "appended s2 t"
  have "db_ok s1" using 1(1) assms(1) by (rule db_ok_sameI)
  from Authorize_step(5) [OF this 1(2) [folded sy_onboarding_def] refl] quietD(4) [OF quiet_appended [OF 1(3)]]
  show ?thesis by (simp add: admitted_def)
qed

lemma api_miniapp_mounted:
  assumes "api_miniapp Y = Inr d" "mountMiniApp U J rfc3339 d = Some serve"
  obtains v where "d = pg_deps (sy_U Y) (sy_P Y) v (sy_allowlist Y) (Some (address_probe (sy_U Y) (sy_chain Y)))
      (Some (NewEnqueuer (sy_outside_clock Y) (sy_asynq Y))) (sy_chainID Y) (defaultPolicy (sy_cfg Y)) (sy_clock Y)"
    "serve = (\<lambda>rt req. requireInitData (pg_miniapp (sy_U Y) (sy_P Y) v (sy_allowlist Y) (sy_clock Y)) req
        (miniapp_handler U J rfc3339 d rt req))"
  using assms by (auto simp: api_miniapp_def mountMiniApp_def pg_deps_def sy_wallets_def Let_def fun_eq_iff
      split: if_splits sum.splits)

text \<open>A handler of the Mini App runs at most one use case of the wallet service.\<close>

lemma handler_use_case:
  assumes "miniapp_handler U J rfc3339 d rt req idn s = (resp, t)"
  obtains "t = s" | u r where "WalletService_List (Mini_Wallets d) u s = (r, t)"
    | u i r where "WalletService_Get (Mini_Wallets d) u i s = (r, t)"
    | V lreq r where "WalletService_Link V (Mini_Wallets d) lreq s = (r, t)"
    | u i p a r where "WalletService_UpdatePolicy (Mini_Wallets d) u i p a s = (r, t)"
  using assms by (cases rt) (auto simp: miniapp_handler_def post_auth_def get_wallets_def post_wallets_def get_wallet_def
      put_policy_def Let_def split: sum.splits prod.splits if_splits)

lemma handler_frames:
  assumes "miniapp_handler U J rfc3339 (pg_deps V P v al ch qu chainID defaults clock) rt req idn s = (resp, t)"
  shows "account_of t = account_of s" "logged s t"
proof -
  note use_cases = handler_use_case [OF assms, unfolded pg_deps_def MiniAppDeps.simps]
  from use_cases show "account_of t = account_of s"
    by cases (simp, (erule keeps_accounts [rotated], rule pgi.svc.List_keeps pgi.svc.Get_keeps pgi.svc.Link_keeps
        pgi.svc.UpdatePolicy_keeps)+)
  from use_cases show "logged s t"
    by cases (simp, (erule keeps_logged [rotated], rule pgl.svc.List_keeps pgl.svc.Get_keeps pgl.svc.Link_keeps
        pgl.svc.UpdatePolicy_keeps)+)
qed

lemma request_step:
  assumes "db_ok s" "sys_step Y s (Request rt req) t"
  shows "db_ok t \<and> accounts_grow Y s t \<and> recorded Y [Request rt req] s t \<and> caused Y (Request rt req) s t i"
  using assms(2)
proof (rule request_stepE)
  fix d serve resp
  assume d: "api_miniapp Y = Inr d" "mountMiniApp (sy_U Y) (sy_J Y) (sy_rfc3339 Y) d = Some serve" "serve rt req s = (resp, t)"
  from d(1,2) obtain v where dd: "d = pg_deps (sy_U Y) (sy_P Y) v (sy_allowlist Y) (Some (address_probe (sy_U Y) (sy_chain Y)))
      (Some (NewEnqueuer (sy_outside_clock Y) (sy_asynq Y))) (sy_chainID Y) (defaultPolicy (sy_cfg Y)) (sy_clock Y)"
    and serve: "serve = (\<lambda>rt req. requireInitData (pg_miniapp (sy_U Y) (sy_P Y) v (sy_allowlist Y) (sy_clock Y)) req
        (miniapp_handler (sy_U Y) (sy_J Y) (sy_rfc3339 Y) d rt req))"
    by (rule api_miniapp_mounted)
  from d(3) [unfolded serve] show ?thesis
  proof (cases rule: requireInitData_cases)
    case missing
    with assms(1) show ?thesis by (simp add: accounts_grow_def caused_def untouched_def recorded_logged)
  next
    case (refused raw err)
    with Authenticate_wallets [OF assms(1) refused(1)] Authenticate_grows [OF assms(1) refused(1)]
      keeps_logged [OF pgl.Authenticate_keeps refused(1)]
    show ?thesis by (simp add: caused_def untouched_def recorded_logged)
  next
    case (served raw idn s1)
    note auth = Authenticate_wallets [OF assms(1) served(1)] and grow = Authenticate_grows [OF assms(1) served(1)]
    note own = miniapp_handler_own [OF auth(1) Authenticate_account [OF assms(1) served(1)] served(2) [unfolded dd]]
    note acc = handler_frames(1) [OF served(2) [unfolded dd]]
      and log = logged_trans [OF keeps_logged [OF pgl.Authenticate_keeps served(1)] handler_frames(2) [OF served(2) [unfolded dd]]]
    have adm: "admitted Y t (User_ID (Id_User idn))"
      using Authenticate_admitted [OF assms(1) served(1)] acc by (simp add: admitted_def)
    have "caused Y (Request rt req) s t i"
    proof (cases "untouched s t i")
      case False
      with own auth(2,3) have "own_change (User_ID (Id_User idn)) s1 t i"
        and rt: "if wallet_at s1 i = None then rt = PostWallets else \<exists>j. rt = PutPolicy j"
        by (auto simp: untouched_def)
      with auth(2) adm show ?thesis
        by (cases "wallet_at s i") (auto simp: caused_def own_change_def newly_linked_def new_policy_def)
    qed (simp add: caused_def)
    with own grow acc log show ?thesis by (simp add: accounts_grow_def recorded_logged)
  qed
qed

lemma verify_step:
  assumes "db_ok s" "Server_Handle TypeWalletVerify (WalletVerify (sy_wallets Y)) decoded s = (r, t)"
  shows "db_ok t \<and> accounts_grow Y s t \<and> logged s t \<and> (untouched s t i \<or> newly_verified s t i)"
proof -
  from assms(2) have "t = s \<or> (\<exists>j q. WalletService_Verify (sy_wallets Y) j s = (q, t))"
    by (cases decoded) (auto simp: Server_Handle_def WalletVerify_def elim!: attempt_cases split: if_splits)
  then show ?thesis
  proof (elim disjE exE)
    fix j q
    assume run: "WalletService_Verify (sy_wallets Y) j s = (q, t)"
    note run = run [unfolded sy_wallets_def]
    note eff = pgs.Verify_effect(1,2) [OF assms(1) run]
    have "untouched s t i \<or> newly_verified s t i"
    proof (cases "wallet_at s i")
      case None
      with eff(1) show ?thesis by (simp add: untouched_def)
    next
      case (Some w)
      from eff(2) [OF Some] eff(1) Some show ?thesis by (auto simp: untouched_def newly_verified_def)
    qed
    with eff(1) keeps_accounts [OF pgi.svc.Verify_keeps run] keeps_logged [OF pgl.svc.Verify_keeps run]
    show ?thesis by (simp add: accounts_grow_def)
  qed (use assms(1) in \<open>simp add: accounts_grow_def untouched_def\<close>)
qed

lemma SaveHead_recorded:
  assumes "db_ok s" "SyncStateRepo_SaveHead U (sy_chainID Y) n b s = (r, t)" "syncs ev"
  shows "recorded Y [ev] s t"
proof -
  have "audit_logs t = audit_logs s" using assms(2) by (cases rule: SaveHead_cases) (auto simp: same_db_def)
  moreover have "height t c = height s c \<or> c = sy_chainID Y \<and> no_lower (height s c) (height t c)" for c
    using SaveHead_height [OF assms(1,2)] by (cases "c = sy_chainID Y") (auto simp: no_lower_raised)
  ultimately show ?thesis using assms(3) by (simp add: recorded_def)
qed

lemma Record_tables:
  assumes "db_ok s" "ChainSync_Record (sy_chain_sync Y) block s = (r, t)" "syncs ev"
  shows "db_ok t \<and> account_of t = account_of s \<and> recorded Y [ev] s t \<and> untouched s t i"
proof -
  from assms(2) obtain q where run: "SyncStateRepo_SaveHead (sy_U Y) (sy_chainID Y) (ChainName (sy_chainID Y)) block s = (q, t)"
    by (auto simp: ChainSync_Record_def sy_chain_sync_def NewChainSync_def SyncStateRepo_def elim!: attempt_cases)
  then have "identities t = identities s \<and> wallets t = wallets s \<and> wallet_policies t = wallet_policies s \<and> engine t = engine s"
    by (cases rule: SaveHead_cases) (auto simp: same_db_def identities_def)
  with keepsD [OF keeps_SaveHead assms(1) run] account_identities [of t s] SaveHead_recorded [OF assms(1) run assms(3)] show ?thesis
    by (auto simp: untouched_def wallet_at_def policy_at_def find_wallet_def find_policy_def)
qed

lemma quiet_step: "db_ok s \<Longrightarrow> quiet s t \<Longrightarrow> db_ok t \<and> accounts_grow Y s t \<and> logged s t \<and> untouched s t i"
  by (simp add: quietD accounts_grow_def untouched_def)

lemma RecordLatest_tables:
  assumes "db_ok s" "RecordLatest (sy_chain_sync Y) s = (r, t)" "syncs ev"
  shows "db_ok t \<and> account_of t = account_of s \<and> recorded Y [ev] s t \<and> untouched s t i"
proof -
  have "cs_chain (sy_chain_sync Y) = chain_probe (sy_U Y) (sy_chain Y)" by (simp add: sy_chain_sync_def NewChainSync_def)
  with assms(2) obtain q s1 where probe: "outside (LatestBlock (sy_U Y) (sy_chain Y)) s = (q, s1)"
    and rest: "t = s1 \<or> (\<exists>b p. ChainSync_Record (sy_chain_sync Y) b s1 = (p, t))"
    by (force simp: RecordLatest_def chain_probe_def elim!: attempt_cases)
  from quietD [OF quiet_outside [OF probe]] assms(1) have s1: "db_ok s1" "account_of s1 = account_of s" "untouched s s1 i" "logged s s1"
    by (simp_all add: untouched_def)
  from rest show ?thesis
  proof (elim disjE exE)
    fix b p
    assume "ChainSync_Record (sy_chain_sync Y) b s1 = (p, t)"
    from Record_tables [OF s1(1) this assms(3), of i] s1 logged_recorded [OF s1(4)] show ?thesis by (simp add: untouched_def)
  qed (use s1 recorded_logged in simp)
qed

lemma task_step:
  assumes "db_ok s" "sys_step Y s (Task sched tk) t"
  shows "db_ok t \<and> accounts_grow Y s t \<and> recorded Y [Task sched tk] s t \<and> caused Y (Task sched tk) s t i"
  using assms(2)
proof (rule task_stepE)
  fix h r
  assume h: "worker_handler Y sched tk = Some h" and sched: "schedule_of (sy_health Y None) sched" and run: "h s = (r, t)"
  show ?thesis
  proof (cases tk)
    case (HealthTask nonempty decoded)
    with h run have "quiet s t"
      by (auto simp: worker_handler_def Server_Handle_def HealthCheck_def elim!: attempt_cases
          split: sum.splits prod.splits if_splits dest: Check_quiet [OF sched])
    from quiet_step [OF assms(1) this] show ?thesis by (simp add: caused_def recorded_logged)
  next
    case (SyncTask nonempty decoded)
    with h run have "t = s \<or> (\<exists>q. RecordLatest (sy_chain_sync Y) s = (q, t))"
      by (auto simp: worker_handler_def Server_Handle_def SyncHead_def elim!: attempt_cases split: sum.splits if_splits)
    then show ?thesis
      using assms(1) RecordLatest_tables [OF assms(1), where ev = "Task sched tk"]
      by (auto simp: caused_def untouched_def accounts_grow_def syncs_def SyncTask recorded_logged)
  next
    case (VerifyTask decoded)
    with h run have "Server_Handle TypeWalletVerify (WalletVerify (sy_wallets Y)) decoded s = (r, t)"
      by (simp add: worker_handler_def)
    from verify_step [OF assms(1) this] show ?thesis by (simp add: caused_def VerifyTask recorded_logged)
  next
    case (NotifyTask decoded)
    have "quiet s t" if "Notifier_Send (outside_api (sy_api Y)) c m s = (q, t)" for c m q
      using that by (auto simp: Notifier_Send_def outside_api_def elim!: attempt_cases split: if_splits intro: quiet_outside)
    with h run NotifyTask have "quiet s t"
      by (auto simp: worker_handler_def Server_Handle_def TelegramNotification_def elim!: attempt_cases
          split: sum.splits if_splits)
    from quiet_step [OF assms(1) this] show ?thesis by (simp add: caused_def recorded_logged)
  qed
qed

text \<open>
  Every step keeps the database's invariant, adds only admitted accounts, only extends the
  audit trail and the recorded heads, and has one of the causes.
\<close>

lemma step_effect:
  assumes "db_ok s" "sys_step Y s ev t"
  shows "db_ok t \<and> accounts_grow Y s t \<and> recorded Y [ev] s t \<and> caused Y ev s t i"
proof (cases ev)
  case (Message sched m)
  from message_step [OF assms [unfolded Message]] show ?thesis by (simp add: Message)
next
  case (Request rt req)
  from request_step [OF assms [unfolded Request]] show ?thesis by (simp add: Request)
next
  case (Task sched tk)
  from task_step [OF assms [unfolded Task]] show ?thesis by (simp add: Task)
next
  case (NewHead block)
  then have "syncs ev" by (simp add: syncs_def)
  from NewHead assms(2) obtain r where "ChainSync_Record (sy_chain_sync Y) block s = (r, t)" by (blast elim: new_head_stepE)
  from Record_tables [OF assms(1) this \<open>syncs ev\<close>] show ?thesis by (simp add: caused_def accounts_grow_def)
next
  case (Probe sched)
  with assms(2) have "quiet s t" by (blast elim: probe_stepE intro: Check_quiet)
  from quiet_step [OF assms(1) this] show ?thesis by (simp add: caused_def recorded_logged)
next
  case World
  with assms(2) have "quiet s t" by (blast elim: world_stepE intro: quiet_same)
  from quiet_step [OF assms(1) this] show ?thesis by (simp add: caused_def recorded_logged)
qed

end
