(* ===== verification/Runs.thy ===== *)
theory Runs
  imports System
begin

text \<open>
  What holds after any sequence of events, in any interleaving of the three processes and
  whatever fails on the way: the invariants of the running system and the history a wallet
  can have. Everything rests on the effect of one step (\<open>step_effect\<close>) and on rule
  induction over \<open>sys_run\<close>.
\<close>

section \<open>The events that matter to a wallet\<close>

definition links :: "event \<Rightarrow> bool" where
  "links ev \<longleftrightarrow> (case ev of Message sched m \<Rightarrow> True | Request rt req \<Rightarrow> rt = PostWallets | _ \<Rightarrow> False)"

definition verifies :: "event \<Rightarrow> bool" where
  "verifies ev \<longleftrightarrow> (case ev of Task sched (VerifyTask decoded) \<Rightarrow> True | _ \<Rightarrow> False)"

definition sets_policy :: "event \<Rightarrow> bool" where
  "sets_policy ev \<longleftrightarrow> (case ev of Request (PutPolicy i) req \<Rightarrow> True | _ \<Rightarrow> False)"

text \<open>How wallet \<open>i\<close> and its policy can have moved while the events \<open>es\<close> happened.\<close>

definition progressed :: "event list \<Rightarrow> 'z pgdb_scheme \<Rightarrow> 'z pgdb_scheme \<Rightarrow> string \<Rightarrow> Wallet \<Rightarrow> Wallet \<Rightarrow> bool" where
  "progressed es s t i w w' \<longleftrightarrow> same_wallet w w'
     \<and> (Wallet_Status w' = Wallet_Status w
        \<or> Wallet_Status w = WalletPending \<and> Wallet_Status w' = WalletActive \<and> list_ex verifies es)
     \<and> (policy_at t i = policy_at s i \<or> list_ex sets_policy es)"

lemma same_wallet_trans: "same_wallet u v \<Longrightarrow> same_wallet v w \<Longrightarrow> same_wallet u w"
  by (simp add: same_wallet_def)

lemma progressed_refl: "progressed [] s s i w w"
  by (simp add: progressed_def)

lemma progressed_trans:
  "progressed es s t i u v \<Longrightarrow> progressed fs t x i v w \<Longrightarrow> progressed (es @ fs) s x i u w"
  by (auto simp: progressed_def go_consts intro: same_wallet_trans)

lemma step_existing:
  assumes "db_ok s" "sys_step Y s ev t" "wallet_at s i = Some w"
  shows "\<exists>w'. wallet_at t i = Some w' \<and> progressed [ev] s t i w w'"
proof -
  have "caused Y ev s t i" using step_effect [OF assms(1,2)] by blast
  with assms(3) show ?thesis
    by (cases ev) (auto simp: caused_def untouched_def newly_linked_def newly_verified_def new_policy_def progressed_def
        verifies_def sets_policy_def)
qed

lemma step_new:
  assumes "db_ok s" "sys_step Y s ev t" "wallet_at s i = None" "wallet_at t i = Some w"
  shows "links ev \<and> Wallet_Status w = WalletPending \<and> admitted Y t (Wallet_UserID w)
    \<and> (\<exists>q. policy_at t i = Some q \<and> \<not> Pol_TradingEnabled q)"
proof -
  have "caused Y ev s t i" using step_effect [OF assms(1,2)] by blast
  with assms(3,4) show ?thesis
    by (cases ev) (auto simp: caused_def untouched_def newly_linked_def newly_verified_def new_policy_def links_def)
qed

section \<open>Runs\<close>

lemma run_effect:
  assumes "sys_run Y s es t" "db_ok s"
  shows "db_ok t \<and> accounts_grow Y s t \<and> recorded Y es s t"
  using assms
proof (induction rule: sys_run.induct)
  case (move s es t ev u)
  then show ?case using step_effect [of t Y ev u] by (blast intro: accounts_grow_trans recorded_trans)
qed (simp add: accounts_grow_def recorded_refl)

lemma run_existing:
  assumes "sys_run Y s es t" "db_ok s" "wallet_at s i = Some w"
  shows "\<exists>w'. wallet_at t i = Some w' \<and> progressed es s t i w w'"
  using assms
proof (induction rule: sys_run.induct)
  case (move s es t ev u)
  then obtain v where v: "wallet_at t i = Some v" "progressed es s t i w v" by blast
  have "db_ok t" using run_effect [OF move.hyps(1) move.prems(1)] by blast
  from step_existing [OF this move.hyps(2) v(1)] v(2) show ?case by (blast intro: progressed_trans)
qed (auto intro: progressed_refl)

lemma run_new:
  assumes "sys_run Y s es t" "db_ok s" "wallet_at s i = None" "wallet_at t i = Some w"
  shows "\<exists>es1 ev es2. es = es1 @ ev # es2 \<and> links ev \<and> admitted Y t (Wallet_UserID w)
    \<and> (Wallet_Status w = WalletPending \<or> Wallet_Status w = WalletActive \<and> list_ex verifies es2)
    \<and> (\<forall>q. policy_at t i = Some q \<and> Pol_TradingEnabled q \<longrightarrow> list_ex sets_policy es2)"
  using assms
proof (induction arbitrary: w rule: sys_run.induct)
  case (move s es t ev u)
  have t: "db_ok t" using run_effect [OF move.hyps(1) move.prems(1)] by blast
  show ?case
  proof (cases "wallet_at t i")
    case None
    from step_new [OF t move.hyps(2) None move.prems(3)] show ?thesis
      by (intro exI [of _ es], intro exI [of _ ev], intro exI [of _ "[]"]) auto
  next
    case (Some v)
    from move.IH [OF move.prems(1,2) Some] obtain es1 e es2 where e: "es = es1 @ e # es2" "links e"
      and v: "admitted Y t (Wallet_UserID v)"
        "Wallet_Status v = WalletPending \<or> Wallet_Status v = WalletActive \<and> list_ex verifies es2"
        "\<And>q. policy_at t i = Some q \<Longrightarrow> Pol_TradingEnabled q \<Longrightarrow> list_ex sets_policy es2" by blast
    from step_existing [OF t move.hyps(2) Some] move.prems(3) have p: "progressed [ev] t u i v w" by simp
    have "admitted Y u (Wallet_UserID w)"
      using admitted_grow [OF _ v(1)] step_effect [OF t move.hyps(2)] p by (auto simp: progressed_def same_wallet_def)
    with e v(2,3) p show ?thesis
      by (intro exI [of _ es1], intro exI [of _ e], intro exI [of _ "es2 @ [ev]"]) (auto simp: progressed_def go_consts dest: v(3) v(3) [OF sym])
  qed
qed simp

section \<open>A run of a small system\<close>

text \<open>
  An allowlisted user links a wallet from the bot and the worker verifies it.
\<close>

definition sample_client :: "keyspace Client" where
  "sample_client = \<lparr>cl_eth = \<lparr>eth_Dial = ok (), eth_Close = (\<lambda>s. s), eth_ChainID = ok 4663,
     eth_HeaderByNumber = (\<lambda>_. throw (Foreign EthereumNotFound)),
     eth_TransactionByHash = (\<lambda>_. throw (Foreign EthereumNotFound)),
     eth_TransactionReceipt = (\<lambda>_. throw (Foreign EthereumNotFound)),
     eth_BalanceAt = (\<lambda>_ _. ok (Some 0)), eth_FilterLogs = (\<lambda>_. ok [])\<rparr>,
     cl_ctx = \<lparr>ctx_Err = (\<lambda>_. None), ctx_Wait = (\<lambda>d s. (None, s))\<rparr>, cl_expected = 4663,
     cl_retry = \<lparr>MaxRetries = 0, Backoff = 0\<rparr>\<rparr>"

definition sample_config :: Config where
  "sample_config = \<lparr>Cfg_AppEnv = ''development'', Cfg_LogLevel = ''info'', Cfg_LogJSON = True, Cfg_HTTPAddr = '':8080'',
     Cfg_ShutdownTimeout = 15 * second,
     Cfg_Chain = \<lparr>CC_ChainID = 4663, CC_RPCURL = ''http://rpc'', CC_WSURL = [], CC_RequestTimeout = 10 * second, CC_MaxRetries = 0,
       CC_RetryBackoff = 0, CC_BlockStaleAfter = 2 * minute\<rparr>,
     Cfg_Postgres = \<lparr>PC_URL = ''db'', PC_MaxConns = 10, PC_MinConns = 2, PC_MaxConnLifetime = hour, PC_MaxConnIdleTime = 30 * minute,
       PC_ConnectTimeout = 10 * second\<rparr>,
     Cfg_Redis = \<lparr>RC_Addr = ''localhost:6379'', RC_Password = [], RC_DB = 0, RC_PoolSize = 10\<rparr>,
     Cfg_Worker = \<lparr>WC_Concurrency = 10, WC_Queues = DefaultQueues, WC_ShutdownTimeout = 30 * second\<rparr>,
     Cfg_Risk = \<lparr>RK_StopLossPercent = Fin 5, RK_CapitalRecoveryPercent = Fin 100, RK_MaxPositionPercent = Fin 5,
       RK_MaxOpenPositions = 5, RK_DailyLossLimitPercent = Fin 10, RK_MaxSlippageBPS = 100, RK_MinLiquidityUSD = Fin 10000,
       RK_MinScore = Fin 70\<rparr>,
     Cfg_Telegram = \<lparr>TC_BotToken = ''t'', TC_AllowedUserIDs = [7], TC_MiniAppURL = [], TC_InitDataTTL = 15 * minute,
       TC_RateLimit = 20, TC_RateWindow = minute\<rparr>\<rparr>"

definition sample_system :: "keyspace system" where
  "sample_system = \<lparr>sy_U = ascii_tables, sy_F = sample_formats, sy_P = sample_primitives, sy_J = sample_decoders,
     sy_rfc3339 = (\<lambda>_. []), sy_cfg = sample_config, sy_version = ''test'',
     sy_clock = pg_clock, sy_outside_clock = ks_clock, sy_chain = sample_client, sy_redis = simple_redis, sy_redis_ping = ok (),
     sy_asynq = \<lparr>asynq_Enqueue = (\<lambda>ty pl opts. ok \<lparr>TI_ID = [], TI_Type = ty, TI_Queue = []\<rparr>)\<rparr>,
     sy_api = \<lparr>SendMessage = (\<lambda>c m. ok ()), SetMyCommands = (\<lambda>_. ok ()), GetMe = ok ''bot'', API_Start = (\<lambda>s. s)\<rparr>\<rparr>"

definition sample_message :: "string \<Rightarrow> SDK_Message" where
  "sample_message m = \<lparr>Msg_From = Some \<lparr>From_ID = 7, From_IsBot = False, From_FirstName = [], From_LastName = [],
     From_Username = ''bob'', From_LanguageCode = ''en''\<rparr>, Msg_ChatID = 7, Msg_Text = m\<rparr>"

definition sample_schedule :: "nat list" where
  "sample_schedule = [0, 1, 2]"

definition sample_router :: "keyspace pgdb_scheme Router" where
  "sample_router = projr (sy_router sample_system sample_schedule)"

definition sample_linked :: "keyspace pgdb_scheme" where
  "sample_linked = handleUpdate ascii_tables sample_formats \<lparr>bot_api = outside_api (sy_api sample_system), bot_router = sample_router\<rparr>
     (Some (sample_message (''/connect '' @ sample_address))) (empty_db sample_instant)"

definition sample_connect :: event where
  "sample_connect = Message sample_schedule (Some (sample_message (''/connect '' @ sample_address)))"

definition sample_verified :: "keyspace pgdb_scheme" where
  "sample_verified = snd (Server_Handle TypeWalletVerify (WalletVerify (sy_wallets sample_system)) (Inr ''uu'') sample_linked)"

definition sample_verify :: event where
  "sample_verify = Task sample_schedule (VerifyTask (Inr ''uu''))"

lemma sample_schedule_ok: "schedule_of (sy_health sample_system None) sample_schedule"
  by (auto simp: schedule_of_def sample_schedule_def sy_health_def NewHealthChecker_def component_names_def)

lemma sample_connect_step: "sys_step sample_system (empty_db sample_instant) sample_connect sample_linked"
proof -
  have "\<not> isl (sy_router sample_system sample_schedule)" by code_simp
  then have r: "sy_router sample_system sample_schedule = Inr sample_router"
    by (cases "sy_router sample_system sample_schedule") (auto simp: sample_router_def)
  have "sy_U sample_system = ascii_tables" "sy_F sample_system = sample_formats" by (simp_all add: sample_system_def)
  with sys_step.message [OF r sample_schedule_ok] show ?thesis by (simp add: sample_connect_def sample_linked_def)
qed

lemma sample_verify_step: "sys_step sample_system sample_linked sample_verify sample_verified"
proof -
  let ?h = "Server_Handle TypeWalletVerify (WalletVerify (sy_wallets sample_system)) (Inr ''uu'')"
  have h: "worker_handler sample_system sample_schedule (VerifyTask (Inr ''uu'')) = Some ?h" by (simp add: worker_handler_def)
  have "?h sample_linked = (fst (?h sample_linked), sample_verified)" by (simp add: sample_verified_def)
  from sys_step.task [OF h sample_schedule_ok this] show ?thesis by (simp only: sample_verify_def)
qed

lemma sample_system_run: "sys_run sample_system (empty_db sample_instant) [sample_connect, sample_verify] sample_verified"
  using sys_run.move [OF sys_run.move [OF sys_run.start sample_connect_step] sample_verify_step] by simp

lemma sample_linked_wallet: "map_option Wallet_Status (wallet_at sample_linked ''uu'') = Some ''pending''"
  by code_simp

lemma sample_verified_wallet: "map_option Wallet_Status (wallet_at sample_verified ''uu'') = Some ''active''"
  by code_simp

lemma sample_events: "\<not> links sample_verify" "verifies sample_verify" "\<not> sets_policy sample_verify" "\<not> sets_policy sample_connect"
  by (simp_all add: links_def verifies_def sets_policy_def sample_verify_def sample_connect_def)

lemma empty_db_wallet_at: "wallet_at (empty_db z) i = None"
  by (simp add: wallet_at_def find_wallet_def empty_db_def)

section \<open>What every run keeps\<close>

text \<open>
  C1. On a database that started empty, whatever messages, requests, tasks, heads and outages
  came in whatever order: the database satisfies its invariant, every account belongs to
  an allowlisted Telegram ID, and every wallet is pending or active and belongs to such an
  account.
\<close>

theorem running_system_invariant:
  assumes "sys_run Y s es t" "db_ok s" "users s = []" "telegram_users s = []" "wallets s = []"
  shows "db_ok t
    \<and> (\<forall>tid u. account_of t tid = Some u \<longrightarrow> Allows (sy_allowlist Y) tid)
    \<and> (\<forall>i w. wallet_at t i = Some w \<longrightarrow>
          (Wallet_Status w = WalletPending \<or> Wallet_Status w = WalletActive) \<and> admitted Y t (Wallet_UserID w))"
proof (intro conjI allI impI)
  note eff = run_effect [OF assms(1,2)]
  show "db_ok t" using eff by blast
  have none: "account_of s tid = None" "wallet_at s i = None" for tid i
    using assms(3-5) by (simp_all add: account_of_def find_tg_def wallet_at_def find_wallet_def)
  show "Allows (sy_allowlist Y) tid" if "account_of t tid = Some u" for tid u
    using eff that none(1) by (auto simp: accounts_grow_def)
  fix i w
  assume w: "wallet_at t i = Some w"
  from run_new [OF assms(1,2) none(2) w] show
    "Wallet_Status w = WalletPending \<or> Wallet_Status w = WalletActive" "admitted Y t (Wallet_UserID w)" by blast+
qed

theorem running_system_invariant_witness:
  "db_ok sample_verified \<and> (\<exists>w. wallet_at sample_verified ''uu'' = Some w \<and> admitted sample_system sample_verified (Wallet_UserID w))"
proof -
  obtain w where "wallet_at sample_verified ''uu'' = Some w" using sample_verified_wallet by auto
  with running_system_invariant [OF sample_system_run empty_db_ok] show ?thesis by (simp add: empty_db_def)
qed

text \<open>
  C2. Nothing happens to a wallet by itself. One that came into being during a run was linked
  by a message or a Mini App request; if it is active, a verification task ran after that;
  if its policy lets it trade, a policy request was served after that; and it belongs to an
  allowlisted account.
\<close>

theorem wallet_history_has_causes:
  assumes "sys_run Y s es t" "db_ok s" "wallet_at s i = None" "wallet_at t i = Some w"
  shows "\<exists>es1 ev es2. es = es1 @ ev # es2 \<and> links ev \<and> admitted Y t (Wallet_UserID w)
    \<and> (Wallet_Status w = WalletPending \<or> Wallet_Status w = WalletActive \<and> list_ex verifies es2)
    \<and> (\<forall>q. policy_at t i = Some q \<and> Pol_TradingEnabled q \<longrightarrow> list_ex sets_policy es2)"
  using assms by (rule run_new)

theorem wallet_history_has_causes_witness:
  "\<exists>w. wallet_at sample_verified ''uu'' = Some w \<and> Wallet_Status w = WalletActive
     \<and> (\<forall>q. policy_at sample_verified ''uu'' = Some q \<longrightarrow> \<not> Pol_TradingEnabled q)"
proof -
  obtain w where w: "wallet_at sample_verified ''uu'' = Some w" "Wallet_Status w = ''active''" using sample_verified_wallet by auto
  from wallet_history_has_causes [OF sample_system_run empty_db_ok empty_db_wallet_at w(1)] w sample_events show ?thesis
    by (auto simp: Cons_eq_append_conv go_consts)
qed

text \<open>
  C3. Whatever the running system does, a wallet that exists stays, with its owner, address,
  chain, role, label and creation time; its status stays or goes from pending to active by
  a verification task; its policy stays unless a policy request is served; and no account
  moves to another Telegram ID.
\<close>

theorem wallets_persist:
  assumes "sys_run Y s es t" "db_ok s" "wallet_at s i = Some w"
  shows "(\<exists>w'. wallet_at t i = Some w' \<and> same_wallet w w'
      \<and> (Wallet_Status w' = Wallet_Status w
         \<or> Wallet_Status w = WalletPending \<and> Wallet_Status w' = WalletActive \<and> list_ex verifies es)
      \<and> (policy_at t i = policy_at s i \<or> list_ex sets_policy es))
    \<and> (\<forall>tid u. account_of s tid = Some u \<longrightarrow> account_of t tid = Some u)"
  using run_existing [OF assms] run_effect [OF assms(1,2)] by (auto simp: progressed_def accounts_grow_def)

theorem wallets_persist_witness:
  "\<exists>w w'. wallet_at sample_linked ''uu'' = Some w \<and> wallet_at sample_verified ''uu'' = Some w'
     \<and> same_wallet w w' \<and> Wallet_Status w = WalletPending \<and> Wallet_Status w' = WalletActive
     \<and> policy_at sample_verified ''uu'' = policy_at sample_linked ''uu''"
proof -
  have run: "sys_run sample_system sample_linked [sample_verify] sample_verified"
    using sys_run.move [OF sys_run.start sample_verify_step] by simp
  have s: "db_ok sample_linked" using step_effect [OF empty_db_ok sample_connect_step] by blast
  obtain w where w: "wallet_at sample_linked ''uu'' = Some w" "Wallet_Status w = ''pending''" using sample_linked_wallet by auto
  from wallets_persist [OF run s w(1)] w sample_verified_wallet sample_events show ?thesis by (auto simp: go_consts)
qed

text \<open>
  C4. The records of a run are never rewritten. Whatever the processes do and whatever fails,
  the audit trail is the old one with rows added at its end, and the height recorded for a
  chain stays, unless it is the configured chain, a sync task or a new head arrived, and the
  height is no lower than it was.
\<close>

theorem records_only_grow:
  assumes "sys_run Y s es t" "db_ok s"
  shows "(\<exists>rows. audit_logs t = audit_logs s @ rows)
    \<and> (\<forall>c. height t c = height s c \<or> c = sy_chainID Y \<and> list_ex syncs es \<and> no_lower (height s c) (height t c))"
  using run_effect [OF assms] by (simp add: recorded_def)

text \<open>The sample system with a WebSocket endpoint sees block 7 and then, from a lagging node, block 5.\<close>

definition sample_streaming :: "keyspace system" where
  "sample_streaming = sample_system\<lparr>sy_cfg := sample_config\<lparr>Cfg_Chain := Cfg_Chain sample_config\<lparr>CC_WSURL := ''ws://rpc''\<rparr>\<rparr>\<rparr>"

definition sample_head :: "u64 \<Rightarrow> keyspace pgdb_scheme \<Rightarrow> keyspace pgdb_scheme" where
  "sample_head n s = snd (ChainSync_Record (sy_chain_sync sample_streaming) (sample_block n) s)"

lemma sample_head_step: "sys_step sample_streaming s (NewHead (sample_block n)) (sample_head n s)"
proof -
  have "CC_WSURL (Cfg_Chain (sy_cfg sample_streaming)) \<noteq> []" by (simp add: sample_streaming_def)
  then show ?thesis unfolding sample_head_def by (rule sys_step.new_head [OF _ prod.collapse [symmetric]])
qed

theorem records_only_grow_witness:
  "height (sample_head 7 (empty_db sample_instant)) 4663 = Some 7
   \<and> no_lower (Some 7) (height (sample_head 5 (sample_head 7 (empty_db sample_instant))) 4663)"
proof -
  let ?s = "empty_db sample_instant"
  have 7: "height (sample_head 7 ?s) 4663 = Some 7" by code_simp
  have ok: "db_ok (sample_head 7 ?s)" using step_effect [OF empty_db_ok sample_head_step] by blast
  have "sys_run sample_streaming (sample_head 7 ?s) [NewHead (sample_block 5)] (sample_head 5 (sample_head 7 ?s))"
    using sys_run.move [OF sys_run.start sample_head_step] by simp
  from records_only_grow [OF this ok] 7 show ?thesis by (metis no_lower.simps(3) order_refl)
qed

end
