(* ===== verification/Liveness.thy ===== *)
theory Liveness
  imports Runs
begin

text \<open>
  The wallet life cycle completes: once the database and the node answer, delivering the
  verification task activates a pending wallet. One case is left out by the schema itself:
  a second bot wallet of the same owner on the same chain, which the unique index
  \<open>wallets_one_active_bot_per_chain\<close> keeps from becoming active beside the first.
\<close>

text \<open>An active bot wallet of the same account on the same chain.\<close>

definition rival :: "'z pgdb_scheme \<Rightarrow> Wallet \<Rightarrow> bool" where
  "rival s w \<longleftrightarrow> Wallet_Role w = WalletRoleBot
     \<and> (\<exists>j v. wallet_at s j = Some v \<and> Wallet_UserID v = Wallet_UserID w \<and> Wallet_ChainID v = Wallet_ChainID w
          \<and> Wallet_Role v = WalletRoleBot \<and> Wallet_Status v = WalletActive)"

lemma rivalI:
  "wallet_at s j = Some v \<Longrightarrow> Wallet_UserID v = Wallet_UserID w \<Longrightarrow> Wallet_ChainID v = Wallet_ChainID w
     \<Longrightarrow> Wallet_Role v = WalletRoleBot \<Longrightarrow> Wallet_Status v = WalletActive \<Longrightarrow> Wallet_Role w = WalletRoleBot \<Longrightarrow> rival s w"
  unfolding rival_def by blast

section \<open>The update is accepted\<close>

abbreviation activated :: "time option \<Rightarrow> time \<Rightarrow> wallet_row \<Rightarrow> wallet_row" where
  "activated verified now r \<equiv> r\<lparr>wr_status := ''active'', wr_verified_at := verified, wr_updated_at := now\<rparr>"

lemma unique_activated:
  assumes "wallets_unique ws" "r \<in> set ws" "wr_status r = ''pending''"
    and rival: "\<And>x. x \<in> set ws \<Longrightarrow> wr_user_id x = wr_user_id r \<Longrightarrow> wr_chain_id x = wr_chain_id r
      \<Longrightarrow> wr_role r = ''bot'' \<Longrightarrow> \<not> active_bot x"
  shows "wallets_unique (map (\<lambda>x. if wr_id x = wr_id r \<and> wr_status x = ''pending'' then activated v now x else x) ws)"
proof -
  let ?h = "\<lambda>x. if wr_id x = wr_id r \<and> wr_status x = ''pending'' then activated v now x else x"
  let ?key = "\<lambda>x. (wr_user_id x, wr_chain_id x)"
  have ids: "wr_id (?h x) = wr_id x" "?key (?h x) = ?key x" "wr_role (?h x) = wr_role x" "wr_address (?h x) = wr_address x" for x
    by simp_all
  have dist: "distinct (map wr_id ws)" "inj_on ?key {x \<in> set ws. active_bot x}"
    using assms(1) by (auto simp: wallets_unique_def distinct_map)
  have inj: "inj_on wr_id (set ws)" "distinct ws" using dist(1) by (simp_all add: distinct_map)
  have hit: "?h x = x \<or> x = r" if "x \<in> set ws" for x
    using that assms(2) inj(1) by (auto dest: inj_onD)
  have one: "y = r" if "y \<in> set ws" "active_bot (?h y)" "?key y = ?key r" "wr_role r = ''bot''" for y
  proof (rule ccontr)
    assume "y \<noteq> r"
    with hit [OF that(1)] have "?h y = y" by blast
    with that(2) have "active_bot y" by (simp only:)
    with rival [OF that(1)] that(3,4) show False by simp
  qed
  have "inj_on ?key (set (filter active_bot (map ?h ws)))"
  proof (rule inj_onI)
    fix a b
    assume "a \<in> set (filter active_bot (map ?h ws))" "b \<in> set (filter active_bot (map ?h ws))" and key: "?key a = ?key b"
    then obtain x y where x: "x \<in> set ws" "a = ?h x" "active_bot a" and y: "y \<in> set ws" "b = ?h y" "active_bot b" by auto
    have keys: "?key x = ?key y" using key unfolding x(2) y(2) ids(2) .
    have role: "wr_role x = ''bot''" "wr_role y = ''bot''" using x(3) y(3) unfolding x(2) y(2) active_bot_def ids(3) by blast+
    show "a = b"
    proof (cases "x = r \<or> y = r")
      case True
      then have "x = y" using one [of x] one [of y] x y keys role by (auto simp only:)
      with x(2) y(2) show ?thesis by simp
    next
      case False
      then have xy: "a = x" "b = y" using hit [OF x(1)] hit [OF y(1)] unfolding x(2) y(2) by blast+
      show ?thesis
        unfolding xy by (rule inj_onD [OF dist(2) keys]) (use x(1,3) y(1,3) xy in simp_all)
    qed
  qed
  moreover have "inj_on ?h (set ws)" using ids(1) inj(1) by (metis (no_types, lifting) inj_onD inj_onI)
  then have "distinct (filter active_bot (map ?h ws))" using inj(2) by (simp only: distinct_map distinct_filter)
  ultimately have "distinct (map ?key (filter active_bot (map ?h ws)))" by (simp only: distinct_map)
  moreover have "map wr_id (map ?h ws) = map wr_id ws"
    "map (\<lambda>r. (wr_user_id r, wr_chain_id r, wr_address r)) (map ?h ws) = map (\<lambda>r. (wr_user_id r, wr_chain_id r, wr_address r)) ws"
    by simp_all
  ultimately show ?thesis using assms(1) unfolding wallets_unique_def by (simp only:)
qed

lemma MarkVerified_up:
  assumes "db_ok s" "pg_faults s = []" "wallet_at s i = Some w" "Wallet_Status w = WalletPending" "\<not> rival s w"
  shows "\<exists>t. WalletRepo_MarkVerified i tm s = (Inr (), t) \<and> pg_faults t = [] \<and> engine t = engine s"
proof -
  obtain r where r: "find_wallet s i = Some r" "w = wallet_of_row r" using assms(3) by (auto simp: wallet_at_def)
  then obtain k where k: "pg_uuid_in (engine s) i = Some k" "wr_id r = k" "r \<in> set (wallets s)"
    by (auto simp: find_wallet_def dest: find_Some_mem split: option.splits bind_splits)
  let ?hit = "\<lambda>x. wr_id x = k \<and> wr_status x = ''pending''"
  let ?v = "Some (pg_timestamp_in (engine s) tm)"
  have pend: "wr_status r = ''pending''" using assms(4) r(2) by (simp add: go_consts)
  have "\<not> active_bot x" if x: "x \<in> set (wallets s)" "wr_user_id x = wr_user_id r" "wr_chain_id x = wr_chain_id r" "wr_role r = ''bot''" for x
  proof
    assume "active_bot x"
    moreover have "wallet_at s (wr_id x) = Some (wallet_of_row x)"
      using find_wallet_self [OF assms(1) x(1)] by (simp add: wallet_at_def)
    ultimately have "rival s w"
      using x(2-4) r(2) by (intro rivalI [of s "wr_id x" "wallet_of_row x"]) (auto simp: active_bot_def go_consts)
    with assms(5) show False by blast
  qed
  moreover have "wallets_unique (wallets s)" "\<forall>x \<in> set (wallets s). wallet_row_checked x"
    using assms(1) by (simp_all add: db_ok_def wallets_ok_def list_all_iff)
  ultimately have uniq: "wallets_unique (map (\<lambda>x. if ?hit x then activated ?v (pg_clock s) x else x) (wallets s))"
    and chk: "\<forall>x \<in> set (wallets s). wallet_row_checked (activated ?v (pg_clock s) x)"
    using unique_activated [of "wallets s" r, where v = ?v and now = "pg_clock s"] k pend by (auto simp: list_all_iff wallet_row_checked_def)
  let ?t = "s\<lparr>wallets := map (\<lambda>x. if ?hit x then activated ?v (pg_clock s) x else x) (wallets s)\<rparr>"
  have "WalletRepo_MarkVerified i tm s = (Inr (), ?t)"
    using uniq chk assms(2) k(1)
    by (simp add: WalletRepo_MarkVerified_def stmt_def with_uuid_def update_wallet_rows_def Let_def attempt_def ok_def list_all_iff)
  with assms(2) show ?thesis by simp
qed

section \<open>The whole call succeeds\<close>

text \<open>\<open>at_rest s t\<close>: the wallets are the same and no fault is due.\<close>

definition at_rest :: "'z pgdb_scheme \<Rightarrow> 'z pgdb_scheme \<Rightarrow> bool" where
  "at_rest s t \<longleftrightarrow> pg_faults t = [] \<and> (db_ok s \<longrightarrow> db_ok t) \<and> wallet_at t = wallet_at s \<and> engine t = engine s"

lemma outside_at_rest:
  assumes "pg_faults s = []" "\<And>z. \<exists>a z'. m z = (Inr a, z') \<and> Q a"
  obtains a t where "outside m s = (Inr a, t)" "Q a" "at_rest s t"
proof -
  obtain a z' where a: "m (pgdb.more s) = (Inr a, z')" "Q a" using assms(2) by blast
  then have run: "outside m s = (Inr a, pgdb.more_update (\<lambda>_. z') s)" by (simp add: outside_def)
  from quietD [OF quiet_outside [OF run]] assms(1) have "at_rest s (pgdb.more_update (\<lambda>_. z') s)" by (simp add: at_rest_def)
  with that run a(2) show thesis by blast
qed

lemma audit_at_rest:
  assumes "pg_faults s = []"
  shows "at_rest s (audit (sy_wallets Y) ev s)"
proof -
  obtain r t where run: "AuditRepo_Record (ev (ws_clock (sy_wallets Y) s)) s = (r, t)" by fastforce
  then have t: "audit (sy_wallets Y) ev s = t"
    by (simp add: audit_def recordAudit_def sy_wallets_def pg_wallet_service_def NewWalletService_def AuditRepo_def)
  have "pg_faults t = []"
    using run assms by (auto simp: AuditRepo_Record_def stmt_def insert_audit_def Let_def elim!: attempt_cases split: sum.splits if_splits)
  with quietD [OF quiet_appended [OF Record_appended [OF run]]] t show ?thesis by (simp add: at_rest_def)
qed

lemma Get_up: 
  assumes "pg_faults s = []" "wallet_at s i = Some w"
  shows "Store_Get (ws_wallets (sy_wallets Y)) i s = (Inr w, s)"
proof -
  have "pg_uuid_in (engine s) i \<noteq> None" using assms(2) by (cases "pg_uuid_in (engine s) i") (auto simp: wallet_at_def find_wallet_def)
  with WalletRepo_Get_up [OF assms(1)] assms(2) show ?thesis
    by (simp add: sy_wallets_def pg_wallet_service_def NewWalletService_def)
qed

lemma Verify_up:
  assumes "db_ok s" "pg_faults s = []" "wallet_at s i = Some w" "Wallet_Status w = WalletPending" "\<not> rival s w"
    and chain: "\<And>z. \<exists>z'. Client_ChainID (sy_U Y) (sy_chain Y) z = (Inr (Wallet_ChainID w), z')"
    and balance: "\<And>z. \<exists>b z'. Client_BalanceAt (sy_U Y) (sy_chain Y) (Wallet_Address w) None z = (Inr b, z')"
  shows "\<exists>w' t. WalletService_Verify (sy_wallets Y) i s = (Inr w', t) \<and> wallet_at t i = Some w'
    \<and> same_wallet w w' \<and> Wallet_Status w' = WalletActive"
proof -
  let ?svc = "sy_wallets Y"
  have ports: "ws_chain ?svc = Some (outside_probe (address_probe (sy_U Y) (sy_chain Y)))"
    "Store_MarkVerified (ws_wallets ?svc) = WalletRepo_MarkVerified"
    by (simp_all add: sy_wallets_def pg_wallet_service_def NewWalletService_def)
  have "\<And>z. \<exists>a z'. Client_ChainID (sy_U Y) (sy_chain Y) z = (Inr a, z') \<and> a = Wallet_ChainID w" using chain by blast
  then obtain a s1 where "outside (Client_ChainID (sy_U Y) (sy_chain Y)) s = (Inr a, s1)" "a = Wallet_ChainID w" "at_rest s s1"
    by (rule outside_at_rest [OF assms(2)])
  then have s1: "outside (Client_ChainID (sy_U Y) (sy_chain Y)) s = (Inr (Wallet_ChainID w), s1)" "at_rest s s1" by simp_all
  have "\<And>z. \<exists>a z'. Client_BalanceAt (sy_U Y) (sy_chain Y) (Wallet_Address w) None z = (Inr a, z') \<and> True" using balance by blast
  moreover have "pg_faults s1 = []" using s1(2) by (simp add: at_rest_def)
  ultimately obtain b s2
    where s2: "outside (Client_BalanceAt (sy_U Y) (sy_chain Y) (Wallet_Address w) None) s1 = (Inr b, s2)" "at_rest s1 s2"
    using outside_at_rest [of s1 "Client_BalanceAt (sy_U Y) (sy_chain Y) (Wallet_Address w) None" "\<lambda>_. True"] by blast
  have rest: "db_ok s2" "pg_faults s2 = []" "wallet_at s2 = wallet_at s" using s1(2) s2(2) assms(1) by (simp_all add: at_rest_def)
  then have "\<not> rival s2 w" "wallet_at s2 i = Some w" using assms(3,5) by (simp_all add: rival_def)
  with MarkVerified_up [OF rest(1,2) _ assms(4), of i "ws_now ?svc s2"] obtain s3
    where s3: "WalletRepo_MarkVerified i (ws_now ?svc s2) s2 = (Inr (), s3)" "pg_faults s3 = []" by blast
  from MarkVerified_effect [OF rest(1) s3(1) \<open>wallet_at s2 i = Some w\<close>] obtain w' where w': "wallet_at s3 i = Some w'"
    and eff: "w' = w \<or> same_wallet w w' \<and> Wallet_Status w' = WalletActive" by blast
  with MarkVerified_done [OF s3(1) w'] assms(4) have active: "same_wallet w w'" "Wallet_Status w' = WalletActive" by auto
  have at: "at_rest s3 (audit ?svc ev s3)" for ev using audit_at_rest [OF s3(2)] .
  then have "Store_Get (ws_wallets ?svc) i (audit ?svc ev s3) = (Inr w', audit ?svc ev s3)" "wallet_at (audit ?svc ev s3) i = Some w'" for ev
    using Get_up [of "audit ?svc ev s3" i w' Y] w' by (auto simp: at_rest_def)
  then show ?thesis
    using Get_up [OF assms(2,3), of Y] s1(1) s2(1) s3(1) active
    by (simp add: WalletService_Verify_def ports outside_probe_def address_probe_def Let_def after_def)
qed

text \<open>
  C9. Verification completes: when the database and the node answer and the node is on the wallet's
  chain, delivering the task for a pending wallet succeeds and leaves the wallet active, unless
  its owner already has an active bot wallet on that chain. By the theorems on runs, a pending
  wallet stays pending and with these fields through any number of failed deliveries, so
  an outage only delays it.
\<close>

theorem verification_completes:
  assumes "db_ok s" "pg_faults s = []" "wallet_at s i = Some w" "Wallet_Status w = WalletPending" "\<not> rival s w" "i \<noteq> []"
    and "\<And>z. \<exists>z'. Client_ChainID (sy_U Y) (sy_chain Y) z = (Inr (Wallet_ChainID w), z')"
    and "\<And>z. \<exists>b z'. Client_BalanceAt (sy_U Y) (sy_chain Y) (Wallet_Address w) None z = (Inr b, z')"
  shows "\<exists>h t w'. worker_handler Y sched (VerifyTask (Inr i)) = Some h \<and> h s = (Inr (), t)
    \<and> wallet_at t i = Some w' \<and> same_wallet w w' \<and> Wallet_Status w' = WalletActive"
  using Verify_up [OF assms(1-5,7,8)] assms(6) by (auto simp: worker_handler_def Server_Handle_def WalletVerify_def)

lemma sample_client_answers:
  "\<exists>z'. Client_ChainID ascii_tables sample_client z = (Inr 4663, z')"
  "\<exists>b z'. Client_BalanceAt ascii_tables sample_client sample_address None z = (Inr b, z')"
proof -
  have call: "Client_call ascii_tables sample_client fn z = fn z" if "\<not> isl (fst (fn z))" for fn :: "(keyspace, 'a) op"
    using that by (cases "fn z"; cases "fst (fn z)")
      (auto simp: Client_call_def sample_client_def retry_Do_def do_loop.simps Let_def)
  show "\<exists>z'. Client_ChainID ascii_tables sample_client z = (Inr 4663, z')"
    by (simp add: Client_ChainID_def call [of "ok 4663"] sample_client_def [THEN arg_cong, of cl_eth])
  have "\<not> isl (ParseAddress ascii_tables sample_address)" by code_simp
  then obtain p where "ParseAddress ascii_tables sample_address = Inr p" by (cases "ParseAddress ascii_tables sample_address") auto
  then show "\<exists>b z'. Client_BalanceAt ascii_tables sample_client sample_address None z = (Inr b, z')"
    by (simp add: Client_BalanceAt_def attempt_def ok_def call [of "ok (Some 0)"] sample_client_def [THEN arg_cong, of cl_eth])
qed

text \<open>A pending bot wallet, the only one of its owner.\<close>

definition sample_pending :: "keyspace pgdb_scheme" where
  "sample_pending = (empty_db sample_instant)\<lparr>users := users (sample_db WalletPending),
     wallets := wallets (sample_db WalletPending), wallet_policies := wallet_policies (sample_db WalletPending)\<rparr>"

lemma sample_pending_wallet:
  "db_ok sample_pending" "pg_faults sample_pending = []"
  "wallet_at sample_pending j = (if j = ''w1'' then Some (wallet_of_row (sample_wallet_row WalletPending)) else None)"
proof -
  show "db_ok sample_pending" using sample_states(1) by (simp add: db_ok_def sample_pending_def sample_db_def empty_db_def)
  show "pg_faults sample_pending = []" by (simp add: sample_pending_def empty_db_def)
  show "wallet_at sample_pending j = (if j = ''w1'' then Some (wallet_of_row (sample_wallet_row WalletPending)) else None)"
    by (simp add: wallet_at_def find_wallet_def sample_pending_def sample_db_def empty_db_def sample_wallet_row_def)
qed

theorem verification_completes_witness:
  "\<exists>h t w'. worker_handler sample_system [] (VerifyTask (Inr ''w1'')) = Some h \<and> h sample_pending = (Inr (), t)
    \<and> wallet_at t ''w1'' = Some w' \<and> Wallet_Status w' = WalletActive"
proof -
  let ?w = "wallet_of_row (sample_wallet_row WalletPending)"
  have w: "wallet_at sample_pending ''w1'' = Some ?w" "Wallet_Status ?w = WalletPending" "\<not> rival sample_pending ?w"
    by (simp_all add: sample_pending_wallet rival_def sample_wallet_row_def go_consts)
  have "sy_U sample_system = ascii_tables" "sy_chain sample_system = sample_client" by (simp_all add: sample_system_def)
  moreover have "Wallet_ChainID ?w = 4663" "Wallet_Address ?w = sample_address" by (simp_all add: sample_wallet_row_def)
  ultimately show ?thesis
    using verification_completes [OF sample_pending_wallet(1,2) w, of sample_system "[]"] sample_client_answers by fastforce
qed

end
