(* ===== verification/Processes.thy ===== *)
theory Processes
  imports System
begin

text \<open>
  The main packages: \<open>cmd/bot\<close>, \<open>cmd/api\<close>, \<open>cmd/worker\<close> and \<open>cmd/healthcheck\<close>, with what they
  start: the HTTP server (\<open>httpapi/server.go\<close>), the Asynq server (\<open>queue/server.go\<close>), the
  scheduler, build information and the logger's level. The loops of the libraries (long
  polling, \<open>ListenAndServe\<close>, the Asynq server, the head subscription, \<open>errgroup\<close>) are parameters
  that are handed the program's handlers.
\<close>

section \<open>Observability\<close>

datatype slog_level = LevelDebug | LevelInfo | LevelWarn | LevelError

definition parseLevel :: "unicode \<Rightarrow> string \<Rightarrow> slog_level" where
  "parseLevel U s =
     (let v = ToLower U (TrimSpace s) in
      if v = ''debug'' then LevelDebug
      else if v = ''warn'' \<or> v = ''warning'' then LevelWarn
      else if v = ''error'' then LevelError
      else LevelInfo)"

record Info =
  Info_Version :: string
  Info_Commit :: string
  Info_Date :: string
  Info_GoVersion :: string

text \<open>The stamps of the Go toolchain fill what the linker left empty; the first of a kind wins.\<close>

fun vcs_stamps :: "(string \<times> string) list \<Rightarrow> Info \<Rightarrow> Info" where
  "vcs_stamps [] i = i"
| "vcs_stamps ((key, v) # settings) i = vcs_stamps settings
     (if key = ''vcs.revision'' then (if Info_Commit i = [] then i\<lparr>Info_Commit := v\<rparr> else i)
      else if key = ''vcs.time'' then (if Info_Date i = [] then i\<lparr>Info_Date := v\<rparr> else i)
      else i)"

text \<open>\<open>buildinfo.Get\<close>: the linked values and what \<open>debug.ReadBuildInfo\<close> reports.\<close>

definition buildinfo_Get :: "string \<times> string \<times> string \<Rightarrow> (string \<times> (string \<times> string) list) option \<Rightarrow> Info" where
  "buildinfo_Get ldflags bi =
     (let i = (case ldflags of (version, commit, date) \<Rightarrow>
        \<lparr>Info_Version = version, Info_Commit = commit, Info_Date = date, Info_GoVersion = []\<rparr>) in
      case bi of None \<Rightarrow> i | Some (go_version, settings) \<Rightarrow> vcs_stamps settings (i\<lparr>Info_GoVersion := go_version\<rparr>))"

definition infoJSON :: "Info \<Rightarrow> json" where
  "infoJSON i = JObj ([(''version'', JStr (Info_Version i))]
     @ (if Info_Commit i = [] then [] else [(''commit'', JStr (Info_Commit i))])
     @ (if Info_Date i = [] then [] else [(''date'', JStr (Info_Date i))])
     @ [(''go_version'', JStr (Info_GoVersion i))])"

section \<open>Queue and scheduler\<close>

definition QueueMaintenance :: string where [go_consts]: "QueueMaintenance = ''maintenance''"

record RedisClientOpt =
  RO_Addr :: string
  RO_Password :: string
  RO_DB :: int
  RO_PoolSize :: int

definition RedisOpt :: "RedisConfig \<Rightarrow> RedisClientOpt" where
  "RedisOpt cfg = \<lparr>RO_Addr = RC_Addr cfg, RO_Password = RC_Password cfg, RO_DB = RC_DB cfg, RO_PoolSize = RC_PoolSize cfg\<rparr>"

text \<open>The configuration of the Asynq server; the error handler only logs.\<close>

record asynq_config =
  AC_Concurrency :: int
  AC_Queues :: "(string \<times> int) list"
  AC_StrictPriority :: bool
  AC_ShutdownTimeout :: duration
  AC_RetryDelayFunc :: "nat \<Rightarrow> duration"

definition NewServer :: "WorkerConfig \<Rightarrow> asynq_config" where
  "NewServer cfg = \<lparr>AC_Concurrency = WC_Concurrency cfg, AC_Queues = WC_Queues cfg, AC_StrictPriority = False,
     AC_ShutdownTimeout = WC_ShutdownTimeout cfg, AC_RetryDelayFunc = RetryDelay\<rparr>"

text \<open>The periodic tasks: cron line, task type (the payload is nil), options.\<close>

definition scheduled :: "(string \<times> string \<times> asynq_option list) list" where
  "scheduled =
     [(''* * * * *'', TypeSystemHealthCheck, [OptQueue QueueMaintenance, OptMaxRetry 1, OptTimeout (30 * second), OptRetention hour]),
      (''* * * * *'', TypeChainSyncHead, [OptQueue QueueMaintenance, OptMaxRetry 3, OptTimeout (30 * second), OptRetention hour])]"

section \<open>The libraries\<close>

text \<open>The order in which the \<open>n\<close> goroutines of a health check run, as the scheduler picks it.\<close>

type_synonym scheduler = "nat \<Rightarrow> nat list"

definition check_order :: "'s HealthChecker \<Rightarrow> scheduler \<Rightarrow> nat list" where
  "check_order h perm = perm (length (component_names h))"

text \<open>How \<open>ListenAndServe\<close> and the cancellation race: what ended the wait.\<close>

datatype listen_end = ServerClosed | ListenFailed error | Cancelled

text \<open>A request to the API's server.\<close>

datatype http_call = Healthz | Readyz | VersionInfo | MiniApp route http_request

text \<open>
  \<open>'z\<close> is the world outside the tables. The clients made from a handle, the constructors and
  the loops; a loop takes the handlers it calls and runs until the process is told to stop.
\<close>

record 'z libs =
  lb_drivers :: "'z drivers"
  lb_migrations :: "'z pgdb_scheme migrations"
  lb_parsers :: text_parsers
  lb_U :: unicode
  lb_F :: formats
  lb_P :: primitives
  lb_J :: decoders
  lb_rfc3339 :: "time \<Rightarrow> string"
  lb_rfc3339nano :: "time \<Rightarrow> string"
  lb_clock :: "'z pgdb_scheme \<Rightarrow> time"
  lb_outside_clock :: "'z \<Rightarrow> time"
  lb_linked :: "string \<times> string \<times> string"
  lb_build_info :: "(string \<times> (string \<times> string) list) option"
  rds_commands :: "handle \<Rightarrow> 'z redis"
  asynq_NewClient :: "RedisClientOpt \<Rightarrow> 'z \<Rightarrow> handle \<times> 'z"
  asynq_CloseClient :: "handle \<Rightarrow> 'z \<Rightarrow> error option \<times> 'z"
  asynq_commands :: "handle \<Rightarrow> 'z asynq_client"
  tgbot_New :: "string \<Rightarrow> ('z, 'z TelegramAPI) op"
  tgbot_poll :: "(scheduler \<Rightarrow> SDK_Message option \<Rightarrow> 'z pgdb_scheme \<Rightarrow> 'z pgdb_scheme) \<Rightarrow> 'z pgdb_scheme \<Rightarrow> 'z pgdb_scheme"
  http_listen :: "string \<Rightarrow> (scheduler \<Rightarrow> http_call \<Rightarrow> 'z pgdb_scheme \<Rightarrow> response \<times> 'z pgdb_scheme)
    \<Rightarrow> 'z pgdb_scheme \<Rightarrow> listen_end \<times> 'z pgdb_scheme"
  http_NotFound :: response
  http_Shutdown :: "duration \<Rightarrow> ('z, unit) op"
  head_Watcher :: "HeadSubscriber \<Rightarrow> 'z pgdb_scheme HeadWatcher"
  head_Run :: "HeadSubscriber \<Rightarrow> (BlockRef \<Rightarrow> 'z pgdb_scheme \<Rightarrow> 'z pgdb_scheme) \<Rightarrow> ('z pgdb_scheme, unit) op"
  asynq_Serve :: "RedisClientOpt \<Rightarrow> asynq_config \<Rightarrow> (scheduler \<Rightarrow> task \<Rightarrow> ('z pgdb_scheme, unit) op option)
    \<Rightarrow> ('z pgdb_scheme, unit) op"
  asynq_Shutdown :: "'z \<Rightarrow> 'z"
  sched_New :: "RedisClientOpt \<Rightarrow> 'z \<Rightarrow> handle \<times> 'z"
  sched_Register :: "handle \<Rightarrow> string \<Rightarrow> string \<Rightarrow> asynq_option list \<Rightarrow> ('z, unit) op"
  sched_Start :: "handle \<Rightarrow> ('z, unit) op"
  sched_Shutdown :: "handle \<Rightarrow> 'z \<Rightarrow> 'z"
  wait_Done :: "'z \<Rightarrow> 'z"
  errgroup :: "('z pgdb_scheme, unit) op list \<Rightarrow> ('z pgdb_scheme, unit) op"

section \<open>Starting and stopping a process\<close>

text \<open>A process without a Telegram client calls none.\<close>

definition nil_api :: "'z TelegramAPI" where
  "nil_api = \<lparr>SendMessage = (\<lambda>c m. throw nil_call), SetMyCommands = (\<lambda>m. throw nil_call), GetMe = throw nil_call, API_Start = (\<lambda>s. s)\<rparr>"

definition lb_info :: "'z libs \<Rightarrow> Info" where
  "lb_info W = buildinfo_Get (lb_linked W) (lb_build_info W)"

definition wire :: "'z libs \<Rightarrow> Config \<Rightarrow> 'z Client \<Rightarrow> handle \<Rightarrow> handle \<Rightarrow> 'z system" where
  "wire W cfg chain rdb q = \<lparr>sy_U = lb_U W, sy_F = lb_F W, sy_P = lb_P W, sy_J = lb_J W, sy_rfc3339 = lb_rfc3339 W,
     sy_cfg = cfg, sy_version = Info_Version (lb_info W), sy_clock = lb_clock W, sy_outside_clock = lb_outside_clock W,
     sy_chain = chain, sy_redis = rds_commands W rdb, sy_redis_ping = rds_Ping (lb_drivers W) rdb (3 * second),
     sy_asynq = asynq_commands W q, sy_api = nil_api\<rparr>"

text \<open>
  What the three \<open>run\<close> functions share: load the configuration, refuse to start (\<open>check\<close>), open
  the dependencies and the queue client, run the body with both closed when it returns.
\<close>

definition process :: "'z libs \<Rightarrow> env \<Rightarrow> (Config \<Rightarrow> error option) \<Rightarrow> (Config \<Rightarrow> 'z system \<Rightarrow> ('z pgdb_scheme, unit) op)
    \<Rightarrow> ('z pgdb_scheme, unit) op" where
  "process W env check body = (case Load (lb_U W) (lb_parsers W) env of
       Inl err \<Rightarrow> throw err
     | Inr cfg \<Rightarrow> (case check cfg of
         Some err \<Rightarrow> throw err
       | None \<Rightarrow>
         attempt (bootstrap_New (lb_U W) (lb_drivers W) (lb_migrations W) cfg [WithPostgres, WithRedis, WithChain]) throw (\<lambda>deps.
           deferred (\<lambda>s. snd (outside_call (Deps_Close deps) s)) (\<lambda>s.
             case outside_call (asynq_NewClient W (RedisOpt (Cfg_Redis cfg))) s of (q, s1) \<Rightarrow>
               deferred (\<lambda>s. snd (outside_call (asynq_CloseClient W q) s))
                 (case (dep_Chain deps, dep_Redis deps) of
                    (Some chain, Some rdb) \<Rightarrow> body cfg (wire W cfg chain rdb q)
                  | _ \<Rightarrow> throw nil_call) s1))))"

text \<open>\<open>err != nil && !errors.Is(err, context.Canceled)\<close>, in the \<open>run\<close> functions and in \<open>main\<close>.\<close>

definition unless_canceled :: "('s, unit) op \<Rightarrow> ('s, unit) op" where
  "unless_canceled m = attempt m
     (\<lambda>err. if errors_Is err (Foreign ContextCanceled) then ok () else throw err) ok"

definition exit_code :: "error + unit \<Rightarrow> int" where
  "exit_code r = (case r of Inr _ \<Rightarrow> 0 | Inl err \<Rightarrow> if errors_Is err (Foreign ContextCanceled) then 0 else 1)"

section \<open>The bot\<close>

text \<open>
  The router is built once; the schedules are those of the health checks it runs. The SDK
  hands every update to \<open>handleUpdate\<close>.
\<close>

definition bot_handler :: "'z system \<Rightarrow> scheduler \<Rightarrow> SDK_Message option \<Rightarrow> 'z pgdb_scheme \<Rightarrow> 'z pgdb_scheme" where
  "bot_handler Y perm m s = (case sy_router Y (check_order (sy_health Y None) perm) of
       Inl err \<Rightarrow> s
     | Inr r \<Rightarrow> handleUpdate (sy_U Y) (sy_F Y) \<lparr>bot_api = outside_api (sy_api Y), bot_router = r\<rparr> m s)"

definition bot_api_of :: "'z libs \<Rightarrow> 'z system \<Rightarrow> string \<Rightarrow> ('z pgdb_scheme, 'z pgdb_scheme TelegramAPI) op" where
  "bot_api_of W Y token = attempt (outside (tgbot_New W token)) throw
     (\<lambda>api. ok ((outside_api api)\<lparr>API_Start := tgbot_poll W (bot_handler (Y\<lparr>sy_api := api\<rparr>))\<rparr>))"

definition bot_body :: "'z libs \<Rightarrow> Config \<Rightarrow> 'z system \<Rightarrow> ('z pgdb_scheme, unit) op" where
  "bot_body W cfg Y = (case sy_router Y [0, 1, 2] of
       Inl err \<Rightarrow> throw err
     | Inr r \<Rightarrow> attempt (NewBot (TC_BotToken (Cfg_Telegram cfg)) (Some r) (bot_api_of W Y)) throw
         (\<lambda>bot. unless_canceled (Bot_Run bot)))"

definition bot_run :: "'z libs \<Rightarrow> env \<Rightarrow> ('z pgdb_scheme, unit) op" where
  "bot_run W env = process W env
     (\<lambda>cfg. if \<not> Enabled (Cfg_Telegram cfg) then Some (New ''TELEGRAM_BOT_TOKEN is not set'') else None) (bot_body W)"

section \<open>The API\<close>

text \<open>
  \<open>httpapi.New\<close>: the routes. Without authentication the Mini App's paths are not found. The
  middleware for request IDs, recovery from panics and the timeout of 15 seconds is left out.
\<close>

definition httpapi_New :: "'z libs \<Rightarrow> 'z system \<Rightarrow> 'z pgdb_scheme HeadWatcher option \<Rightarrow> 'z pgdb_scheme MiniAppDeps \<Rightarrow>
    scheduler \<Rightarrow> http_call \<Rightarrow> 'z pgdb_scheme \<Rightarrow> response \<times> 'z pgdb_scheme" where
  "httpapi_New W Y watcher mini perm call s = (case call of
       Healthz \<Rightarrow> healthz s
     | Readyz \<Rightarrow> readyz (sy_rfc3339 Y) (lb_rfc3339nano W) (check_order (sy_health Y watcher) perm) (sy_health Y watcher) s
     | VersionInfo \<Rightarrow> (writeJSON 200 (infoJSON (lb_info W)), s)
     | MiniApp rt req \<Rightarrow> (case mountMiniApp (sy_U Y) (sy_J Y) (sy_rfc3339 Y) mini of
         None \<Rightarrow> (http_NotFound W, s)
       | Some serve \<Rightarrow> serve rt req s))"

definition httpapi_Run :: "'z libs \<Rightarrow> string \<Rightarrow> (scheduler \<Rightarrow> http_call \<Rightarrow> 'z pgdb_scheme \<Rightarrow> response \<times> 'z pgdb_scheme) \<Rightarrow>
    duration \<Rightarrow> ('z pgdb_scheme, unit) op" where
  "httpapi_Run W addr handler timeout s = (case http_listen W addr handler s of
       (ListenFailed err, t) \<Rightarrow> (Inl (Wrap ''http server: '' err []), t)
     | (ServerClosed, t) \<Rightarrow> (Inr (), t)
     | (Cancelled, t) \<Rightarrow> attempt (outside (http_Shutdown W timeout)) (\<lambda>err. throw (Wrap ''http shutdown: '' err [])) ok t)"

definition api_head :: "Config \<Rightarrow> HeadSubscriber option" where
  "api_head cfg = (let ch = Cfg_Chain cfg in
     if CC_WSURL ch \<noteq> [] then Some (NewHeadSubscriber (CC_WSURL ch) (CC_ChainID ch) (CC_RequestTimeout ch) 0 0) else None)"

text \<open>The two goroutines: the HTTP server and, with a web socket configured, the head subscription.\<close>

definition api_group :: "'z libs \<Rightarrow> Config \<Rightarrow> 'z system \<Rightarrow> 'z pgdb_scheme MiniAppDeps \<Rightarrow> ('z pgdb_scheme, unit) op" where
  "api_group W cfg Y mini =
     (let head = api_head cfg; watcher = map_option (head_Watcher W) head in
      errgroup W
        (httpapi_Run W (Cfg_HTTPAddr cfg) (httpapi_New W Y watcher mini) (Cfg_ShutdownTimeout cfg)
         # (case head of None \<Rightarrow> []
            | Some hs \<Rightarrow> [unless_canceled (head_Run W hs (\<lambda>ref s. snd (ChainSync_Record (sy_chain_sync Y) ref s)))])))"

definition api_body :: "'z libs \<Rightarrow> Config \<Rightarrow> 'z system \<Rightarrow> ('z pgdb_scheme, unit) op" where
  "api_body W cfg Y =
     after (\<lambda>s. snd (LastSeen (sy_chain_sync Y) s))
       (case api_miniapp Y of
          Inl err \<Rightarrow> throw err
        | Inr mini \<Rightarrow> unless_canceled (api_group W cfg Y mini))"

definition api_run :: "'z libs \<Rightarrow> env \<Rightarrow> ('z pgdb_scheme, unit) op" where
  "api_run W env = process W env (\<lambda>cfg. None) (api_body W)"

section \<open>The worker\<close>

text \<open>Registering a periodic task that fails is logged and passed over.\<close>

fun register_all :: "'z libs \<Rightarrow> handle \<Rightarrow> (string \<times> string \<times> asynq_option list) list \<Rightarrow> 'z \<Rightarrow> 'z" where
  "register_all W h [] z = z"
| "register_all W h ((cron, ty, opts) # es) z = register_all W h es (snd (sched_Register W h cron ty opts z))"

definition newScheduler :: "'z libs \<Rightarrow> Config \<Rightarrow> 'z \<Rightarrow> handle \<times> 'z" where
  "newScheduler W cfg z = (case sched_New W (RedisOpt (Cfg_Redis cfg)) z of (h, z1) \<Rightarrow> (h, register_all W h scheduled z1))"

definition runScheduler :: "'z libs \<Rightarrow> handle \<Rightarrow> ('z pgdb_scheme, unit) op" where
  "runScheduler W h = outside (attempt (sched_Start W h) throw (\<lambda>_. after (wait_Done W) (after (sched_Shutdown W h) (ok ()))))"

definition Server_Run :: "'z libs \<Rightarrow> Config \<Rightarrow> (scheduler \<Rightarrow> task \<Rightarrow> ('z pgdb_scheme, unit) op option) \<Rightarrow> ('z pgdb_scheme, unit) op" where
  "Server_Run W cfg handlers =
     attempt (asynq_Serve W (RedisOpt (Cfg_Redis cfg)) (NewServer (Cfg_Worker cfg)) handlers)
       (\<lambda>err. throw (Wrap ''start asynq server: '' err []))
       (\<lambda>_. after (\<lambda>s. snd (outside_call (\<lambda>z. ((), asynq_Shutdown W z)) s)) (ok ()))"

definition worker_group :: "'z libs \<Rightarrow> Config \<Rightarrow> 'z system \<Rightarrow> handle \<Rightarrow> ('z pgdb_scheme, unit) op" where
  "worker_group W cfg Y h =
     errgroup W [Server_Run W cfg (\<lambda>perm. worker_handler Y (check_order (sy_health Y None) perm)), runScheduler W h]"

definition worker_serve :: "'z libs \<Rightarrow> Config \<Rightarrow> 'z system \<Rightarrow> ('z pgdb_scheme, unit) op" where
  "worker_serve W cfg Y s = (case outside_call (newScheduler W cfg) s of (h, s1) \<Rightarrow>
     unless_canceled (worker_group W cfg Y h) s1)"

definition worker_body :: "'z libs \<Rightarrow> Config \<Rightarrow> 'z system \<Rightarrow> ('z pgdb_scheme, unit) op" where
  "worker_body W cfg Y =
     (if Enabled (Cfg_Telegram cfg)
      then attempt (outside (NewNotifier (TC_BotToken (Cfg_Telegram cfg)) (tgbot_New W))) throw
        (\<lambda>api. worker_serve W cfg (Y\<lparr>sy_api := api\<rparr>))
      else worker_serve W cfg Y)"

definition worker_run :: "'z libs \<Rightarrow> env \<Rightarrow> ('z pgdb_scheme, unit) op" where
  "worker_run W env = process W env (\<lambda>cfg. None) (worker_body W)"

section \<open>The health check command\<close>

definition healthcheck_main :: "env \<Rightarrow> (string \<Rightarrow> duration \<Rightarrow> error + int) \<Rightarrow> int" where
  "healthcheck_main env client_Get =
     (let addr = (if Getenv env ''HEALTHCHECK_URL'' = [] then ''http://127.0.0.1:8080/readyz'' else Getenv env ''HEALTHCHECK_URL'') in
      case client_Get addr (5 * second) of
        Inl err \<Rightarrow> 1
      | Inr status \<Rightarrow> if status \<noteq> 200 then 1 else 0)"

end
