(* ===== verification/ProcessRuns.thy ===== *)
theory ProcessRuns
  imports Processes Runs
begin

text \<open>
  What the main packages do as a whole. A process, from loading its configuration to its last
  deferred call, changes the tables only while it serves, with the handlers wired from the
  configuration it loaded, and it closes what it opened; neither needs an assumption on how
  the libraries schedule the handlers. When the libraries run the handlers one at a time, a
  process is moreover a run of the system (\<open>System\<close>). The order \<open>world_order\<close> and the operations
  that stay within one carry the proofs from the handlers to the loops and the whole process.
\<close>

section \<open>Orders on the states\<close>

text \<open>
  A transitive relation on the states that lets the world outside the tables move as it
  likes, such as "no table has changed" or "every wallet keeps its owner", and the operations
  that stay within it.
\<close>

definition world_order :: "('z pgdb_scheme \<Rightarrow> 'z pgdb_scheme \<Rightarrow> bool) \<Rightarrow> bool" where
  "world_order R \<longleftrightarrow> (\<forall>s t. same_db s t \<longrightarrow> R s t) \<and> (\<forall>s t u. R s t \<longrightarrow> R t u \<longrightarrow> R s u)"

definition stays :: "('s \<Rightarrow> 's \<Rightarrow> bool) \<Rightarrow> ('s, 'a) op \<Rightarrow> bool" where
  "stays R m \<longleftrightarrow> (\<forall>s. R s (snd (m s)))"

named_theorems stays_rules \<open>operations that stay within an order\<close>

lemma stays_same: "world_order R \<Longrightarrow> (\<And>s. same_db s (snd (m s))) \<Longrightarrow> stays R m"
  by (simp add: world_order_def stays_def)

lemma stays_ok [stays_rules]: "world_order R \<Longrightarrow> stays R (ok a)" and stays_throw [stays_rules]: "world_order R \<Longrightarrow> stays R (throw e)"
  by (simp_all add: world_order_def stays_def)

lemma stays_outside [stays_rules]: "world_order R \<Longrightarrow> stays R (outside m)"
  by (rule stays_same, assumption) (rule outside_same [OF prod.collapse [symmetric]])

lemma staysD: "stays R m \<Longrightarrow> m s = (r, t) \<Longrightarrow> R s t"
  by (metis stays_def snd_conv)

lemma world_orderD: "world_order R \<Longrightarrow> R s t \<Longrightarrow> R t u \<Longrightarrow> R s u" "world_order R \<Longrightarrow> same_db s t \<Longrightarrow> R s t"
  by (auto simp: world_order_def)

lemma stays_attempt [stays_rules]:
  assumes "world_order R" "stays R m" "\<And>e. stays R (h e)" "\<And>a. stays R (k a)"
  shows "stays R (attempt m h k)"
  unfolding stays_def
proof
  fix s
  obtain r t where run: "attempt m h k s = (r, t)" by fastforce
  then have "R s t"
    by (rule attempt_cases) (metis assms staysD world_orderD(1))+
  with run show "R s (snd (attempt m h k s))" by simp
qed

lemma stays_after [stays_rules]:
  "world_order R \<Longrightarrow> (\<And>s. R s (f s)) \<Longrightarrow> stays R k \<Longrightarrow> stays R (after f k)"
  unfolding stays_def after_def by (metis world_orderD(1))

lemma stays_unless_canceled [stays_rules]: "world_order R \<Longrightarrow> stays R m \<Longrightarrow> stays R (unless_canceled m)"
  unfolding unless_canceled_def by (intro stays_rules) (auto intro: stays_rules)

section \<open>Only serving changes the tables\<close>

text \<open>
  The system a process is wired to: the configuration it loaded, a chain client that \<open>Dial\<close>
  accepted for that configuration, a Redis client that answered, a queue client; and a
  Telegram client, which only some processes have.
\<close>

definition wired :: "'z libs \<Rightarrow> Config \<Rightarrow> 'z system \<Rightarrow> bool" where
  "wired W cfg Y \<longleftrightarrow> (\<exists>chain rdb q api z z1 y y1 x.
     dial_chain (lb_U W) (lb_drivers W) (Cfg_Chain cfg) z = (Inr chain, z1)
     \<and> redis_Connect (lb_drivers W) (Cfg_Redis cfg) y = (Inr rdb, y1)
     \<and> q = fst (asynq_NewClient W (RedisOpt (Cfg_Redis cfg)) x)
     \<and> Y = (wire W cfg chain rdb q)\<lparr>sy_api := api\<rparr>)"

lemma wired_api: "wired W cfg Y \<Longrightarrow> wired W cfg (Y\<lparr>sy_api := a\<rparr>)"
  by (force simp: wired_def)

lemma wired_cfg: "wired W cfg Y \<Longrightarrow> sy_cfg Y = cfg"
  by (auto simp: wired_def wire_def)

text \<open>
  The calls a process serves in: the SDK's polling loop with the bot's handler, the group of
  the HTTP server and the head subscription, the group of the Asynq server and the scheduler.
\<close>

definition bot_serving :: "'z libs \<Rightarrow> Config \<Rightarrow> 'z system \<Rightarrow> ('z pgdb_scheme, unit) op set" where
  "bot_serving W cfg Y = {\<lambda>s. (Inr (), tgbot_poll W (bot_handler Y) s)}"

definition api_serving :: "'z libs \<Rightarrow> Config \<Rightarrow> 'z system \<Rightarrow> ('z pgdb_scheme, unit) op set" where
  "api_serving W cfg Y = {api_group W cfg Y mini | mini. api_miniapp Y = Inr mini}"

definition worker_serving :: "'z libs \<Rightarrow> Config \<Rightarrow> 'z system \<Rightarrow> ('z pgdb_scheme, unit) op set" where
  "worker_serving W cfg Y = range (worker_group W cfg Y)"

lemma bot_body_serves:
  assumes "bot_body W cfg Y s = (r, t)"
  shows "\<exists>a. \<forall>R. world_order R \<longrightarrow> (\<forall>f \<in> bot_serving W cfg (Y\<lparr>sy_api := a\<rparr>). stays R f) \<longrightarrow> R s t"
proof (cases "sy_router Y [0, 1, 2]")
  case (Inr router)
  let ?new = "NewBot (TC_BotToken (Cfg_Telegram cfg)) (Some router) (bot_api_of W Y)"
  from assms have "attempt ?new throw (\<lambda>bot. unless_canceled (Bot_Run bot)) s = (r, t)"
    unfolding bot_body_def Inr sum.case .
  then show ?thesis
  proof (rule attempt_cases)
    fix err s1
    assume "?new s = (Inl err, s1)" "throw err s1 = (r, t)"
    then have "same_db s t"
      by (auto simp: NewBot_def bot_api_of_def elim!: attempt_cases split: if_splits intro: outside_same)
    then show ?thesis using world_orderD(2) by blast
  next
    fix bot s1
    assume "?new s = (Inr bot, s1)" and run: "unless_canceled (Bot_Run bot) s1 = (r, t)"
    then have "\<exists>a. same_db s s1 \<and> bot_api bot = (outside_api a)\<lparr>API_Start := tgbot_poll W (bot_handler (Y\<lparr>sy_api := a\<rparr>))\<rparr>"
      by (auto simp: NewBot_def bot_api_of_def elim!: attempt_cases split: if_splits dest!: outside_same)
    then obtain a where same: "same_db s s1"
      and api: "bot_api bot = (outside_api a)\<lparr>API_Start := tgbot_poll W (bot_handler (Y\<lparr>sy_api := a\<rparr>))\<rparr>" by blast
    have "R s t" if R: "world_order R" and serve: "\<forall>f \<in> bot_serving W cfg (Y\<lparr>sy_api := a\<rparr>). stays R f" for R
    proof -
      have poll: "R u (API_Start (bot_api bot) u)" for u
        using serve by (simp add: api bot_serving_def stays_def)
      have calls: "stays R (registerCommands bot)" "stays R (GetMe (bot_api bot))"
        by (auto simp: registerCommands_def api outside_api_def intro: stays_rules R)
      have "stays R (attempt (GetMe (bot_api bot)) (\<lambda>err. throw (Wrap ''telegram getMe: '' err []))
          (\<lambda>me. after (API_Start (bot_api bot)) (ok ())))"
        by (intro stays_rules calls poll R)
      then have "stays R (Bot_Run bot)"
        using calls(1) unfolding stays_def Bot_Run_def by (meson R world_orderD(1))
      from staysD [OF stays_unless_canceled [OF R this] run] have "R s1 t" .
      with same show "R s t" using world_orderD [OF R] by blast
    qed
    then show ?thesis by blast
  qed
qed (use assms in \<open>auto simp: bot_body_def dest: world_orderD(2)\<close>)

lemma api_body_serves:
  assumes "api_body W cfg Y s = (r, t)" "world_order R" "\<forall>f \<in> api_serving W cfg Y. stays R f"
  shows "R s t"
proof -
  have "R u (snd (LastSeen (sy_chain_sync Y) u))" for u
  proof -
    obtain q v where run: "LastSeen (sy_chain_sync Y) u = (q, v)" by fastforce
    then have "same_db u v"
      by (auto simp: LastSeen_def sy_chain_sync_def NewChainSync_def SyncStateRepo_def SyncStateRepo_LoadHead_def
          elim!: attempt_cases split: if_splits dest: query_same)
    then show ?thesis using world_orderD(2) [OF assms(2)] run by simp
  qed
  moreover have "stays R (case api_miniapp Y of Inl err \<Rightarrow> throw err | Inr mini \<Rightarrow> unless_canceled (api_group W cfg Y mini))"
    using assms(2,3) by (cases "api_miniapp Y") (auto simp: api_serving_def intro: stays_rules)
  ultimately have "stays R (api_body W cfg Y)"
    unfolding api_body_def by (intro stays_after assms(2))
  from staysD [OF this assms(1)] show ?thesis .
qed

lemma worker_serve_serves:
  assumes "worker_serve W cfg Y s = (r, t)" "world_order R" "\<forall>f \<in> worker_serving W cfg Y. stays R f"
  shows "R s t"
proof -
  obtain h s1 where h: "outside_call (newScheduler W cfg) s = (h, s1)" by fastforce
  then have "R s s1" using world_orderD(2) [OF assms(2) outside_call_same [of s "newScheduler W cfg"]] by simp
  moreover have "stays R (unless_canceled (worker_group W cfg Y h))"
    using assms(3) by (intro stays_rules assms(2)) (simp add: worker_serving_def)
  ultimately show ?thesis
    using assms(1) h world_orderD(1) [OF assms(2)] by (auto simp: worker_serve_def dest!: staysD)
qed

lemma worker_body_serves:
  assumes "worker_body W cfg Y s = (r, t)"
  shows "\<exists>a. \<forall>R. world_order R \<longrightarrow> (\<forall>f \<in> worker_serving W cfg (Y\<lparr>sy_api := a\<rparr>). stays R f) \<longrightarrow> R s t"
proof (cases "Enabled (Cfg_Telegram cfg)")
  case True
  with assms have "attempt (outside (NewNotifier (TC_BotToken (Cfg_Telegram cfg)) (tgbot_New W))) throw
      (\<lambda>api. worker_serve W cfg (Y\<lparr>sy_api := api\<rparr>)) s = (r, t)" by (simp add: worker_body_def)
  then show ?thesis
  proof (rule attempt_cases)
    fix err s1
    assume "outside (NewNotifier (TC_BotToken (Cfg_Telegram cfg)) (tgbot_New W)) s = (Inl err, s1)" "throw err s1 = (r, t)"
    then have "same_db s t" by (auto dest: outside_same)
    then show ?thesis by (auto dest: world_orderD(2))
  next
    fix a s1
    assume "outside (NewNotifier (TC_BotToken (Cfg_Telegram cfg)) (tgbot_New W)) s = (Inr a, s1)"
      and serve: "worker_serve W cfg (Y\<lparr>sy_api := a\<rparr>) s1 = (r, t)"
    then have "same_db s s1" by (auto dest: outside_same)
    then show ?thesis
      by (intro exI [of _ a] allI impI) (metis serve worker_serve_serves world_orderD)
  qed
next
  case False
  with assms have "worker_serve W cfg (Y\<lparr>sy_api := sy_api Y\<rparr>) s = (r, t)" by (simp add: worker_body_def)
  then show ?thesis by (intro exI [of _ "sy_api Y"]) (blast intro: worker_serve_serves)
qed

text \<open>The three processes as their main package's body and the calls that serve.\<close>

definition processes :: "'z libs \<Rightarrow> env \<Rightarrow>
    (('z pgdb_scheme, unit) op \<times> (Config \<Rightarrow> 'z system \<Rightarrow> ('z pgdb_scheme, unit) op)
     \<times> (Config \<Rightarrow> 'z system \<Rightarrow> ('z pgdb_scheme, unit) op set)) set" where
  "processes W env = {(bot_run W env, bot_body W, bot_serving W), (api_run W env, api_body W, api_serving W),
     (worker_run W env, worker_body W, worker_serving W)}"

lemma body_serves:
  assumes "(m, body, serving) \<in> processes W env" "body cfg Y s = (r, t)" "wired W cfg Y"
  shows "\<exists>Y'. wired W cfg Y' \<and> (\<forall>R. world_order R \<longrightarrow> (\<forall>f \<in> serving cfg Y'. stays R f) \<longrightarrow> R s t)"
proof -
  consider "body = bot_body W" "serving = bot_serving W" | "body = api_body W" "serving = api_serving W"
    | "body = worker_body W" "serving = worker_serving W" using assms(1) by (auto simp: processes_def)
  then show ?thesis
  proof cases
    case 1
    with bot_body_serves assms(2) wired_api [OF assms(3)] show ?thesis by metis
  next
    case 2
    with api_body_serves assms(2,3) show ?thesis by metis
  next
    case 3
    with worker_body_serves assms(2) wired_api [OF assms(3)] show ?thesis by metis
  qed
qed

text \<open>How a process goes: it refuses to start, its startup fails, or its body runs between opening and closing.\<close>

lemma process_cases:
  assumes "process W env check body s = (r, t)"
  obtains (refused) err where "r = Inl err" "t = s"
      "case Load (lb_U W) (lb_parsers W) env of Inl e \<Rightarrow> err = e | Inr cfg \<Rightarrow> check cfg = Some err"
    | (failed) cfg err where "Load (lb_U W) (lb_parsers W) env = Inr cfg" "check cfg = None"
        "bootstrap_New (lb_U W) (lb_drivers W) (lb_migrations W) cfg [WithPostgres, WithRedis, WithChain] s = (Inl err, t)"
    | (ran) cfg deps chain rdb q s0 s1 t1 where "Load (lb_U W) (lb_parsers W) env = Inr cfg" "check cfg = None"
        "bootstrap_New (lb_U W) (lb_drivers W) (lb_migrations W) cfg [WithPostgres, WithRedis, WithChain] s = (Inr deps, s0)"
        "outside_call (asynq_NewClient W (RedisOpt (Cfg_Redis cfg))) s0 = (q, s1)"
        "wired W cfg (wire W cfg chain rdb q)" "body cfg (wire W cfg chain rdb q) s1 = (r, t1)"
        "t = snd (outside_call (Deps_Close deps) (snd (outside_call (asynq_CloseClient W q) t1)))"
proof (cases "Load (lb_U W) (lb_parsers W) env")
  case (Inl e)
  with assms refused show thesis by (simp add: process_def)
next
  case load: (Inr cfg)
  let ?opts = "[WithPostgres, WithRedis, WithChain]"
  let ?new = "bootstrap_New (lb_U W) (lb_drivers W) (lb_migrations W) cfg ?opts"
  obtain q1 s0 where new: "?new s = (q1, s0)" by fastforce
  consider err where "check cfg = Some err" | err where "check cfg = None" "q1 = Inl err"
    | deps where "check cfg = None" "q1 = Inr deps" by (cases "check cfg"; cases q1) auto
  then show thesis
  proof cases
    case 1
    with assms load refused show thesis by (simp add: process_def)
  next
    case (2 err)
    with assms load new failed show thesis by (simp add: process_def attempt_def)
  next
    case (3 deps)
    have "outside (connect_deps (lb_U W) (lb_drivers W) cfg (fold (\<lambda>opt. opt) ?opts no_options)) s = (Inr deps, s0)"
      using new 3(2) by (simp add: bootstrap_New_def Let_def attempt_def ok_def WithPostgres_def WithRedis_def WithChain_def no_options_def)
    then have deps: "connect_deps (lb_U W) (lb_drivers W) cfg (fold (\<lambda>opt. opt) ?opts no_options) (pgdb.more s) = (Inr deps, pgdb.more s0)"
      by (auto simp: outside_def split: prod.splits)
    obtain chain rdb z z1 y y1 where "dep_Chain deps = Some chain" "dep_Redis deps = Some rdb"
      and made: "dial_chain (lb_U W) (lb_drivers W) (Cfg_Chain cfg) z = (Inr chain, z1)"
        "redis_Connect (lb_drivers W) (Cfg_Redis cfg) y = (Inr rdb, y1)"
      using connect_connected [OF deps] by (auto simp: WithPostgres_def WithRedis_def WithChain_def)
    moreover obtain q s1 where q: "outside_call (asynq_NewClient W (RedisOpt (Cfg_Redis cfg))) s0 = (q, s1)" by fastforce
    moreover obtain r1 t1 where run: "body cfg (wire W cfg chain rdb q) s1 = (r1, t1)" by fastforce
    ultimately have "r = r1" "t = snd (outside_call (Deps_Close deps) (snd (outside_call (asynq_CloseClient W q) t1)))"
      using assms load new 3 by (simp_all add: process_def attempt_def deferred_def)
    moreover have "wired W cfg (wire W cfg chain rdb q)"
    proof -
      have "q = fst (asynq_NewClient W (RedisOpt (Cfg_Redis cfg)) (pgdb.more s0))"
        using q more_outside(4) [of "asynq_NewClient W (RedisOpt (Cfg_Redis cfg))" s0] by simp
      moreover have "wire W cfg chain rdb q = (wire W cfg chain rdb q)\<lparr>sy_api := sy_api (wire W cfg chain rdb q)\<rparr>" by simp
      ultimately show ?thesis unfolding wired_def using made by blast
    qed
    ultimately show thesis using ran [OF load 3(1)] new 3(2) q run by blast
  qed
qed

lemma process_startup:
  assumes "process W env check body s = (r, t)"
  obtains (refused) err where "r = Inl err" "t = s"
      "case Load (lb_U W) (lb_parsers W) env of Inl e \<Rightarrow> err = e | Inr cfg \<Rightarrow> check cfg = Some err"
    | (failed) cfg where "Load (lb_U W) (lb_parsers W) env = Inr cfg" "check cfg = None" "same_db s t"
    | (ran) cfg Y s1 t1 where "Load (lb_U W) (lb_parsers W) env = Inr cfg" "check cfg = None" "wired W cfg Y"
        "same_db s s1" "body cfg Y s1 = (r, t1)" "same_db t1 t"
proof -
  have plain: "\<not> o_migrate (fold (\<lambda>opt. opt) [WithPostgres, WithRedis, WithChain] no_options)"
    by (simp add: WithPostgres_def WithRedis_def WithChain_def no_options_def)
  from assms show thesis
  proof (cases rule: process_cases)
    case (refused err)
    then show thesis by (rule that(1))
  next
    case (failed cfg err)
    with New_same [OF _ plain] show thesis by (blast intro: that(2))
  next
    case (ran cfg deps chain rdb q s0 s1 t1)
    have "same_db s s1"
      using New_same [OF ran(3) plain] ran(4) outside_call_same [of s0 "asynq_NewClient W (RedisOpt (Cfg_Redis cfg))"]
      by (auto intro: same_db_trans)
    moreover have "same_db t1 t" unfolding ran(7) by (rule same_db_trans [OF outside_call_same outside_call_same])
    ultimately show thesis by (rule that(3) [OF ran(1,2,5) _ ran(6)])
  qed
qed

text \<open>
  C8. A process changes the tables only by serving. Take any order the calls it serves in stay within:
  the polling loop with the bot's handler, the group of the HTTP server and the head
  subscription, the group of the Asynq server and the scheduler, each over the handlers of a
  system wired from the loaded configuration to clients that passed their checks, whatever
  the library does with them and however it interleaves them. Then the process, from its
  first to its last step, stays within that order: starting, refusing to start, failing to
  start and shutting down change no table, apply no migration, and nothing else is served. A
  configuration that does not load, or a bot without a token, ends the process before
  anything happens.
\<close>

theorem process_changes_tables_only_by_serving:
  assumes "world_order R" "(m, body, serving) \<in> processes W env"
    and "\<And>cfg Y f. Load (lb_U W) (lb_parsers W) env = Inr cfg \<Longrightarrow> wired W cfg Y \<Longrightarrow> f \<in> serving cfg Y \<Longrightarrow> stays R f"
    and "m s = (r, t)"
  shows "R s t \<and> (case Load (lb_U W) (lb_parsers W) env of
      Inl err \<Rightarrow> r = Inl err \<and> t = s
    | Inr cfg \<Rightarrow> m = bot_run W env \<and> \<not> Enabled (Cfg_Telegram cfg) \<longrightarrow> r = Inl (New ''TELEGRAM_BOT_TOKEN is not set'') \<and> t = s)"
proof
  obtain check where m: "m = process W env check body"
    using assms(2) by (auto simp: processes_def bot_run_def api_run_def worker_run_def)
  from assms(4) [unfolded m] show "R s t"
  proof (cases rule: process_startup)
    case (ran cfg Y s1 t1)
    from body_serves [OF assms(2) ran(5,3)] obtain Y' where "wired W cfg Y'"
      and serve: "\<And>R. world_order R \<Longrightarrow> \<forall>f \<in> serving cfg Y'. stays R f \<Longrightarrow> R s1 t1" by blast
    with assms(1,3) ran(1) have "R s1 t1" by blast
    with world_orderD [OF assms(1)] ran(4,6) show ?thesis by blast
  qed (use world_orderD(2) [OF assms(1)] in auto)
  show "case Load (lb_U W) (lb_parsers W) env of
      Inl err \<Rightarrow> r = Inl err \<and> t = s
    | Inr cfg \<Rightarrow> m = bot_run W env \<and> \<not> Enabled (Cfg_Telegram cfg) \<longrightarrow> r = Inl (New ''TELEGRAM_BOT_TOKEN is not set'') \<and> t = s"
    using assms(4) m by (auto simp: process_def bot_run_def split: sum.splits)
qed

section \<open>Runs of the system\<close>

text \<open>
  The libraries that run the handlers they are given one at a time, each to its end, while the
  world outside the tables moves as it likes; the goroutines of an \<open>errgroup\<close> do what their
  functions do. The real libraries may interleave handlers, so this is an assumption on the
  schedule and not on what they document: it is what makes a process a run of the system,
  whose steps are whole handlers.
\<close>

definition permutes :: "scheduler \<Rightarrow> bool" where
  "permutes perm \<longleftrightarrow> (\<forall>n. distinct (perm n) \<and> set (perm n) = {..<n})"

definition serial_loops :: "'z libs \<Rightarrow> bool" where
  "serial_loops W \<longleftrightarrow> (\<forall>R. world_order R \<longrightarrow>
     (\<forall>f. (\<forall>perm m s. permutes perm \<longrightarrow> R s (f perm m s)) \<longrightarrow> (\<forall>s. R s (tgbot_poll W f s)))
   \<and> (\<forall>addr f. (\<forall>perm c s. permutes perm \<longrightarrow> R s (snd (f perm c s))) \<longrightarrow> (\<forall>s. R s (snd (http_listen W addr f s))))
   \<and> (\<forall>hs f. (\<forall>b s. R s (f b s)) \<longrightarrow> stays R (head_Run W hs f))
   \<and> (\<forall>ro c f. (\<forall>perm tk h. permutes perm \<longrightarrow> f perm tk = Some h \<longrightarrow> stays R h) \<longrightarrow> stays R (asynq_Serve W ro c f))
   \<and> (\<forall>fs. (\<forall>f \<in> set fs. stays R f) \<longrightarrow> stays R (errgroup W fs)))"

text \<open>Where a run of the system leads.\<close>

definition reaches :: "'z system \<Rightarrow> 'z pgdb_scheme \<Rightarrow> 'z pgdb_scheme \<Rightarrow> bool" where
  "reaches Y s t \<longleftrightarrow> (\<exists>es. sys_run Y s es t)"

lemma sys_run_append:
  assumes "sys_run Y t fs u" "sys_run Y s es t"
  shows "sys_run Y s (es @ fs) u"
  using assms
proof (induction rule: sys_run.induct)
  case (move t fs u ev v)
  then show ?case using sys_run.move [of Y s "es @ fs" u ev v] by simp
qed simp

lemma reaches_step: "sys_step Y s ev t \<Longrightarrow> reaches Y s t"
  unfolding reaches_def using sys_run.move [OF sys_run.start] by blast

lemma reaches_world [simp]: "world_order (reaches Y)"
proof -
  have "reaches Y s t" if "same_db s t" for s t using reaches_step [OF sys_step.world [OF that]] .
  moreover have "reaches Y s u" if "reaches Y s t" "reaches Y t u" for s t u
    using that unfolding reaches_def by (blast intro: sys_run_append)
  ultimately show ?thesis by (simp add: world_order_def)
qed

lemmas reaches_refl [simp] = world_orderD(2) [OF reaches_world same_db_refl]

lemma reaches_from: "same_db s t \<Longrightarrow> reaches Y t u \<Longrightarrow> reaches Y s u" and reaches_then: "reaches Y s t \<Longrightarrow> same_db t u \<Longrightarrow> reaches Y s u"
  using world_orderD [OF reaches_world] by blast+

lemma permutes_schedule: "permutes perm \<Longrightarrow> schedule_of h (check_order h perm)"
  by (simp add: permutes_def schedule_of_def check_order_def)

subsection \<open>Every handler is a step\<close>

lemma bot_handler_reaches:
  assumes "permutes perm"
  shows "reaches Y s (bot_handler Y perm m s)"
proof (cases "sy_router Y (check_order (sy_health Y None) perm)")
  case (Inr r)
  from reaches_step [OF sys_step.message [OF this permutes_schedule [OF assms]]] show ?thesis by (simp add: bot_handler_def Inr)
qed (simp add: bot_handler_def)

lemma httpapi_reaches:
  assumes "permutes perm" "api_miniapp Y = Inr mini"
  shows "reaches Y s (snd (httpapi_New W Y watcher mini perm call s))"
proof (cases call)
  case Readyz
  let ?h = "sy_health Y watcher"
  obtain report t where run: "Check (sy_rfc3339 Y) (check_order ?h perm) ?h s = (report, t)" by fastforce
  from sys_step.probe [OF permutes_schedule [OF assms(1)] this] run Readyz show ?thesis
    by (simp add: httpapi_New_def readyz_def reaches_step)
next
  case (MiniApp rt req)
  show ?thesis
  proof (cases "mountMiniApp (sy_U Y) (sy_J Y) (sy_rfc3339 Y) mini")
    case (Some serve)
    obtain resp t where run: "serve rt req s = (resp, t)" by fastforce
    from sys_step.request [OF assms(2) Some this] run Some MiniApp show ?thesis by (simp add: httpapi_New_def reaches_step)
  qed (simp add: httpapi_New_def MiniApp)
qed (simp_all add: httpapi_New_def healthz_def)

lemma head_reaches:
  assumes "api_head (sy_cfg Y) = Some hs"
  shows "reaches Y s (snd (ChainSync_Record (sy_chain_sync Y) ref s))"
proof -
  have ws: "CC_WSURL (Cfg_Chain (sy_cfg Y)) \<noteq> []" using assms by (simp add: api_head_def Let_def split: if_splits)
  show ?thesis by (rule reaches_step [OF sys_step.new_head [OF ws prod.collapse [symmetric]]])
qed

lemma worker_reaches:
  assumes "permutes perm" "worker_handler Y (check_order (sy_health Y None) perm) tk = Some h"
  shows "stays (reaches Y) h"
  unfolding stays_def
  using reaches_step [OF sys_step.task [OF assms(2) permutes_schedule [OF assms(1)] prod.collapse [symmetric]]] by blast

subsection \<open>Every process is a run\<close>

lemma loopsD:
  assumes "serial_loops W" "world_order R"
  shows "(\<And>perm m s. permutes perm \<Longrightarrow> R s (f1 perm m s)) \<Longrightarrow> R s (tgbot_poll W f1 s)"
    and "(\<And>perm c s. permutes perm \<Longrightarrow> R s (snd (f2 perm c s))) \<Longrightarrow> R s (snd (http_listen W addr f2 s))"
    and "(\<And>b s. R s (f3 b s)) \<Longrightarrow> stays R (head_Run W hs f3)"
    and "(\<And>perm tk h. permutes perm \<Longrightarrow> f4 perm tk = Some h \<Longrightarrow> stays R h) \<Longrightarrow> stays R (asynq_Serve W ro c f4)"
    and "(\<And>f. f \<in> set fs \<Longrightarrow> stays R f) \<Longrightarrow> stays R (errgroup W fs)"
  using assms unfolding serial_loops_def by blast+

lemma httpapi_Run_stays:
  assumes "serial_loops W" "world_order R" "\<And>perm c s. permutes perm \<Longrightarrow> R s (snd (handler perm c s))"
  shows "stays R (httpapi_Run W addr handler timeout)"
  unfolding stays_def
proof
  fix s
  obtain e t where run: "http_listen W addr handler s = (e, t)" by fastforce
  have "R s (snd (http_listen W addr handler s))" by (rule loopsD(2) [OF assms(1,2)]) (rule assms(3))
  with run have "R s t" by simp
  moreover have "stays R (attempt (outside (http_Shutdown W timeout)) (\<lambda>err. throw (Wrap ''http shutdown: '' err [])) ok)"
    using assms(2) by (intro stays_rules)
  ultimately show "R s (snd (httpapi_Run W addr handler timeout s))"
    using world_orderD(1) [OF assms(2)] run unfolding httpapi_Run_def stays_def by (cases e) auto
qed

lemma serving_reaches:
  assumes "serial_loops W" "(m, body, serving) \<in> processes W env" "sy_cfg Y = cfg" "f \<in> serving cfg Y"
  shows "stays (reaches Y) f"
proof -
  have "stays (reaches Y) f" if "f \<in> bot_serving W cfg Y"
    using that loopsD(1) [OF assms(1) reaches_world bot_handler_reaches] by (auto simp: bot_serving_def stays_def)
  moreover have "stays (reaches Y) f" if "f \<in> api_serving W cfg Y"
  proof -
    from that obtain mini where f: "f = api_group W cfg Y mini" and mini: "api_miniapp Y = Inr mini" by (auto simp: api_serving_def)
    have "stays (reaches Y) (httpapi_Run W addr (httpapi_New W Y watcher mini) timeout)" for addr watcher timeout
      using httpapi_Run_stays [OF assms(1) reaches_world httpapi_reaches [OF _ mini]] .
    moreover have "stays (reaches Y) (unless_canceled (head_Run W hs (\<lambda>ref s. snd (ChainSync_Record (sy_chain_sync Y) ref s))))"
      if "api_head cfg = Some hs" for hs
      using that assms(3) by (intro stays_rules loopsD(3) [OF assms(1)] reaches_world head_reaches) simp_all
    ultimately show ?thesis
      unfolding f api_group_def Let_def by (auto intro!: loopsD(5) [OF assms(1)] split: option.splits)
  qed
  moreover have "stays (reaches Y) f" if f: "f \<in> worker_serving W cfg Y"
  proof -
    have "reaches Y u (snd (outside_call g u))" for g :: "'a \<Rightarrow> 'b \<times> 'a" and u using world_orderD(2) [OF reaches_world outside_call_same] .
    then have "stays (reaches Y) (Server_Run W cfg (\<lambda>perm. worker_handler Y (check_order (sy_health Y None) perm)))"
      unfolding Server_Run_def by (intro stays_rules reaches_world loopsD(4) [OF assms(1)] worker_reaches)
    moreover have "stays (reaches Y) (runScheduler W h)" for h unfolding runScheduler_def by (intro stays_rules reaches_world)
    ultimately show ?thesis
      using f by (auto simp: worker_serving_def worker_group_def intro!: loopsD(5) [OF assms(1)])
  qed
  ultimately show ?thesis using assms(2,4) by (auto simp: processes_def)
qed

text \<open>
  The processes over such libraries: starting, serving and stopping does nothing to the tables
  but steps of the system wired from the loaded configuration.
\<close>

theorem serial_processes_refine_system:
  assumes "serial_loops W" "(m, body, serving) \<in> processes W env" "m s = (r, t)"
  shows "case Load (lb_U W) (lb_parsers W) env of
      Inl err \<Rightarrow> r = Inl err \<and> t = s
    | Inr cfg \<Rightarrow> same_db s t \<or> (\<exists>Y es. wired W cfg Y \<and> sys_run Y s es t)"
proof -
  obtain check where m: "m = process W env check body"
    using assms(2) by (auto simp: processes_def bot_run_def api_run_def worker_run_def)
  from assms(3) [unfolded m] show ?thesis
  proof (cases rule: process_startup)
    case (ran cfg Y s1 t1)
    from body_serves [OF assms(2) ran(5,3)] obtain Y' where "wired W cfg Y'"
      and serve: "\<And>R. world_order R \<Longrightarrow> \<forall>f \<in> serving cfg Y'. stays R f \<Longrightarrow> R s1 t1" by blast
    moreover have "reaches Y' s1 t1"
      by (rule serve [OF reaches_world]) (use serving_reaches [OF assms(1,2) wired_cfg] \<open>wired W cfg Y'\<close> in blast)
    then have "reaches Y' s t" using ran(4,6) by (blast intro: reaches_from reaches_then)
    ultimately show ?thesis using ran(1) by (auto simp: reaches_def)
  qed (auto split: sum.splits)
qed

section \<open>Nothing stays open\<close>

definition libs_track :: "('z \<Rightarrow> resource list) \<Rightarrow> 'z libs \<Rightarrow> bool" where
  "libs_track live W \<longleftrightarrow> tracks live (lb_drivers W) \<and> migrations_track live (lb_migrations W)
   \<and> (\<forall>ro z. live (snd (asynq_NewClient W ro z)) = Queue (fst (asynq_NewClient W ro z)) # live z)
   \<and> (\<forall>q. closes live (Queue q) (\<lambda>z. snd (asynq_CloseClient W q z)))"

text \<open>Closing what is held removes it from whatever is open.\<close>

lemma closeAll_removes:
  assumes "held live d"
  shows "live (snd (closeAll d z)) = fold remove1 (opened d) (live z)"
proof -
  have "live (snd (run_closers cs errs z)) = fold remove1 hs (live z)"
    if "list_all2 (\<lambda>c h. closes live h (\<lambda>s. snd (c s))) cs hs" for cs hs errs z
    using that
  proof (induction arbitrary: errs z rule: list_all2_induct)
    case (Cons c cs h hs)
    then show ?case by (auto simp: closes_def split: prod.splits) (metis snd_conv)
  qed simp
  with assms show ?thesis
    by (cases "run_closers (rev (dep_closers d)) [] z") (metis closeAll_def held_def old.prod.case snd_conv)
qed

text \<open>
  C21. The bot, the API and the worker close what they open. A process that is refused, or
  whose startup fails at any dependency, leaves open what was open before it. Otherwise its
  body runs with exactly the pool, the Redis client, the chain client and the queue client
  opened on top, and however the body ends, with an error or not, and whatever it leaves
  open, each of the four is closed when the process returns. Nothing is assumed of the body.
\<close>

theorem process_releases_everything:
  assumes "libs_track live W" "(m, body, serving) \<in> processes W env" "m s = (r, t)"
  shows "live (pgdb.more t) = live (pgdb.more s)
    \<or> (\<exists>cfg Y pool rdb q s1 t1. Load (lb_U W) (lb_parsers W) env = Inr cfg \<and> wired W cfg Y \<and> body cfg Y s1 = (r, t1)
        \<and> live (pgdb.more s1) = [Queue q, Rpc, Rdb rdb, Pool pool] @ live (pgdb.more s)
        \<and> live (pgdb.more t) = fold remove1 [Queue q, Rpc, Rdb rdb, Pool pool] (live (pgdb.more t1)))"
proof -
  have laws: "tracks live (lb_drivers W)" "migrations_track live (lb_migrations W)" using assms(1) by (simp_all add: libs_track_def)
  obtain check where "m = process W env check body"
    using assms(2) by (auto simp: processes_def bot_run_def api_run_def worker_run_def)
  from assms(3) [unfolded this] show ?thesis
  proof (cases rule: process_cases)
    case (failed cfg err)
    from New_live [OF laws failed(3) refl] show ?thesis by simp
  next
    case (ran cfg deps chain rdb q s0 s1 t1)
    from New_live [OF laws ran(3) refl] have "live (pgdb.more s0) = opened deps @ live (pgdb.more s)" and held: "held live deps"
      and "dep_Postgres deps \<noteq> None" "dep_Redis deps \<noteq> None" "dep_Chain deps \<noteq> None"
      by (simp_all add: WithPostgres_def WithRedis_def WithChain_def)
    then obtain pool h where s0: "live (pgdb.more s0) = [Rpc, Rdb h, Pool pool] @ live (pgdb.more s)" and opened: "opened deps = [Rpc, Rdb h, Pool pool]"
      by (auto simp: opened_def)
    have "live (pgdb.more s1) = Queue q # live (pgdb.more s0)"
      using assms(1) ran(4) more_outside(3,4) [of "asynq_NewClient W (RedisOpt (Cfg_Redis cfg))" s0] by (simp add: libs_track_def)
    moreover have "live (pgdb.more t) = fold remove1 [Queue q, Rpc, Rdb h, Pool pool] (live (pgdb.more t1))"
      using assms(1) unfolding ran(7) more_outside(3) Deps_Close_def closeAll_removes [OF held] opened
      by (simp add: libs_track_def closes_def)
    ultimately show ?thesis using ran(1,5,6) s0 by fastforce
  qed simp
qed

section \<open>Libraries for examples\<close>

text \<open>
  The world is the stack of open resources; every server answers; one update, one request,
  one head and one task arrive; the goroutines of a group run one after the other.
\<close>

fun run_group :: "('s, unit) op list \<Rightarrow> ('s, unit) op" where
  "run_group [] s = (Inr (), s)"
| "run_group (f # fs) s = (case f s of (r, s1) \<Rightarrow> (case run_group fs s1 of (r', s2) \<Rightarrow> (case r of Inl e \<Rightarrow> r | Inr _ \<Rightarrow> r', s2)))"

definition sample_libs :: "resource list libs" where
  "sample_libs = \<lparr>lb_drivers = sample_drivers\<lparr>rds_Ping := \<lambda>h d. ok ()\<rparr>, lb_migrations = sample_migrations, lb_parsers = sample_parsers, lb_U = ascii_tables,
     lb_F = sample_formats, lb_P = sample_primitives, lb_J = sample_decoders, lb_rfc3339 = (\<lambda>t. []), lb_rfc3339nano = (\<lambda>t. []),
     lb_clock = pg_clock, lb_outside_clock = (\<lambda>z. 0), lb_linked = (''dev'', [], []), lb_build_info = None,
     rds_commands = (\<lambda>h. \<lparr>SetNX = (\<lambda>k v d. ok True), IncrExpire = (\<lambda>k d. ok 1)\<rparr>),
     asynq_NewClient = (\<lambda>ro z. (4, Queue 4 # z)), asynq_CloseClient = (\<lambda>q z. (None, remove1 (Queue q) z)),
     asynq_commands = (\<lambda>q. \<lparr>asynq_Enqueue = (\<lambda>ty pl opts. ok \<lparr>TI_ID = [], TI_Type = ty, TI_Queue = []\<rparr>)\<rparr>),
     tgbot_New = (\<lambda>token. ok \<lparr>SendMessage = (\<lambda>c m. ok ()), SetMyCommands = (\<lambda>_. ok ()), GetMe = ok ''bot'', API_Start = (\<lambda>s. s)\<rparr>),
     tgbot_poll = (\<lambda>f. f (\<lambda>n. [0..<n]) (Some (sample_message ''/start''))),
     http_listen = (\<lambda>addr f s. (Cancelled, snd (f (\<lambda>n. [0..<n]) Readyz s))), http_NotFound = writeError 404 [],
     http_Shutdown = (\<lambda>d. ok ()),
     head_Watcher = (\<lambda>hs. \<lparr>HW_Last = (\<lambda>s. (zero_BlockRef, 0)), HW_Connected = (\<lambda>s. True)\<rparr>),
     head_Run = (\<lambda>hs f s. (Inl (Foreign ContextCanceled), f (sample_block 7) s)),
     asynq_Serve = (\<lambda>ro c f s. (Inr (), case f (\<lambda>n. [0..<n]) (SyncTask False (Inr ())) of None \<Rightarrow> s | Some h \<Rightarrow> snd (h s))),
     asynq_Shutdown = (\<lambda>z. z), sched_New = (\<lambda>ro z. (5, z)), sched_Register = (\<lambda>h cron ty opts. ok ()), sched_Start = (\<lambda>h. ok ()),
     sched_Shutdown = (\<lambda>h z. z), wait_Done = (\<lambda>z. z), errgroup = run_group\<rparr>"

lemma run_group_stays:
  assumes "world_order R" "\<And>f. f \<in> set fs \<Longrightarrow> stays R f"
  shows "R s (snd (run_group fs s))"
  using assms(2)
proof (induction fs arbitrary: s)
  case Nil
  show ?case using world_orderD(2) [OF assms(1)] by simp
next
  case (Cons f fs)
  obtain r s1 where f: "f s = (r, s1)" by fastforce
  then have "R s s1" using Cons.prems [of f] staysD by fastforce
  moreover have "R s1 (snd (run_group fs s1))" using Cons by auto
  ultimately show ?case using f world_orderD(1) [OF assms(1)] by (auto split: prod.splits sum.splits)
qed

lemma sample_libs_serial: "serial_loops sample_libs"
proof -
  have p: "permutes (\<lambda>n. [0..<n])" by (auto simp: permutes_def)
  have "R s (case f (\<lambda>n. [0..<n]) tk of None \<Rightarrow> s | Some h \<Rightarrow> snd (h s))"
    if "world_order R" "\<forall>perm tk h. permutes perm \<longrightarrow> f perm tk = Some h \<longrightarrow> stays R h"
    for R :: "resource list pgdb_scheme \<Rightarrow> resource list pgdb_scheme \<Rightarrow> bool" and f :: "scheduler \<Rightarrow> task \<Rightarrow> (resource list pgdb_scheme, unit) op option" and tk s
    using that p world_orderD(2) [OF that(1)] by (auto simp: stays_def split: option.splits)
  moreover have "R s (snd (run_group fs s))" if "world_order R" "\<forall>f \<in> set fs. \<forall>s. R s (snd (f s))"
    for R :: "resource list pgdb_scheme \<Rightarrow> resource list pgdb_scheme \<Rightarrow> bool" and fs s
    using run_group_stays [OF that(1)] that(2) by (auto simp: stays_def)
  ultimately show ?thesis
    unfolding serial_loops_def sample_libs_def by (auto simp: p stays_def)
qed

definition sample_bot_env :: env where
  "sample_bot_env = Map.empty(''POSTGRES_URL'' \<mapsto> ''db'', ''TELEGRAM_BOT_TOKEN'' \<mapsto> ''t'', ''TELEGRAM_ALLOWED_USER_IDS'' \<mapsto> ''7'')"

theorem process_changes_tables_only_by_serving_witness:
  "db_ok (snd (bot_run sample_libs sample_bot_env (empty_db [])))
   \<and> bot_run sample_libs sample_env (empty_db []) = (Inl (New ''TELEGRAM_BOT_TOKEN is not set''), empty_db [])"
proof
  let ?R = "\<lambda>s t. db_ok s \<longrightarrow> db_ok t"
  have order: "world_order ?R" by (auto simp: world_order_def db_ok_same)
  have member: "(bot_run sample_libs env, bot_body sample_libs, bot_serving sample_libs) \<in> processes sample_libs env" for env
    by (simp add: processes_def)
  have serves: "stays ?R f" if "wired sample_libs cfg Y" "f \<in> bot_serving sample_libs cfg Y" for cfg Y f
    using serving_reaches [OF sample_libs_serial member wired_cfg [OF that(1)] that(2)] run_effect
    unfolding stays_def reaches_def by blast
  have all: "?R s t \<and> (case Load (lb_U sample_libs) (lb_parsers sample_libs) env of
      Inl err \<Rightarrow> r = Inl err \<and> t = s
    | Inr cfg \<Rightarrow> bot_run sample_libs env = bot_run sample_libs env \<and> \<not> Enabled (Cfg_Telegram cfg) \<longrightarrow>
        r = Inl (New ''TELEGRAM_BOT_TOKEN is not set'') \<and> t = s)" if "bot_run sample_libs env s = (r, t)" for env s r t
    by (rule process_changes_tables_only_by_serving [OF order member _ that]) (rule serves)
  show "db_ok (snd (bot_run sample_libs sample_bot_env (empty_db [])))"
    by (rule mp [OF conjunct1 [OF all [OF prod.collapse [symmetric]]] empty_db_ok])
  have "Load ascii_tables sample_parsers sample_env = Inr sample_cfg" "\<not> Enabled (Cfg_Telegram sample_cfg)" by code_simp+
  moreover have "lb_U sample_libs = ascii_tables" "lb_parsers sample_libs = sample_parsers" by (simp_all add: sample_libs_def)
  ultimately show "bot_run sample_libs sample_env (empty_db []) = (Inl (New ''TELEGRAM_BOT_TOKEN is not set''), empty_db [])"
    using all [of sample_env "empty_db []", OF prod.collapse [symmetric]] by (simp add: prod_eq_iff)
qed

theorem serial_processes_refine_system_witness:
  "let t = snd (bot_run sample_libs sample_bot_env (empty_db [])); cfg = fst (read_env ascii_tables sample_parsers sample_bot_env) in
   same_db (empty_db []) t \<or> (\<exists>Y es. wired sample_libs cfg Y \<and> sys_run Y (empty_db []) es t)"
proof -
  have "Load ascii_tables sample_parsers sample_bot_env = Inr (fst (read_env ascii_tables sample_parsers sample_bot_env))" by code_simp
  moreover have "lb_U sample_libs = ascii_tables" "lb_parsers sample_libs = sample_parsers" by (simp_all add: sample_libs_def)
  moreover have "(bot_run sample_libs sample_bot_env, bot_body sample_libs, bot_serving sample_libs) \<in> processes sample_libs sample_bot_env"
    by (simp add: processes_def)
  ultimately show ?thesis
    using serial_processes_refine_system [OF sample_libs_serial _ prod.collapse [symmetric],
        of "bot_run sample_libs sample_bot_env" "bot_body sample_libs" "bot_serving sample_libs" sample_bot_env "empty_db []"]
    by (simp add: Let_def)
qed

text \<open>A polling loop that leaves something of its own open: the process closes its four all the same.\<close>

definition sample_leaky :: "resource list libs" where
  "sample_leaky = sample_libs\<lparr>tgbot_poll := \<lambda>f. pgdb.more_update (Cons (Sql 9))\<rparr>"

theorem process_releases_everything_witness:
  "\<exists>cfg Y pool rdb q s1 t1. bot_body sample_leaky cfg Y s1 = (fst (bot_run sample_leaky sample_bot_env (empty_db [])), t1)
     \<and> pgdb.more s1 = [Queue q, Rpc, Rdb rdb, Pool pool] \<and> fold remove1 [Queue q, Rpc, Rdb rdb, Pool pool] (pgdb.more t1) = [Sql 9]"
proof -
  have "libs_track (\<lambda>z. z) sample_leaky"
    using tracks_sample migrations_sample(1)
    by (simp add: libs_track_def sample_leaky_def sample_libs_def tracks_def closes_def sample_drivers_def opens_def borrows_def)
  moreover have "(bot_run sample_leaky sample_bot_env, bot_body sample_leaky, bot_serving sample_leaky) \<in> processes sample_leaky sample_bot_env"
    by (simp add: processes_def)
  moreover have "pgdb.more (snd (bot_run sample_leaky sample_bot_env (empty_db []))) = [Sql 9]" by code_simp
  ultimately show ?thesis
    using process_releases_everything [OF _ _ prod.collapse [symmetric], of "\<lambda>z. z" sample_leaky "bot_run sample_leaky sample_bot_env"
        "bot_body sample_leaky" "bot_serving sample_leaky" sample_bot_env "empty_db []"]
    by (fastforce simp add: empty_db_def [THEN arg_cong [of _ _ pgdb.more]] simp del: fold.simps)
qed

end
