(* ===== verification/Interleaving.thy ===== *)
theory Interleaving
  imports Runs
begin

text \<open>
  The use cases of the wallet service while other processes work on the same database. In
  \<open>System\<close> a handler runs to its end; here anything the other processes may do happens
  before each statement of a use case, between its checks and its writes. The method is rely
  and guarantee: the others are relied on to let wallets evolve (\<open>evolves\<close>), every statement
  of a use case is shown to do only what the use case permits (\<open>permitted\<close>) at the moment it
  runs, and what it does is again an evolution the others can rely on.
\<close>

section \<open>Statements among the statements of others\<close>

text \<open>
  A shared state: the state itself, what the other processes do before each of the coming
  calls, and the states before and after each call so far.
\<close>

record 's shared =
  sh_state :: 's
  sh_moves :: "('s \<Rightarrow> 's) list"
  sh_calls :: "('s \<times> 's) list"

definition disturbed :: "'s shared \<Rightarrow> 's" where
  "disturbed x = (case sh_moves x of [] \<Rightarrow> sh_state x | f # fs \<Rightarrow> f (sh_state x))"

definition amid :: "('s, 'a) op \<Rightarrow> ('s shared, 'a) op" where
  "amid m x = (let s = disturbed x in case m s of (r, t) \<Rightarrow>
     (r, \<lparr>sh_state = t, sh_moves = tl (sh_moves x), sh_calls = sh_calls x @ [(s, t)]\<rparr>))"

lemma amid_value: "amid m x = (r, y) \<Longrightarrow> \<exists>t. m (disturbed x) = (r, t)"
  by (auto simp: amid_def Let_def split: prod.splits)

section \<open>Rely and guarantee\<close>

text \<open>
  \<open>K\<close> is what the use case knows of the state; it has to survive what the others do
  (\<open>stable\<close>). In a \<open>sound\<close> shared state the invariant and \<open>K\<close> hold, the coming moves of the
  others are relied on, and the calls so far kept the guarantee; an operation \<open>honours\<close> the
  guarantee when it keeps all of this.
\<close>

definition stable :: "('s \<Rightarrow> bool) \<Rightarrow> ('s \<Rightarrow> 's \<Rightarrow> bool) \<Rightarrow> ('s \<Rightarrow> bool) \<Rightarrow> bool" where
  "stable I rely K \<longleftrightarrow> (\<forall>s t. I s \<longrightarrow> K s \<longrightarrow> rely s t \<longrightarrow> K t)"

definition sound :: "('s \<Rightarrow> bool) \<Rightarrow> ('s \<Rightarrow> 's \<Rightarrow> bool) \<Rightarrow> ('s \<Rightarrow> 's \<Rightarrow> bool) \<Rightarrow> ('s \<Rightarrow> bool) \<Rightarrow> 's shared \<Rightarrow> bool" where
  "sound I rely guar K x \<longleftrightarrow> I (sh_state x) \<and> K (sh_state x)
     \<and> (\<forall>f \<in> set (sh_moves x). \<forall>s. I s \<longrightarrow> rely s (f s)) \<and> (\<forall>(s, t) \<in> set (sh_calls x). I s \<and> guar s t)"

definition honours :: "('s \<Rightarrow> bool) \<Rightarrow> ('s \<Rightarrow> 's \<Rightarrow> bool) \<Rightarrow> ('s \<Rightarrow> bool) \<Rightarrow> ('s, 'a) op \<Rightarrow> bool" where
  "honours I guar K m \<longleftrightarrow> (\<forall>s. I s \<longrightarrow> K s \<longrightarrow> guar s (snd (m s)))"

text \<open>The guarantee of a use case is one the others can rely on in turn.\<close>

locale rely_guarantee =
  fixes I :: "'s \<Rightarrow> bool" and rely :: "'s \<Rightarrow> 's \<Rightarrow> bool" and guar :: "'s \<Rightarrow> 's \<Rightarrow> bool"
  assumes rely_inv: "I s \<Longrightarrow> rely s t \<Longrightarrow> I t"
    and guar_rely: "guar s t \<Longrightarrow> rely s t"
begin

lemma sound_disturbed:
  assumes "sound I rely guar K x" "stable I rely K"
  shows "I (disturbed x)" "K (disturbed x)"
  using assms rely_inv by (auto simp: sound_def stable_def disturbed_def split: list.splits)

lemma sound_call:
  assumes "sound I rely guar K x" "stable I rely K" "honours I guar K m" "amid m x = (r, y)"
    and "\<And>s t. I s \<Longrightarrow> K s \<Longrightarrow> m s = (r, t) \<Longrightarrow> L t"
  shows "sound I rely guar (\<lambda>s. K s \<and> L s) y"
proof -
  obtain t where m: "m (disturbed x) = (r, t)" and y: "sh_state y = t" "sh_moves y = tl (sh_moves x)"
    "sh_calls y = sh_calls x @ [(disturbed x, t)]"
    using assms(4) by (auto simp: amid_def Let_def split: prod.splits)
  note d = sound_disturbed [OF assms(1,2)]
  from assms(3) d m have g: "guar (disturbed x) t" by (force simp: honours_def)
  with d guar_rely rely_inv assms(2) have "I t" "K t" by (auto simp: stable_def)
  with assms(1) assms(5) [OF d m] y g d(1) show ?thesis by (cases "sh_moves x") (auto simp: sound_def)
qed

lemma keeps_amid:
  assumes "stable I rely K" "honours I guar K m"
  shows "keeps (sound I rely guar K) (amid m)"
  by (rule keepsI) (use sound_call [OF _ assms, where L = "\<lambda>_. True"] in simp)

text \<open>What a call has read, and others cannot change, may be used by what follows it.\<close>

lemma keeps_read:
  assumes "stable I rely K" "honours I guar K m"
    and "\<And>s a t. I s \<Longrightarrow> K s \<Longrightarrow> m s = (Inr a, t) \<Longrightarrow> L a t"
    and "\<And>e. keeps (sound I rely guar K) (h e)" "\<And>a. keeps (sound I rely guar (\<lambda>s. K s \<and> L a s)) (k a)"
  shows "keeps (sound I rely guar K) (attempt (amid m) h k)"
proof (rule keepsI)
  fix x r y
  assume x: "sound I rely guar K x" and run: "attempt (amid m) h k x = (r, y)"
  from run show "sound I rely guar K y"
  proof (cases rule: attempt_cases)
    case (err e x1)
    then show ?thesis using x keepsD [OF keeps_amid [OF assms(1,2)]] keepsD [OF assms(4)] by blast
  next
    case (val a x1)
    from sound_call [OF x assms(1,2) val(1), of "L a"] assms(3) have "sound I rely guar (\<lambda>s. K s \<and> L a s) x1" by blast
    from keepsD [OF assms(5) this val(2)] show ?thesis by (simp add: sound_def)
  qed
qed

end

section \<open>What the processes rely on\<close>

text \<open>The constraints of the database hold, and no wallet disappears or changes its identity.\<close>

definition evolves :: "'z pgdb_scheme \<Rightarrow> 'z pgdb_scheme \<Rightarrow> bool" where
  "evolves s t \<longleftrightarrow> (db_ok s \<longrightarrow> db_ok t)
     \<and> (\<forall>i w. wallet_at s i = Some w \<longrightarrow> (\<exists>w'. wallet_at t i = Some w' \<and> same_wallet w w'))"

lemma evolves_quiet: "quiet s t \<Longrightarrow> evolves s t"
  by (simp add: evolves_def quietD)

text \<open>Whatever whole handlers of the running system do, it is such an evolution.\<close>

lemma runs_evolve: "sys_run Y s es t \<Longrightarrow> db_ok s \<Longrightarrow> evolves s t"
  using run_effect run_existing by (fastforce simp: evolves_def progressed_def)

text \<open>\<open>still i w\<close>: the wallet once read as \<open>w\<close> under the ID \<open>i\<close> is still there.\<close>

definition still :: "string \<Rightarrow> Wallet \<Rightarrow> 'z pgdb_scheme \<Rightarrow> bool" where
  "still i w s \<longleftrightarrow> (\<exists>v. wallet_at s i = Some v \<and> same_wallet w v)"

lemma stable_still: "stable db_ok evolves K \<Longrightarrow> stable db_ok evolves (\<lambda>s. K s \<and> still i w s)"
  unfolding stable_def still_def evolves_def by (blast intro: same_wallet_trans)

lemma stable_True: "stable db_ok evolves (\<lambda>_. True)"
  by (simp add: stable_def)

section \<open>The use cases on a shared database\<close>

text \<open>
  \<open>SetStatus\<close> is two statements, so others can come between them. Every other method of the
  repository is one statement, or one transaction that only inserts rows under unique indexes.
\<close>

definition amid_SetStatus :: "unicode \<Rightarrow> string \<Rightarrow> WalletStatus \<Rightarrow> ('z pgdb_scheme shared, unit) op" where
  "amid_SetStatus U i nxt =
     (if \<not> WalletStatus_Valid nxt then throw (New (''invalid wallet status '' @ Quote U nxt))
      else attempt (amid (WalletRepo_Get i)) throw (\<lambda>current.
        if Wallet_Status current = nxt then ok ()
        else if \<not> CanTransitionTo (Wallet_Status current) nxt
          then throw (New (''illegal wallet transition '' @ Wallet_Status current @ '' -> '' @ nxt))
        else attempt (amid (stmt (set_status_rows i nxt (nxt = WalletPending))))
               (\<lambda>err. throw (Wrap ''set wallet status: '' err [])) (\<lambda>_. ok ())))"

definition amid_repo :: "unicode \<Rightarrow> 'z pgdb_scheme shared WalletStore" where
  "amid_repo U = \<lparr>Store_Link = (\<lambda>w p. amid (WalletRepo_Link w p)), Store_Get = (\<lambda>i. amid (WalletRepo_Get i)),
     Store_ListByUser = (\<lambda>u. amid (WalletRepo_ListByUser u)),
     Store_MarkVerified = (\<lambda>i tm. amid (WalletRepo_MarkVerified i tm)), Store_SetStatus = amid_SetStatus U,
     Store_GetPolicy = (\<lambda>i. amid (WalletRepo_GetPolicy i)), Store_UpdatePolicy = (\<lambda>i p. amid (WalletRepo_UpdatePolicy i p))\<rparr>"

definition amid_probe :: "'z AddressProbe \<Rightarrow> 'z pgdb_scheme shared AddressProbe" where
  "amid_probe c = \<lparr>Probe_ChainID = amid (outside (Probe_ChainID c)),
     Probe_BalanceAt = (\<lambda>a n. amid (outside (Probe_BalanceAt c a n)))\<rparr>"

definition amid_queue :: "'z TaskEnqueuer \<Rightarrow> 'z pgdb_scheme shared TaskEnqueuer" where
  "amid_queue q = \<lparr>EnqueueWalletVerify = (\<lambda>i. amid (outside (EnqueueWalletVerify q i))),
     EnqueueNotification = (\<lambda>c m. amid (outside (EnqueueNotification q c m)))\<rparr>"

definition amid_service ::
    "unicode \<Rightarrow> 'z AddressProbe option \<Rightarrow> 'z TaskEnqueuer option \<Rightarrow> u64 \<Rightarrow> WalletPolicy \<Rightarrow>
     ('z pgdb_scheme \<Rightarrow> time) \<Rightarrow> 'z pgdb_scheme shared WalletService" where
  "amid_service U ch qu chainID defaults clock =
     NewWalletService (amid_repo U) (Some \<lparr>Audit_Record = (\<lambda>e. amid (AuditRepo_Record e))\<rparr>)
       (map_option amid_probe ch) (map_option amid_queue qu) chainID defaults None (\<lambda>x. clock (sh_state x))"

datatype use_case =
    Linking LinkRequest
  | Verifying string
  | Limiting UserID string WalletPolicy string
  | Disabling UserID string string
  | Listing UserID
  | Showing UserID string

definition done_with :: "('s, 'a) op \<Rightarrow> ('s, unit) op" where
  "done_with m = attempt m throw (\<lambda>_. ok ())"

fun perform :: "unicode \<Rightarrow> 's WalletService \<Rightarrow> use_case \<Rightarrow> ('s, unit) op" where
  "perform U svc (Linking req) = done_with (WalletService_Link U svc req)"
| "perform U svc (Verifying i) = done_with (WalletService_Verify svc i)"
| "perform U svc (Limiting u i p a) = done_with (WalletService_UpdatePolicy svc u i p a)"
| "perform U svc (Disabling u i a) = WalletService_Disable svc u i a"
| "perform U svc (Listing u) = done_with (WalletService_List svc u)"
| "perform U svc (Showing u i) = done_with (WalletService_Get svc u i)"

text \<open>What a use case may do to the wallet \<open>j\<close>, in one statement that finds the state \<open>s\<close>.\<close>

definition reported :: "'z AddressProbe option \<Rightarrow> u64 \<Rightarrow> bool" where
  "reported ch c \<longleftrightarrow> (\<exists>p z z'. ch = Some p \<and> Probe_ChainID p z = (Inr c, z'))"

fun may :: "'z AddressProbe option \<Rightarrow> use_case \<Rightarrow> 'z pgdb_scheme \<Rightarrow> 'z pgdb_scheme \<Rightarrow> string \<Rightarrow> bool" where
  "may ch (Linking req) s t j \<longleftrightarrow> wallet_at s j = None
     \<and> (\<exists>w q. wallet_at t j = Some w \<and> Wallet_Status w = WalletPending
          \<and> pg_uuid_in (engine s) (Req_UserID req) = Some (Wallet_UserID w)
          \<and> policy_at t j = Some q \<and> \<not> Pol_TradingEnabled q)"
| "may ch (Verifying i) s t j \<longleftrightarrow> newly_verified s t j
     \<and> (\<exists>w. wallet_at s j = Some w \<and> wallet_at s i = Some w \<and> reported ch (Wallet_ChainID w))"
| "may ch (Limiting u i p a) s t j \<longleftrightarrow> wallet_at t j = wallet_at s j \<and> Validate p = None
     \<and> (\<exists>w q. wallet_at s j = Some w \<and> wallet_at s i = Some w \<and> Wallet_UserID w = u
          \<and> policy_at t j = Some q \<and> Pol_TradingEnabled q = Pol_TradingEnabled p)"
| "may ch (Disabling u i a) s t j \<longleftrightarrow> policy_at t j = policy_at s j
     \<and> (\<exists>w w'. wallet_at s j = Some w \<and> wallet_at s i = Some w \<and> Wallet_UserID w = u
          \<and> wallet_at t j = Some w' \<and> same_wallet w w' \<and> Wallet_Status w' = WalletDisabled)"
| "may ch (Listing u) s t j \<longleftrightarrow> False"
| "may ch (Showing u i) s t j \<longleftrightarrow> False"

definition permitted :: "'z AddressProbe option \<Rightarrow> use_case \<Rightarrow> 'z pgdb_scheme \<Rightarrow> 'z pgdb_scheme \<Rightarrow> bool" where
  "permitted ch c s t \<longleftrightarrow> evolves s t \<and> (\<forall>j. untouched s t j \<or> may ch c s t j)"

interpretation rg: rely_guarantee db_ok evolves "permitted ch c" for ch c
  by unfold_locales (auto simp: evolves_def permitted_def)

abbreviation sound_for :: "'z AddressProbe option \<Rightarrow> use_case \<Rightarrow> ('z pgdb_scheme \<Rightarrow> bool) \<Rightarrow> 'z pgdb_scheme shared \<Rightarrow> bool" where
  "sound_for ch c K \<equiv> sound db_ok evolves (permitted ch c) K"

section \<open>Every statement keeps the guarantee\<close>

named_theorems amid_rules \<open>statements and calls that are sound whatever is known of the state\<close>

lemma honours_quiet:
  assumes "\<And>s r t. m s = (r, t) \<Longrightarrow> quiet s t"
  shows "honours db_ok (permitted ch c) K m"
proof -
  have "quiet s (snd (m s))" for s by (rule assms) (rule prod.collapse [symmetric])
  then show ?thesis by (simp add: honours_def permitted_def evolves_quiet untouched_quiet)
qed

lemma keeps_quiet:
  "stable db_ok evolves K \<Longrightarrow> (\<And>s r t. m s = (r, t) \<Longrightarrow> quiet s t) \<Longrightarrow> keeps (sound_for ch c K) (amid m)"
  by (rule rg.keeps_amid [OF _ honours_quiet])

lemma quiet_reads:
  "WalletRepo_Get i s = (rw, t) \<Longrightarrow> quiet s t" "WalletRepo_ListByUser u s = (rl, t) \<Longrightarrow> quiet s t"
  "WalletRepo_GetPolicy i s = (rp, t) \<Longrightarrow> quiet s t" "AuditRepo_Record e s = (ru, t) \<Longrightarrow> quiet s t"
  by (auto intro: quiet_same quiet_appended Get_facts(1) ListByUser_same GetPolicy_facts(1) Record_appended)

lemma amid_reads [amid_rules]:
  assumes "stable db_ok evolves K"
  shows "keeps (sound_for ch c K) (amid (WalletRepo_Get i))" "keeps (sound_for ch c K) (amid (WalletRepo_ListByUser u))"
    "keeps (sound_for ch c K) (amid (WalletRepo_GetPolicy i))" "keeps (sound_for ch c K) (amid (AuditRepo_Record e))"
    "keeps (sound_for ch c K) (amid (outside m))"
  by (rule keeps_quiet [OF assms], erule quiet_reads quiet_outside)+

lemma amid_sels [simp]:
  "ws_wallets (amid_service U ch qu chainID defaults clock) = amid_repo U"
  "ws_chain (amid_service U ch qu chainID defaults clock) = map_option amid_probe ch"
  "Store_Link (amid_repo U) w p = amid (WalletRepo_Link w p)" "Store_Get (amid_repo U) i = amid (WalletRepo_Get i)"
  "Store_ListByUser (amid_repo U) u = amid (WalletRepo_ListByUser u)"
  "Store_MarkVerified (amid_repo U) i tm = amid (WalletRepo_MarkVerified i tm)"
  "Store_SetStatus (amid_repo U) = amid_SetStatus U" "Store_GetPolicy (amid_repo U) i = amid (WalletRepo_GetPolicy i)"
  "Store_UpdatePolicy (amid_repo U) i p = amid (WalletRepo_UpdatePolicy i p)"
  "ws_defaults (amid_service U ch qu chainID defaults clock) = defaults"
  by (simp_all add: amid_service_def NewWalletService_def amid_repo_def)

lemma amid_probe_sels [simp]:
  "Probe_ChainID (amid_probe p) = amid (outside (Probe_ChainID p))"
  "Probe_BalanceAt (amid_probe p) a n = amid (outside (Probe_BalanceAt p a n))"
  by (simp_all add: amid_probe_def)

lemma amid_audit [amid_rules]:
  assumes "stable db_ok evolves K"
  shows "keeps_fun (sound_for ch c K) (audit (amid_service U pr qu chainID defaults clock) ev)"
    "keeps_fun (sound_for ch c K) (enqueue_verify (amid_service U pr qu chainID defaults clock) i)"
  using keepsD [OF amid_reads(4) [OF assms] _ prod.collapse [symmetric]] keepsD [OF amid_reads(5) [OF assms] _ prod.collapse [symmetric]]
  by (auto simp: keeps_fun_def audit_def recordAudit_def enqueue_verify_def amid_service_def NewWalletService_def amid_queue_def
      split: option.splits)

lemma keeps_attempt_value:
  assumes "keeps P m" "\<And>e. keeps P (h e)" "\<And>a x y. m x = (Inr a, y) \<Longrightarrow> keeps P (k a)"
  shows "keeps P (attempt m h k)"
  by (rule keepsI, erule attempt_cases) (use assms in \<open>blast dest: keepsD\<close>)+

interpretation rd: read_frame "amid_service U pr qu chainID defaults clock" "sound_for ch c (\<lambda>_. True)"
  for U pr qu chainID defaults clock ch c
  by unfold_locales (auto intro!: amid_rules stable_True)

text \<open>Reading the wallet of the request first: what follows knows that it is still that wallet.\<close>

lemma keeps_Get_then:
  assumes "stable db_ok evolves K" "\<And>e. keeps (sound_for ch c K) (h e)"
    and "\<And>w. keeps (sound_for ch c (\<lambda>s. K s \<and> still i w s)) (k w)"
  shows "keeps (sound_for ch c K) (attempt (amid (WalletRepo_Get i)) h k)"
proof (rule rg.keeps_read [OF assms(1) honours_quiet])
  show "still i w t" if "WalletRepo_Get i s = (Inr w, t)" for s w and t :: "'a pgdb_scheme"
    using Get_facts(2) [OF that refl] same_db_at [OF Get_facts(1) [OF that]] by (auto simp: still_def)
qed (use assms(2,3) in \<open>auto intro: quiet_reads\<close>)

subsection \<open>Linking\<close>

lemma Link_honours:
  assumes "Wallet_UserID w = Req_UserID req" "\<not> Pol_TradingEnabled p"
  shows "honours db_ok (permitted ch (Linking req)) K (WalletRepo_Link w p)"
  unfolding honours_def
proof (intro allI impI)
  fix s :: "'a pgdb_scheme"
  assume s: "db_ok s"
  obtain r t where run: "WalletRepo_Link w p s = (r, t)" by fastforce
  note old = Link_old [OF s run] and new = Link_new [OF s run]
  have "untouched s t j \<or> may ch (Linking req) s t j" for j
  proof (cases "wallet_at s j")
    case None
    show ?thesis
    proof (cases "wallet_at t j")
      case None
      with \<open>wallet_at s j = None\<close> policy_at_iff [OF s, of j] policy_at_iff [OF keepsD [OF keeps_Link s run], of j]
      show ?thesis by (simp add: untouched_def)
    next
      case (Some v)
      from new [OF None this] assms Some None show ?thesis by auto
    qed
  qed (use old in \<open>auto simp: untouched_def\<close>)
  moreover have "evolves s t" using old keepsD [OF keeps_Link s run] by (fastforce simp: evolves_def)
  ultimately show "permitted ch (Linking req) s (snd (WalletRepo_Link w p s))" by (simp add: permitted_def run)
qed

lemma Link_sound: "keeps (sound_for ch (Linking req) (\<lambda>_. True)) (WalletService_Link U (amid_service U pr qu chainID defaults clock) req)"
proof (cases "NewWallet U (Req_UserID req) (Req_Address req) (ws_chainID (amid_service U pr qu chainID defaults clock))
    (Req_Role req) (Req_Label req)")
  case (Inr w)
  then show ?thesis
    unfolding WalletService_Link_def Let_def
    by (auto intro!: keeps_rules amid_rules stable_True rg.keeps_amid Link_honours NewWallet_fields(1))
qed (auto simp: WalletService_Link_def intro!: keeps_rules amid_rules stable_True)

subsection \<open>Verification\<close>

lemma Mark_honours:
  assumes "\<And>s. K s \<Longrightarrow> still i w s" "reported ch (Wallet_ChainID w)"
  shows "honours db_ok (permitted ch (Verifying i)) K (WalletRepo_MarkVerified i tm)"
  unfolding honours_def
proof (intro allI impI)
  fix s :: "'a pgdb_scheme"
  assume s: "db_ok s" "K s"
  obtain r t where run: "WalletRepo_MarkVerified i tm s = (r, t)" by fastforce
  note eff = MarkVerified_effect [OF s(1) run] and pol = MarkVerified_policies [OF run]
  have "untouched s t j \<or> may ch (Verifying i) s t j" for j
  proof (cases "wallet_at s j")
    case None
    with MarkVerified_none_at [OF run None] pol show ?thesis by (simp add: untouched_def)
  next
    case (Some v)
    moreover have "reported ch (Wallet_ChainID v)" if "wallet_at s i = Some v"
      using assms(1) [OF s(2)] assms(2) that by (auto simp: still_def same_wallet_def)
    ultimately show ?thesis using eff [OF Some] pol by (auto simp: untouched_def newly_verified_def)
  qed
  moreover have "evolves s t" using eff keepsD [OF keeps_MarkVerified s(1) run] by (fastforce simp: evolves_def)
  ultimately show "permitted ch (Verifying i) s (snd (WalletRepo_MarkVerified i tm s))" by (simp add: permitted_def run)
qed

lemma outside_value: "outside m s = (Inr a, t) \<Longrightarrow> \<exists>z z'. m z = (Inr a, z')"
  by (auto simp: outside_def split: prod.splits)

lemma keeps_branch: "(b \<Longrightarrow> keeps P m) \<Longrightarrow> (\<not> b \<Longrightarrow> keeps P m') \<Longrightarrow> keeps P (if b then m else m')"
  by simp

lemma Verify_sound: "keeps (sound_for ch (Verifying i) (\<lambda>_. True)) (WalletService_Verify (amid_service U ch qu chainID defaults clock) i)"
proof (cases ch)
  case None
  then show ?thesis
    by (auto simp: WalletService_Verify_def intro!: keeps_Get_then stable_True keeps_throw)
next
  case (Some p)
  have mark: "keeps (sound_for ch (Verifying i) (\<lambda>s. True \<and> still i w s)) (\<lambda>x. amid (WalletRepo_MarkVerified i (clk x)) x)"
    if "amid (outside (Probe_ChainID p)) x = (Inr a, y)" "\<not> a \<noteq> Wallet_ChainID w" for clk w a x y
  proof -
    have "reported ch (Wallet_ChainID w)"
      using amid_value [OF that(1)] that(2) Some by (auto simp: reported_def dest!: outside_value)
    from rg.keeps_amid [OF stable_still [OF stable_True] Mark_honours [OF _ this]] show ?thesis by (simp add: keeps_def)
  qed
  note known = stable_still [OF stable_True]
  show ?thesis
    unfolding WalletService_Verify_def amid_sels Some option.map option.case Let_def amid_probe_sels
    by (rule keeps_Get_then [OF stable_True keeps_throw], rule keeps_attempt_value, rule amid_reads(5) [OF known],
        rule keeps_throw, rule keeps_branch, intro keeps_after amid_audit known keeps_throw,
        rule keeps_attempt [OF amid_reads(5) [OF known]], intro keeps_after amid_audit known keeps_throw,
        rule keeps_attempt, erule (1) mark [unfolded Some], rule keeps_throw,
        intro keeps_after amid_audit amid_reads known)
qed

subsection \<open>Changing the limits\<close>

lemma Update_honours:
  assumes "\<And>s. K s \<Longrightarrow> still i w s" "Wallet_UserID w = u"
  shows "honours db_ok (permitted ch (Limiting u i p a)) K (WalletRepo_UpdatePolicy i p)"
  unfolding honours_def
proof (intro allI impI)
  fix s :: "'a pgdb_scheme"
  assume s: "db_ok s" "K s"
  obtain r t where run: "WalletRepo_UpdatePolicy i p s = (r, t)" by fastforce
  note t = keepsD [OF keeps_UpdatePolicy s(1) run] and same = UpdatePolicy_wallets [OF run]
  from assms(1) [OF s(2)] obtain v where v: "wallet_at s i = Some v" "same_wallet w v" by (auto simp: still_def)
  have "may ch (Limiting u i p a) s t j" if j: "policy_at t j \<noteq> policy_at s j" for j
  proof -
    from repo_UpdatePolicy_effect [OF run j] obtain q where q: "Validate p = None" "policy_at t j = Some q"
      "Pol_TradingEnabled q = Pol_TradingEnabled p" by blast
    with policy_at_iff [OF t, of j] same obtain x where x: "wallet_at s j = Some x" by fastforce
    have "Wallet_ID x = Wallet_ID v" using UpdatePolicy_other [OF s(1) run v(1) x] j by blast
    then have "Some x = Some v" using wallet_at_ID [OF s(1) x] wallet_at_ID [OF s(1) v(1)] by (simp only:)
    then have "x = v" by simp
    with q x v assms(2) same show ?thesis by (simp add: same_wallet_def)
  qed
  with same t show "permitted ch (Limiting u i p a) s (snd (WalletRepo_UpdatePolicy i p s))"
    by (auto simp: run permitted_def evolves_def untouched_def)
qed

lemma UpdatePolicy_sound:
  "keeps (sound_for ch (Limiting u i p a) (\<lambda>_. True)) (WalletService_UpdatePolicy (amid_service U pr qu chainID defaults clock) u i p a)"
proof -
  note known = stable_still [OF stable_True]
  have upd: "keeps (sound_for ch (Limiting u i p a) (\<lambda>s. True \<and> still i w s)) (amid (WalletRepo_UpdatePolicy i p))"
    if "\<not> Wallet_UserID w \<noteq> u" for w :: Wallet
    using that by (intro rg.keeps_amid known Update_honours) auto
  show ?thesis
    unfolding WalletService_UpdatePolicy_def amid_sels Let_def
    by (rule keeps_Get_then [OF stable_True keeps_throw], rule keeps_branch, rule keeps_throw, cases "Validate p")
      (simp_all only: option.case, rule keeps_attempt [OF amid_reads(3) [OF known] keeps_throw], rule keeps_attempt,
        erule upd, (intro keeps_after amid_audit amid_reads known keeps_throw)+)
qed

subsection \<open>Disabling\<close>

lemma set_status_updated:
  assumes "stmt (set_status_rows i nxt c) s = (r, t)"
  shows "updated i (\<lambda>_. True) (\<lambda>_ x. x\<lparr>wr_status := nxt, wr_verified_at := (if c then None else wr_verified_at x)\<rparr>) s r t"
  using assms unfolding set_status_rows_alt by (rule updated_stmt) simp_all

lemma Disable_honours:
  assumes "\<And>s. K s \<Longrightarrow> still i w s" "Wallet_UserID w = u"
  shows "honours db_ok (permitted ch (Disabling u i a)) K (stmt (set_status_rows i WalletDisabled c))"
  unfolding honours_def
proof (intro allI impI)
  fix s :: "'a pgdb_scheme"
  assume s: "db_ok s" "K s"
  obtain r t where run: "stmt (set_status_rows i WalletDisabled c) s = (r, t)" by fastforce
  note upd = set_status_updated [OF run]
  then have t: "db_ok t" "policy_at t = policy_at s" using s(1) by (simp_all add: updated_def)
  have j: "\<exists>v'. wallet_at t j = Some v' \<and> same_wallet v v'
      \<and> (v' = v \<or> wallet_at s i = Some v \<and> Wallet_UserID v = u \<and> Wallet_Status v' = WalletDisabled)"
    if v: "wallet_at s j = Some v" for j v
    using upd s(1) v
  proof (cases rule: updated_effect)
    case (2 x now)
    with assms(1) [OF s(2)] assms(2) have "Wallet_UserID v = u" by (auto simp: still_def same_wallet_def)
    with 2 show ?thesis by (auto simp: same_wallet_def wallet_of_row_def)
  qed simp
  have "untouched s t j \<or> may ch (Disabling u i a) s t j" for j
  proof (cases "wallet_at s j")
    case None
    with updated_none_at [OF upd None] t show ?thesis by (simp add: untouched_def)
  next
    case (Some v)
    from j [OF Some] t Some show ?thesis by (auto simp: untouched_def)
  qed
  moreover have "evolves s t" unfolding evolves_def using j t(1) by blast
  ultimately show "permitted ch (Disabling u i a) s (snd (stmt (set_status_rows i WalletDisabled c) s))"
    by (simp add: permitted_def run)
qed

lemma Disable_sound:
  "keeps (sound_for ch (Disabling u i a) (\<lambda>_. True)) (WalletService_Disable (amid_service U pr qu chainID defaults clock) u i a)"
proof -
  note known = stable_still [OF stable_True]
  have set: "keeps (sound_for ch (Disabling u i a) (\<lambda>s. True \<and> still i w s)) (amid_SetStatus U i WalletDisabled)"
    if "\<not> Wallet_UserID w \<noteq> u" for w :: Wallet
    unfolding amid_SetStatus_def
    by (intro keeps_If keeps_throw keeps_ok keeps_attempt amid_reads known rg.keeps_amid Disable_honours [where w = w])
      (use that in auto)
  show ?thesis
    unfolding WalletService_Disable_def amid_sels
    by (rule keeps_Get_then [OF stable_True keeps_throw], rule keeps_branch, rule keeps_throw, rule keeps_attempt)
      (erule set, (intro keeps_after amid_audit known keeps_throw keeps_ok)+)
qed

section \<open>The guarantee\<close>

lemma perform_sound: "keeps (sound_for ch c (\<lambda>_. True)) (perform U (amid_service U ch qu chainID defaults clock) c)"
  by (cases c) (auto simp: done_with_def intro!: keeps_attempt keeps_throw keeps_ok
      Link_sound Verify_sound UpdatePolicy_sound Disable_sound rd.List_keeps rd.Get_keeps)

text \<open>
  C5. The checks of a use case hold when it writes, whatever the other processes do in between.
  As long as these keep the database's constraints and the identity of the wallets, as every
  run of the system does and every statement of every use case, each statement of a use case
  changes nothing but: a new pending wallet of the caller's with trading off (linking); the
  named wallet, from pending to active, after the node reported its chain (verifying); the
  policy of the named wallet, owned by the caller, to valid limits (changing the limits); the
  named wallet of the caller, to disabled (disabling). Reads change nothing.
\<close>

theorem use_cases_survive_interleaving:
  assumes "db_ok s" "\<forall>f \<in> set moves. \<forall>u. db_ok u \<longrightarrow> evolves u (f u)"
    and "perform U (amid_service U ch qu chainID defaults clock) c \<lparr>sh_state = s, sh_moves = moves, sh_calls = []\<rparr> = (r, x)"
  shows "db_ok (sh_state x)
    \<and> (\<forall>(a, b) \<in> set (sh_calls x). db_ok a \<and> evolves a b \<and> (\<forall>j. untouched a b j \<or> may ch c a b j))"
proof -
  have "sound_for ch c (\<lambda>_. True) \<lparr>sh_state = s, sh_moves = moves, sh_calls = []\<rparr>" using assms(1,2) by (simp add: sound_def)
  from keepsD [OF perform_sound this assms(3)] show ?thesis by (auto simp: sound_def permitted_def)
qed

text \<open>
  The owner of the sample wallet lets it trade while the worker verifies it, between the
  check of the owner and the write.
\<close>

definition sample_verification :: "pgdb \<Rightarrow> pgdb" where
  "sample_verification s = snd (WalletRepo_MarkVerified ''w1'' 5 s)"

definition sample_limits :: "(error + unit) \<times> pgdb shared" where
  "sample_limits = perform ascii_tables (amid_service ascii_tables (Some sample_probe) None 4663 sample_policy pg_clock)
     (Limiting ''alice'' ''w1'' (sample_policy\<lparr>Pol_TradingEnabled := True\<rparr>) ''7'')
     \<lparr>sh_state = sample_db WalletPending, sh_moves = [\<lambda>s. s, sample_verification], sh_calls = []\<rparr>"

lemma sample_verification_evolves: "db_ok s \<Longrightarrow> evolves s (sample_verification s)"
proof -
  assume s: "db_ok s"
  obtain r t where run: "WalletRepo_MarkVerified ''w1'' 5 s = (r, t)" by fastforce
  from MarkVerified_effect [OF s run] keepsD [OF keeps_MarkVerified s run] show ?thesis
    by (fastforce simp: evolves_def sample_verification_def run)
qed

theorem use_cases_survive_interleaving_witness:
  "fst sample_limits = Inr () \<and> length (sh_calls (snd sample_limits)) = 5
   \<and> map_option Wallet_Status (wallet_at (sh_state (snd sample_limits)) ''w1'') = Some ''active''
   \<and> map_option Pol_TradingEnabled (policy_at (sh_state (snd sample_limits)) ''w1'') = Some True
   \<and> list_all (\<lambda>(a, b). evolves a b) (sh_calls (snd sample_limits))"
proof -
  have "\<forall>f \<in> set [\<lambda>s. s, sample_verification]. \<forall>u. db_ok u \<longrightarrow> evolves u (f u)"
    using sample_verification_evolves by (auto intro: evolves_quiet)
  from use_cases_survive_interleaving [OF sample_states(1) this prod.collapse [symmetric, of sample_limits, unfolded sample_limits_def]]
  have "list_all (\<lambda>(a, b). evolves a b) (sh_calls (snd sample_limits))" unfolding sample_limits_def list_all_iff by blast
  moreover have "case sample_limits of (r, x) \<Rightarrow> r = Inr () \<and> length (sh_calls x) = 5
      \<and> map_option Wallet_Status (wallet_at (sh_state x) ''w1'') = Some ''active''
      \<and> map_option Pol_TradingEnabled (policy_at (sh_state x) ''w1'') = Some True" by code_simp
  ultimately show ?thesis by (simp add: case_prod_beta)
qed

section \<open>A check that does not survive\<close>

text \<open>
  \<open>SetStatus\<close> checks the transition on a row it read earlier and then writes whatever the
  status has become. The service only asks it to disable, which is harmless, but asked to
  activate a pending wallet that is disabled in between, it activates a disabled wallet.
\<close>

definition sample_disabling :: "pgdb \<Rightarrow> pgdb" where
  "sample_disabling s = snd (WalletRepo_SetStatus ascii_tables ''w1'' WalletDisabled s)"

definition sample_race :: "(error + unit) \<times> pgdb shared" where
  "sample_race = amid_SetStatus ascii_tables ''w1'' WalletActive
     \<lparr>sh_state = sample_db WalletPending, sh_moves = [\<lambda>s. s, sample_disabling], sh_calls = []\<rparr>"

theorem SetStatus_race_revives_disabled:
  "fst sample_race = Inr ()
   \<and> (case last (sh_calls (snd sample_race)) of (a, b) \<Rightarrow>
        map_option Wallet_Status (wallet_at a ''w1'') = Some WalletDisabled
      \<and> map_option Wallet_Status (wallet_at b ''w1'') = Some WalletActive
      \<and> \<not> CanTransitionTo WalletDisabled WalletActive)"
  by code_simp

end
