(* ===== verification/AuditQuery.thy ===== *)
theory AuditQuery
  imports LogRepos
begin

text \<open>
  \<open>ListByAction\<close> of \<open>internal/persistence/postgres/audit.go\<close>: reading the trail back. The
  decoding of a stored detail (\<open>json.Unmarshal\<close> into a map, whose error is ignored) is a
  parameter.
\<close>

definition event_of_row :: "((string \<times> detail) list \<Rightarrow> (string \<times> detail) list) \<Rightarrow> audit_row \<Rightarrow> AuditEvent" where
  "event_of_row decode r = \<lparr>Ev_OccurredAt = ar_occurred_at r, Ev_ActorType = ar_actor_type r, Ev_ActorID = coalesce (ar_actor_id r),
     Ev_Action = ar_action r, Ev_SubjectType = coalesce (ar_subject_type r), Ev_SubjectID = coalesce (ar_subject_id r),
     Ev_Outcome = ar_outcome r, Ev_Detail = decode (ar_detail r)\<rparr>"

definition list_limit :: "int \<Rightarrow> int" where
  "list_limit limit = (if limit \<le> 0 then 50 else limit)"

text \<open>Rows of the same instant come in the order of the table; the stream of rows can break (\<open>rows.Err\<close>).\<close>

definition AuditRepo_ListByAction ::
    "((string \<times> detail) list \<Rightarrow> (string \<times> detail) list) \<Rightarrow> string \<Rightarrow> int \<Rightarrow> ('z pgdb_scheme, AuditEvent list) op" where
  "AuditRepo_ListByAction decode action limit =
     attempt (query (\<lambda>s. Inr (take (nat (list_limit limit))
         (sort_key (\<lambda>r. - ar_occurred_at r) (filter (\<lambda>r. ar_action r = action) (audit_logs s))))))
       (\<lambda>err. throw (Wrap ''list audit events: '' err []))
       (\<lambda>rows. attempt (stmt (ok ())) throw (\<lambda>_. ok (map (event_of_row decode) rows)))"

section \<open>Facts\<close>

lemma ListByAction_value:
  assumes "AuditRepo_ListByAction decode action limit s = (Inr es, t)"
  shows "es = map (event_of_row decode) (take (nat (list_limit limit))
    (sort_key (\<lambda>r. - ar_occurred_at r) (filter (\<lambda>r. ar_action r = action) (audit_logs s))))"
  using assms unfolding AuditRepo_ListByAction_def by (auto elim!: attempt_cases query_Inr)

lemma insert_audit_row:
  assumes "AuditRepo_Record e s = (Inr x, t)"
  shows "\<exists>r d. audit_logs t = audit_logs s @ [r] \<and> (marshal_detail (Ev_Detail e) = Inr d \<or> Ev_Detail e = [] \<and> d = [])
    \<and> event_of_row (\<lambda>_. d) r = e\<lparr>Ev_OccurredAt := pg_timestamp_in (engine s) (Ev_OccurredAt e), Ev_Detail := d\<rparr> \<and> ar_detail r = d"
proof -
  obtain d where d: "(if Ev_Detail e \<noteq> [] then marshal_detail (Ev_Detail e) else Inr []) = Inr d"
    and run: "attempt (stmt (insert_audit e d)) (\<lambda>err. throw (Wrap ''record audit event: '' err [])) (\<lambda>_. ok ()) s = (Inr x, t)"
    using assms by (auto simp: AuditRepo_Record_def split: sum.splits)
  from run obtain fs where "insert_audit e d (s\<lparr>pg_faults := fs\<rparr>) = (Inr (), t)"
    by (auto elim!: attempt_cases stmt_Inr)
  then show ?thesis
    using d by (intro exI [of _ "last (audit_logs t)"] exI [of _ d])
      (auto simp: insert_audit_def Let_def event_of_row_def split: if_splits)
qed

lemma take_sorted_newest:
  assumes "a \<in> set (take n (sort_key f xs))" "b \<in> set (drop n (sort_key f xs))"
  shows "f a \<le> f b"
proof -
  have "sorted (map f (take n (sort_key f xs) @ drop n (sort_key f xs)))" by simp
  with assms show ?thesis unfolding map_append sorted_append by fastforce
qed

text \<open>
  C26. What is recorded can be read back, newest first: the list holds events of the action only,
  at most the limit of them (50 when the limit is not positive), in descending order of time;
  when it is shorter than the limit, the event just recorded is in it with its actor, subject,
  outcome and detail; and an event it leaves out is no newer than any it holds.
\<close>

theorem audit_trail_reads_back:
  assumes "AuditRepo_Record e s = (Inr x, t)" "AuditRepo_ListByAction decode (Ev_Action e) limit t = (Inr es, u)"
  shows "int (length es) \<le> list_limit limit \<and> (\<forall>v \<in> set es. Ev_Action v = Ev_Action e)
    \<and> sorted (map (\<lambda>v. - Ev_OccurredAt v) es)
    \<and> (\<exists>d. (marshal_detail (Ev_Detail e) = Inr d \<or> Ev_Detail e = [] \<and> d = [])
        \<and> (let v = e\<lparr>Ev_OccurredAt := pg_timestamp_in (engine s) (Ev_OccurredAt e), Ev_Detail := decode d\<rparr>
           in v \<in> set es \<or> int (length es) = list_limit limit \<and> (\<forall>w \<in> set es. Ev_OccurredAt v \<le> Ev_OccurredAt w)))"
proof -
  let ?n = "nat (list_limit limit)"
  let ?rows = "sort_key (\<lambda>r. - ar_occurred_at r) (filter (\<lambda>r. ar_action r = Ev_Action e) (audit_logs t))"
  note es = ListByAction_value [OF assms(2)]
  obtain r d where r: "audit_logs t = audit_logs s @ [r]" "marshal_detail (Ev_Detail e) = Inr d \<or> Ev_Detail e = [] \<and> d = []"
    and row: "event_of_row (\<lambda>_. d) r = e\<lparr>Ev_OccurredAt := pg_timestamp_in (engine s) (Ev_OccurredAt e), Ev_Detail := d\<rparr>" "ar_detail r = d"
    using insert_audit_row [OF assms(1)] by blast
  let ?v = "e\<lparr>Ev_OccurredAt := pg_timestamp_in (engine s) (Ev_OccurredAt e), Ev_Detail := decode d\<rparr>"
  have "event_of_row decode r = (event_of_row (\<lambda>_. d) r)\<lparr>Ev_Detail := decode (ar_detail r)\<rparr>" by (simp add: event_of_row_def)
  then have v: "event_of_row decode r = ?v" using row by simp
  have "Ev_Action ?v = Ev_Action e" by simp
  then have "Ev_Action (event_of_row decode r) = Ev_Action e" unfolding v .
  then have "ar_action r = Ev_Action e" by (simp add: event_of_row_def)
  then have "r \<in> set ?rows" using r(1) by simp
  then have "r \<in> set (take ?n ?rows @ drop ?n ?rows)" by (simp only: append_take_drop_id)
  then consider "r \<in> set (take ?n ?rows)" | "r \<in> set (drop ?n ?rows)" by (simp only: set_append Un_iff) blast
  then have mem: "?v \<in> set es \<or> int (length es) = list_limit limit \<and> (\<forall>w \<in> set es. Ev_OccurredAt ?v \<le> Ev_OccurredAt w)"
  proof cases
    case 1
    then have "event_of_row decode r \<in> set es" unfolding es set_map by (rule imageI)
    then show ?thesis unfolding v by blast
  next
    case 2
    have "?n < length ?rows" using 2 by (cases "?n < length ?rows") auto
    then have "int (length es) = list_limit limit" using es by (simp add: list_limit_def)
    moreover have "Ev_OccurredAt ?v \<le> Ev_OccurredAt w" if w: "w \<in> set es" for w
    proof -
      obtain a where a: "a \<in> set (take ?n ?rows)" "w = event_of_row decode a" using w es by auto
      have "Ev_OccurredAt (event_of_row decode r) \<le> Ev_OccurredAt w"
        using take_sorted_newest [OF a(1) 2] a(2) by (simp add: event_of_row_def)
      then show ?thesis unfolding v .
    qed
    ultimately show ?thesis by blast
  qed
  have "length es \<le> nat (list_limit limit)" unfolding es by simp
  then have "int (length es) \<le> list_limit limit" by (auto simp: list_limit_def split: if_splits)
  moreover have "\<forall>v \<in> set es. Ev_Action v = Ev_Action e" using es by (auto simp: event_of_row_def dest!: in_set_takeD)
  moreover have "sorted (map (\<lambda>v. - Ev_OccurredAt v) es)"
  proof -
    have "map (\<lambda>v. - Ev_OccurredAt v) es = take ?n (map (\<lambda>r. - ar_occurred_at r) ?rows)"
      unfolding es by (simp add: event_of_row_def take_map comp_def)
    then show ?thesis by (simp add: sorted_wrt_take)
  qed
  ultimately show ?thesis using r(2) mem unfolding Let_def by blast
qed

definition sample_event :: AuditEvent where
  "sample_event = WithDetail ''reason'' (DString ''test'') (NewAuditEvent 5 ActorSystem [] ActionWalletLinked)"

theorem audit_trail_reads_back_witness:
  "sample_event \<in> set (case fst (AuditRepo_ListByAction (\<lambda>d. d) ActionWalletLinked 0
     (snd (AuditRepo_Record sample_event (empty_db ())))) of Inl err \<Rightarrow> [] | Inr es \<Rightarrow> es)"
proof -
  obtain r t where rec: "AuditRepo_Record sample_event (empty_db ()) = (r, t)" by fastforce
  have "\<not> isl (fst (AuditRepo_Record sample_event (empty_db ())))" by code_simp
  then obtain x where x: "r = Inr x" using rec by (cases r) auto
  obtain q u where list: "AuditRepo_ListByAction (\<lambda>d. d) ActionWalletLinked 0 t = (q, u)" by fastforce
  have act: "Ev_Action sample_event = ActionWalletLinked" by code_simp
  have "case fst (AuditRepo_ListByAction (\<lambda>d. d) ActionWalletLinked 0 (snd (AuditRepo_Record sample_event (empty_db ())))) of
    Inl err \<Rightarrow> False | Inr es \<Rightarrow> length es = 1" by code_simp
  then obtain es where es: "q = Inr es" "length es = 1" using rec list by (cases q) auto
  have "marshal_detail (Ev_Detail sample_event) = Inr (Ev_Detail sample_event)" "Ev_Detail sample_event \<noteq> []"
    "pg_timestamp_in (engine (empty_db ())) (Ev_OccurredAt sample_event) = Ev_OccurredAt sample_event" by code_simp+
  with audit_trail_reads_back [OF rec [unfolded x] list [folded act, unfolded es(1)]] es rec list show ?thesis
    by (auto simp: list_limit_def)
qed

end
