(* ===== verification/Accountability.thy ===== *)
theory Accountability
  imports Interleaving AuditQuery
begin

text \<open>
  Every change of a wallet or of its limits leaves its event in the audit trail. The services
  drop a failed write of the trail, so this is a theorem about a database that answers
  (\<open>pg_faults s = []\<close>), and about limits that are numbers: an event with a NaN cannot be
  marshalled (\<open>WalletService.NaN_policy_stored_unaudited\<close>).
\<close>

section \<open>Statements of a database that answers\<close>

definition answers :: "'z pgdb_scheme \<Rightarrow> bool" where
  "answers s \<longleftrightarrow> pg_faults s = []"

lemma stmt_answers: "answers s \<Longrightarrow> stmt m s = m s"
  by (simp add: answers_def stmt_def)

lemma query_answers: "answers s \<Longrightarrow> query q s = (q s, s)"
  by (simp add: query_def stmt_answers)

named_theorems answer_rules \<open>calls after which the database still answers\<close>

lemma answers_stmt [answer_rules]: "keeps answers m \<Longrightarrow> keeps answers (stmt m)"
  by (simp add: keeps_def stmt_answers)

lemma answers_query [answer_rules]: "keeps answers (query q)"
  by (simp add: keeps_def query_answers)

lemma answers_outside [answer_rules]: "keeps answers (outside m)"
  by (auto simp: keeps_def answers_def outside_def split: prod.splits)

lemma answers_with_uuid [answer_rules]: "(\<And>k. keeps answers (m k)) \<Longrightarrow> keeps answers (with_uuid i m)"
  by (auto simp: keeps_def with_uuid_def split: option.splits)

lemma answers_rows [answer_rules]:
  "keeps answers (insert_wallet w)" "keeps answers (insert_policy i p)"
  "keeps answers (update_wallet_rows hit f)" "keeps answers (update_policy_rows k p)"
  by (auto simp: keeps_def answers_def insert_wallet_def insert_policy_def update_wallet_rows_def update_policy_rows_def
      with_uuid_def Let_def split: option.splits)

lemma answers_record [answer_rules]: "keeps answers (AuditRepo_Record e)"
  by (auto simp: keeps_def answers_def AuditRepo_Record_def attempt_def stmt_def insert_audit_def ok_def throw_def Let_def
      split: sum.splits prod.splits)

text \<open>Reads leave the state as it is, and a write that fails has changed nothing.\<close>

lemma reads_answer:
  assumes "answers s"
  shows "WalletRepo_Get i s = (r, t) \<Longrightarrow> t = s" "WalletRepo_GetPolicy i s = (rp, t) \<Longrightarrow> t = s"
  using assms by (auto simp: WalletRepo_Get_def WalletRepo_GetPolicy_def scanWallet_def attempt_def query_answers ok_def throw_def
      split: sum.splits if_splits)

lemma transaction_answers:
  assumes "answers s" "keeps answers body" "transaction body s = (r, t)"
  shows "answers t \<and> (isl r \<longrightarrow> wallets t = wallets s)"
proof -
  obtain q u where q: "body s = (q, u)" by fastforce
  with keepsD [OF assms(2,1)] have "pg_faults u = []" by (simp add: answers_def)
  with assms(1,3) q show ?thesis
    by (auto simp: transaction_def attempt_def stmt_answers ok_def answers_def restore_def split: sum.splits)
qed

lemma Link_answers:
  assumes "db_ok s" "answers s" "WalletRepo_Link w p s = (r, t)"
  shows "answers t" and "isl r \<Longrightarrow> same_db s t" and "r = Inr v \<Longrightarrow> linked w p s v t"
proof -
  have "keeps answers (link_tx w p)"
    unfolding link_tx_def scanWallet_def by (intro keeps_rules answer_rules)
  from transaction_answers [OF assms(2) this] assms(2,3) have a: "answers t \<and> (isl r \<longrightarrow> wallets t = wallets s)"
    by (auto simp: WalletRepo_Link_def throw_def split: option.splits)
  then show "answers t" by blast
  from assms(1,3) show "same_db s t" if "isl r"
  proof (cases rule: repo_Link_cases)
    case (stored v')
    with a that show ?thesis by (auto simp: linked_def same_db_def)
  qed
  from assms(1,3) show "linked w p s v t" if "r = Inr v"
    by (cases rule: repo_Link_cases) (use that in auto)
qed

lemma Mark_answers:
  assumes "answers s" "WalletRepo_MarkVerified i tm s = (r, t)"
  shows "answers t \<and> (isl r \<longrightarrow> t = s)"
  using assms by (auto simp: WalletRepo_MarkVerified_def attempt_def stmt_answers with_uuid_def update_wallet_rows_def Let_def
      ok_def throw_def answers_def split: option.splits if_splits)

lemma Update_answers:
  assumes "answers s" "WalletRepo_UpdatePolicy i p s = (r, t)"
  shows "answers t" and "isl r \<Longrightarrow> policy_at t = policy_at s"
proof -
  have "keeps answers (WalletRepo_UpdatePolicy i p)"
    unfolding WalletRepo_UpdatePolicy_def by (cases "Validate p") (auto intro!: keeps_rules answer_rules)
  from keepsD [OF this assms] show "answers t" .
  show "policy_at t = policy_at s" if r: "isl r"
  proof (cases "Validate p = None \<and> pg_uuid_in (engine s) i \<noteq> None")
    case True
    then obtain k where k: "pg_uuid_in (engine s) i = Some k" by blast
    obtain q u where q: "update_policy_rows k p s = (q, u)" by fastforce
    from True k q assms have u: "t = u" "q = Inr n \<Longrightarrow> n \<noteq> 0 \<Longrightarrow> r = Inr ()" for n
      by (auto simp: WalletRepo_UpdatePolicy_def attempt_def stmt_answers with_uuid_def ok_def throw_def split: sum.splits if_splits)
    from q show ?thesis
    proof (cases rule: update_policy_rows_cases)
      case (written g)
      with u(2) r have "filter (\<lambda>x. pr_wallet_id x = k) (wallet_policies s) = []" by force
      then have "wallet_policies u = wallet_policies s"
        using written(1) by (auto simp: filter_empty_conv intro: map_idI)
      with written(1) u(1) show ?thesis by (simp add: policy_at_def find_policy_def fun_eq_iff)
    qed (simp add: u(1))
  next
    case False
    with assms show ?thesis
      by (auto simp: WalletRepo_UpdatePolicy_def attempt_def stmt_answers with_uuid_def ok_def throw_def
          split: sum.splits if_splits option.splits)
  qed
qed

lemma SetStatus_answers:
  assumes "answers s" "WalletRepo_SetStatus U i nxt s = (r, t)"
  shows "answers t \<and> (isl r \<longrightarrow> t = s)"
proof (cases "WalletStatus_Valid nxt")
  case True
  obtain q u where q: "WalletRepo_Get i s = (q, u)" by fastforce
  with reads_answer(1) [OF assms(1) q] True assms show ?thesis
    by (auto simp: WalletRepo_SetStatus_def attempt_def stmt_answers set_status_rows_def with_uuid_def update_wallet_rows_def
        Let_def ok_def throw_def answers_def split: sum.splits option.splits if_splits)
qed (use assms in \<open>auto simp: WalletRepo_SetStatus_def throw_def\<close>)

text \<open>The repository leaves the trail to the audit repository, and nothing changes the server.\<close>

definition trail :: "audit_row list \<Rightarrow> pg_engine \<Rightarrow> 'z pgdb_scheme \<Rightarrow> bool" where
  "trail rows e s \<longleftrightarrow> answers s \<and> audit_logs s = rows \<and> engine s = e"

lemma trail_stmt [answer_rules]: "keeps (trail l e) m \<Longrightarrow> keeps (trail l e) (stmt m)"
  by (simp add: keeps_def stmt_answers trail_def)

lemma trail_query [answer_rules]: "keeps (trail l e) (query q)"
  by (simp add: keeps_def query_answers trail_def)

lemma trail_with_uuid [answer_rules]: "(\<And>k. keeps (trail l e) (m k)) \<Longrightarrow> keeps (trail l e) (with_uuid i m)"
  by (auto simp: keeps_def with_uuid_def split: option.splits)

lemma trail_rows [answer_rules]:
  "keeps (trail l e) (\<lambda>s. update_wallet_rows hit (f s) s)" "keeps (trail l e) (update_policy_rows k p)"
  "keeps (trail l e) (set_status_rows i nxt c)"
  by (auto simp: keeps_def trail_def answers_def update_wallet_rows_def update_policy_rows_def set_status_rows_def
      with_uuid_def Let_def split: option.splits)

lemma repo_trail:
  assumes "answers s"
  shows "WalletRepo_UpdatePolicy i p s = (r, t) \<Longrightarrow> audit_logs t = audit_logs s \<and> engine t = engine s"
    and "WalletRepo_SetStatus U i nxt s = (r, t) \<Longrightarrow> audit_logs t = audit_logs s \<and> engine t = engine s"
    and "WalletRepo_MarkVerified i tm s = (r, t) \<Longrightarrow> audit_logs t = audit_logs s \<and> engine t = engine s"
proof -
  let ?I = "trail (audit_logs s) (engine s)"
  have "keeps ?I (WalletRepo_UpdatePolicy i p)"
    unfolding WalletRepo_UpdatePolicy_def by (cases "Validate p") (auto intro!: keeps_rules answer_rules)
  moreover have "keeps ?I (WalletRepo_SetStatus U i nxt)"
    unfolding WalletRepo_SetStatus_def WalletRepo_Get_def scanWallet_def by (auto intro!: keeps_rules answer_rules)
  moreover have "keeps ?I (WalletRepo_MarkVerified i tm)"
    unfolding WalletRepo_MarkVerified_def by (auto intro!: keeps_rules answer_rules)
  moreover have "?I s" using assms by (simp add: trail_def)
  ultimately show "WalletRepo_UpdatePolicy i p s = (r, t) \<Longrightarrow> audit_logs t = audit_logs s \<and> engine t = engine s"
    and "WalletRepo_SetStatus U i nxt s = (r, t) \<Longrightarrow> audit_logs t = audit_logs s \<and> engine t = engine s"
    and "WalletRepo_MarkVerified i tm s = (r, t) \<Longrightarrow> audit_logs t = audit_logs s \<and> engine t = engine s"
    by (auto dest!: keepsD [of ?I] simp: trail_def)
qed

section \<open>The row an event becomes\<close>

definition row_of_event :: "pg_engine \<Rightarrow> AuditEvent \<Rightarrow> audit_row" where
  "row_of_event e ev = \<lparr>ar_occurred_at = pg_timestamp_in e (Ev_OccurredAt ev), ar_actor_type = Ev_ActorType ev,
     ar_actor_id = nullable (Ev_ActorID ev), ar_action = Ev_Action ev, ar_subject_type = nullable (Ev_SubjectType ev),
     ar_subject_id = nullable (Ev_SubjectID ev), ar_outcome = Ev_Outcome ev, ar_detail = Ev_Detail ev\<rparr>"

definition writable :: "AuditEvent \<Rightarrow> bool" where
  "writable ev \<longleftrightarrow> event_checked ev \<and> (\<forall>(k, v) \<in> set (Ev_Detail ev). json_unsupported v = None)"

lemma first_some_None: "first_some f xs = None \<longleftrightarrow> (\<forall>x \<in> set xs. f x = None)"
  by (induction xs) (auto split: option.splits)

lemma Record_answers:
  assumes "answers s" "writable ev"
  shows "AuditRepo_Record ev s = (Inr (), s\<lparr>audit_logs := audit_logs s @ [row_of_event (engine s) ev]\<rparr>)"
proof -
  have "json_unsupported (DMap (Ev_Detail ev)) = None"
    using assms(2) by (auto simp: writable_def first_some_None)
  then have "marshal_detail (Ev_Detail ev) = Inr (Ev_Detail ev)" by (simp only: marshal_detail_def option.case)
  then have "(if Ev_Detail ev \<noteq> [] then marshal_detail (Ev_Detail ev) else Inr []) = Inr (Ev_Detail ev)" by simp
  moreover have "audit_row_checked (row_of_event (engine s) ev)"
    using assms(2) by (simp add: writable_def event_checked_def audit_row_checked_def row_of_event_def)
  ultimately show ?thesis
    unfolding AuditRepo_Record_def row_of_event_def
    using assms(1) by (simp only: sum.case) (simp add: attempt_def stmt_answers insert_audit_def ok_def Let_def)
qed

text \<open>What the row must say of a use case that changed the wallet \<open>i\<close>.\<close>

fun action_of :: "use_case \<Rightarrow> string" where
  "action_of (Linking req) = ActionWalletLinked"
| "action_of (Verifying i) = ActionWalletVerified"
| "action_of (Limiting u i p a) = ActionPolicyChanged"
| "action_of (Disabling u i a) = ActionWalletDisabled"
| "action_of (Listing u) = []"
| "action_of (Showing u i) = []"

fun responsible :: "use_case \<Rightarrow> string \<times> string" where
  "responsible (Linking req) = (ActorTelegramUser, Req_ActorID req)"
| "responsible (Verifying i) = (ActorWorker, ''worker'')"
| "responsible (Limiting u i p a) = (ActorTelegramUser, a)"
| "responsible (Disabling u i a) = (ActorTelegramUser, a)"
| "responsible (Listing u) = ([], [])"
| "responsible (Showing u i) = ([], [])"

fun detailed :: "'z pgdb_scheme \<Rightarrow> use_case \<Rightarrow> (string \<times> detail) list \<Rightarrow> bool" where
  "detailed s (Limiting u i p a) d \<longleftrightarrow> map_of d ''before'' = map_option policyDetail (policy_at s i)
     \<and> map_of d ''after'' = Some (policyDetail p)"
| "detailed s _ d \<longleftrightarrow> True"

definition accounts_for :: "'z pgdb_scheme \<Rightarrow> use_case \<Rightarrow> string \<Rightarrow> audit_row \<Rightarrow> bool" where
  "accounts_for s c i row \<longleftrightarrow> ar_action row = action_of c \<and> ar_outcome row = OutcomeOK
     \<and> (ar_actor_type row, coalesce (ar_actor_id row)) = responsible c
     \<and> coalesce (ar_subject_type row) = ''wallet'' \<and> pg_uuid_in (engine s) (coalesce (ar_subject_id row)) = pg_uuid_in (engine s) i
     \<and> detailed s c (ar_detail row)"

definition accounted :: "use_case \<Rightarrow> 'z pgdb_scheme \<Rightarrow> 'z pgdb_scheme \<Rightarrow> bool" where
  "accounted c s t \<longleftrightarrow> (\<forall>i. untouched s t i
     \<or> (\<exists>row. audit_logs t = audit_logs s @ [row] \<and> accounts_for s c i row))"

lemma accounted_still: "wallet_at t = wallet_at s \<Longrightarrow> policy_at t = policy_at s \<Longrightarrow> accounted c s t"
  by (simp add: accounted_def untouched_def)

lemma accounted_quiet: "quiet s t \<Longrightarrow> accounted c s t"
  by (simp add: accounted_still quietD)

lemma accounted_same: "same_db s s1 \<Longrightarrow> accounted c s1 t \<Longrightarrow> accounted c s t"
proof -
  assume s: "same_db s s1" and t: "accounted c s1 t"
  have "detailed s1 c = detailed s c" using same_db_at [OF s] by (cases c) (auto simp: fun_eq_iff)
  with s t same_db_at [OF s] show ?thesis by (simp add: accounted_def accounts_for_def untouched_def same_db_def)
qed

text \<open>A write, its event, and calls that leave the tables and the trail alone.\<close>

lemma accounted_written:
  assumes "answers s1" "writable ev" "audit_logs s1 = audit_logs s" "engine s1 = engine s"
    and "AuditRepo_Record ev s1 = (x, s2)" "same_db s2 t"
    and "\<And>i. untouched s s1 i \<or> accounts_for s c i (row_of_event (engine s) ev)"
  shows "accounted c s t"
proof -
  from Record_answers [OF assms(1,2)] assms(5) have s2: "s2 = s1\<lparr>audit_logs := audit_logs s1 @ [row_of_event (engine s1) ev]\<rparr>" by simp
  have "wallet_at t = wallet_at s1" "policy_at t = policy_at s1" "audit_logs t = audit_logs s @ [row_of_event (engine s) ev]"
    using same_db_at [OF assms(6)] assms(3,4,6) s2
    by (auto simp: same_db_def wallet_at_def policy_at_def find_wallet_def find_policy_def fun_eq_iff)
  with assms(7) show ?thesis by (auto simp: accounted_def untouched_def)
qed

section \<open>The use cases\<close>

lemma pg_service_sels [simp]:
  "ws_wallets (pg_wallet_service U ch qu chainID defaults clock) = WalletRepo U"
  "ws_chain (pg_wallet_service U ch qu chainID defaults clock) = map_option outside_probe ch"
  "ws_defaults (pg_wallet_service U ch qu chainID defaults clock) = defaults"
  by (simp_all add: pg_wallet_service_def NewWalletService_def)

lemma pg_audit:
  obtains x where "AuditRepo_Record (ev (clock s)) s = (x, audit (pg_wallet_service U ch qu chainID defaults clock) ev s)"
  by (rule that [of "fst (AuditRepo_Record (ev (clock s)) s)"])
    (simp add: audit_def recordAudit_def pg_wallet_service_def NewWalletService_def AuditRepo_def)

lemma quiet_audit: "quiet s (audit (pg_wallet_service U ch qu chainID defaults clock) ev s)"
  by (rule pg_audit [of ev clock s]) (blast intro: quiet_appended Record_appended)

lemma same_enqueue: "same_db s (enqueue_verify (pg_wallet_service U ch qu chainID defaults clock) i s)"
  by (auto simp: enqueue_verify_def pg_wallet_service_def NewWalletService_def outside_queue_def
      split: option.splits intro: outside_same [OF prod.collapse [symmetric]])

lemma Link_accounted:
  assumes "db_ok s" "answers s" "WalletService_Link V (pg_wallet_service U ch qu chainID defaults clock) req s = (r, t)"
  shows "accounted (Linking req) s t"
proof -
  let ?svc = "pg_wallet_service U ch qu chainID defaults clock"
  let ?new = "NewWallet V (Req_UserID req) (Req_Address req) (ws_chainID ?svc) (Req_Role req) (Req_Label req)"
  show ?thesis
  proof (cases ?new)
    case (Inl err)
    with assms(3) show ?thesis by (auto simp: WalletService_Link_def after_def intro: accounted_quiet quiet_audit)
  next
    case (Inr w)
    obtain q s1 where run: "WalletRepo_Link w (defaults\<lparr>Pol_TradingEnabled := False\<rparr>) s = (q, s1)" by fastforce
    note up = Link_answers [OF assms(1,2) run]
    show ?thesis
    proof (cases q)
      case (Inl err)
      with assms(3) Inr run show ?thesis
        by (auto simp: WalletService_Link_def Let_def attempt_def after_def
            intro!: accounted_same [OF up(2)] accounted_quiet [OF quiet_audit])
    next
      case (Inr v)
      let ?ev = "WithDetail ''role'' (DString (Wallet_Role v)) (WithDetail ''chain_id'' (DUint (Wallet_ChainID v))
        (WithDetail ''address'' (DString (Wallet_Address v)) (WithSubject ''wallet'' (Wallet_ID v)
        (NewAuditEvent (clock s1) ActorTelegramUser (Req_ActorID req) ActionWalletLinked))))"
      let ?audit = "audit ?svc (\<lambda>now. WithDetail ''role'' (DString (Wallet_Role v)) (WithDetail ''chain_id'' (DUint (Wallet_ChainID v))
        (WithDetail ''address'' (DString (Wallet_Address v)) (WithSubject ''wallet'' (Wallet_ID v)
        (NewAuditEvent now ActorTelegramUser (Req_ActorID req) ActionWalletLinked))))) s1"
      obtain x where rec: "AuditRepo_Record ?ev s1 = (x, ?audit)" by (rule pg_audit [where clock = clock])
      have t: "same_db ?audit t"
        using assms(3) \<open>?new = Inr w\<close> run Inr same_enqueue [of ?audit U ch qu chainID defaults clock "Wallet_ID v"]
        by (auto simp: WalletService_Link_def Let_def attempt_def after_def ok_def)
      have w: "writable ?ev" by (simp add: writable_def event_checked_def NewAuditEvent_def WithDetail_def WithSubject_def go_consts)
      note l = up(3) [OF Inr]
      from assms(1) l show ?thesis
      proof (rule linked_at)
        fix row prow
        assume 1: "v = wallet_of_row row" "pg_uuid_in (engine s) (wr_id row) = Some (wr_id row)"
          and at: "\<And>j. wallet_at s1 j = (case wallet_at s j of Some v' \<Rightarrow> Some v'
            | None \<Rightarrow> if pg_uuid_in (engine s) j = Some (wr_id row) then Some v else None)"
            "\<And>j. policy_at s1 j = (case policy_at s j of Some p' \<Rightarrow> Some p'
            | None \<Rightarrow> if pg_uuid_in (engine s) j = Some (wr_id row) then Some (policy_of_row (engine s) prow) else None)"
        have "untouched s s1 i \<or> accounts_for s (Linking req) i (row_of_event (engine s) ?ev)" for i
          using 1 at [of i]
          by (auto simp: untouched_def accounts_for_def row_of_event_def WithDetail_def WithSubject_def NewAuditEvent_def
              split: option.splits)
        moreover have "audit_logs s1 = audit_logs s" "engine s1 = engine s" using l by (auto simp: linked_def same_db_def)
        ultimately show ?thesis using accounted_written [OF up(1) w _ _ rec t] by blast
      qed
    qed
  qed
qed

lemma wallet_at_uuid: "wallet_at s i = Some w \<Longrightarrow> pg_uuid_in (engine s) i = Some (Wallet_ID w)"
  by (auto simp: wallet_at_def dest!: find_wallet_Some)

lemma Mark_accounted:
  assumes "db_ok s" "same_db s s3" "answers s3" and mark: "WalletRepo_MarkVerified i tm s3 = (Inr x, s4)"
    and t: "same_db (audit (pg_wallet_service U ch qu chainID defaults clock) (\<lambda>now. WithDetail ''chain_id'' (DUint (Wallet_ChainID w))
      (WithDetail ''address'' (DString (Wallet_Address w)) (WithSubject ''wallet'' i (NewAuditEvent now ActorWorker ''worker'' ActionWalletVerified)))) s4) t"
  shows "accounted (Verifying i) s t"
proof -
  let ?svc = "pg_wallet_service U ch qu chainID defaults clock"
  let ?mk = "\<lambda>now. WithDetail ''chain_id'' (DUint (Wallet_ChainID w)) (WithDetail ''address'' (DString (Wallet_Address w))
    (WithSubject ''wallet'' i (NewAuditEvent now ActorWorker ''worker'' ActionWalletVerified)))"
  obtain y where rec: "AuditRepo_Record (?mk (clock s4)) s4 = (y, audit ?svc ?mk s4)" by (rule pg_audit)
  have w: "writable (?mk (clock s4))"
    by (simp add: writable_def event_checked_def NewAuditEvent_def WithDetail_def WithSubject_def go_consts)
  have ok3: "db_ok s3" using assms(2,1) by (rule db_ok_sameI)
  have "untouched s s4 j \<or> accounts_for s (Verifying i) j (row_of_event (engine s) (?mk (clock s4)))" for j
  proof (cases "wallet_at s j")
    case None
    with MarkVerified_none_at [OF mark, of j] MarkVerified_policies [OF mark] same_db_at [OF assms(2)] show ?thesis
      by (simp add: untouched_def)
  next
    case (Some v)
    with MarkVerified_effect [OF ok3 mark, of j v] MarkVerified_policies [OF mark] same_db_at [OF assms(2)]
    have "untouched s s4 j \<or> wallet_at s i = Some v" by (auto simp: untouched_def)
    with wallet_at_uuid [OF Some] wallet_at_uuid [of s i v] show ?thesis
      by (auto simp: accounts_for_def row_of_event_def WithDetail_def WithSubject_def NewAuditEvent_def)
  qed
  moreover have "audit_logs s4 = audit_logs s" "engine s4 = engine s"
    using assms(2) repo_trail(3) [OF assms(3) mark] by (auto simp: same_db_def)
  ultimately show ?thesis using accounted_written [OF _ w _ _ rec t] Mark_answers [OF assms(3) mark] by blast
qed

lemma Verify_accounted:
  assumes "db_ok s" "answers s" "WalletService_Verify (pg_wallet_service U ch qu chainID defaults clock) i s = (r, t)"
  shows "accounted (Verifying i) s t"
proof -
  let ?svc = "pg_wallet_service U ch qu chainID defaults clock"
  from assms(3) show ?thesis
    unfolding WalletService_Verify_def pg_service_sels WalletRepo_sels
  proof (cases rule: attempt_cases)
    case (err e s1)
    with reads_answer(1) [OF assms(2) err(1)] show ?thesis by (auto simp: throw_def intro: accounted_still)
  next
    case (val w s1)
    then have s1: "s1 = s" by (blast dest: reads_answer(1) [OF assms(2)])
    show ?thesis
    proof (cases ch)
      case None
      with val(2) s1 show ?thesis by (auto simp: throw_def intro: accounted_still)
    next
      case (Some p)
      from val(2) show ?thesis unfolding s1 Some option.map option.case Let_def outside_probe_def AddressProbe.simps
      proof (cases rule: attempt_cases)
        case (err e s2)
        then show ?thesis by (auto simp: throw_def intro: accounted_quiet quiet_outside)
      next
        case (val c s2)
        note s2 = outside_same [OF val(1)]
        have a2: "answers s2" using keepsD [OF answers_outside assms(2) val(1)] .
        show ?thesis
        proof (cases "c = Wallet_ChainID w")
          case False
          with val(2) show ?thesis
            by (auto simp: after_def throw_def intro!: accounted_same [OF s2] accounted_quiet [OF quiet_audit])
        next
          case True
          from val(2) [unfolded True, simplified] show ?thesis
          proof (cases rule: attempt_cases)
            case (err e s3)
            then show ?thesis
              by (auto simp: after_def throw_def
                  intro!: accounted_same [OF same_db_trans [OF s2 outside_same [OF err(1)]]] accounted_quiet [OF quiet_audit])
          next
            case (val b s3)
            note s3 = same_db_trans [OF s2 outside_same [OF val(1)]]
            have a3: "answers s3" using keepsD [OF answers_outside a2 val(1)] .
            from val(2) show ?thesis
            proof (cases rule: attempt_cases)
              case (err e s4)
              with Mark_answers [OF a3 err(1)] show ?thesis
                by (auto simp: throw_def intro!: accounted_same [OF s3] accounted_still)
            next
              case (val x s4)
              then show ?thesis
                using Some by (intro Mark_accounted [OF assms(1) s3 a3 val(1), where U = U and ch = ch and w = w])
                  (auto simp: after_def intro: Get_facts(1))
            qed
          qed
        qed
      qed
    qed
  qed
qed

lemma writable_policy_event:
  assumes "finite_limits p" "finite_limits q"
  shows "writable (WithDetail ''after'' (policyDetail p) (WithDetail ''before'' (policyDetail q)
    (WithSubject ''wallet'' i (NewAuditEvent now ActorTelegramUser a ActionPolicyChanged))))"
proof -
  have "json_unsupported (policyDetail x) = None" if "finite_limits x" for x
    using that by (auto simp: policyDetail_def first_some_None finite_limits_def)
  with assms show ?thesis
    by (simp add: writable_def event_checked_def NewAuditEvent_def WithDetail_def WithSubject_def go_consts)
qed

lemma Limits_accounted:
  assumes "answers s" "finite_limits p" "finite_limits q" and old: "policy_at s i = Some q"
    and upd: "WalletRepo_UpdatePolicy i p s = (Inr x, s3)"
    and t: "same_db (audit (pg_wallet_service U ch qu chainID defaults clock) (\<lambda>now. WithDetail ''after'' (policyDetail p)
      (WithDetail ''before'' (policyDetail q) (WithSubject ''wallet'' i (NewAuditEvent now ActorTelegramUser a ActionPolicyChanged)))) s3) t"
  shows "accounted (Limiting u i p a) s t"
proof -
  let ?svc = "pg_wallet_service U ch qu chainID defaults clock"
  let ?mk = "\<lambda>now. WithDetail ''after'' (policyDetail p) (WithDetail ''before'' (policyDetail q)
    (WithSubject ''wallet'' i (NewAuditEvent now ActorTelegramUser a ActionPolicyChanged)))"
  obtain y where rec: "AuditRepo_Record (?mk (clock s3)) s3 = (y, audit ?svc ?mk s3)" by (rule pg_audit)
  have "untouched s s3 j \<or> accounts_for s (Limiting u i p a) j (row_of_event (engine s) (?mk (clock s3)))" for j
    using upd
  proof (cases rule: repo_UpdatePolicy_cases)
    case (sent g)
    with old show ?thesis
      by (auto simp: policy_updated_def untouched_def accounts_for_def row_of_event_def WithDetail_def WithSubject_def
          NewAuditEvent_def)
  qed simp
  moreover have "audit_logs s3 = audit_logs s" "engine s3 = engine s" using repo_trail(1) [OF assms(1) upd] by auto
  ultimately show ?thesis
    using accounted_written [OF Update_answers(1) [OF assms(1) upd] writable_policy_event [OF assms(2,3)] _ _ rec t] by blast
qed

lemma Update_accounted:
  assumes "db_ok s" "answers s" "finite_limits p" "\<And>q. policy_at s i = Some q \<Longrightarrow> finite_limits q"
    and "WalletService_UpdatePolicy (pg_wallet_service U ch qu chainID defaults clock) u i p a s = (r, t)"
  shows "accounted (Limiting u i p a) s t"
proof -
  let ?svc = "pg_wallet_service U ch qu chainID defaults clock"
  from assms(5) show ?thesis
    unfolding WalletService_UpdatePolicy_def pg_service_sels WalletRepo_sels Let_def
  proof (cases rule: attempt_cases)
    case (err e s1)
    with reads_answer(1) [OF assms(2) err(1)] show ?thesis by (auto simp: throw_def intro: accounted_still)
  next
    case (val w s1)
    then have s1: "s1 = s" by (blast dest: reads_answer(1) [OF assms(2)])
    show ?thesis
    proof (cases "Wallet_UserID w \<noteq> u \<or> Validate p \<noteq> None")
      case True
      with val(2) s1 show ?thesis
        by (auto simp: throw_def after_def intro!: accounted_quiet [OF quiet_audit] split: if_splits intro: accounted_still)
    next
      case False
      with val(2) s1 have "attempt (WalletRepo_GetPolicy i) throw (\<lambda>old_policy. attempt (WalletRepo_UpdatePolicy i p)
          (\<lambda>err. after (audit ?svc (\<lambda>now. WithDetail ''reason'' (DString (Error err)) (WithOutcome OutcomeRejected
             (WithSubject ''wallet'' i (NewAuditEvent now ActorTelegramUser a ActionPolicyChanged))))) (throw err))
          (\<lambda>_. after (audit ?svc (\<lambda>now. WithDetail ''after'' (policyDetail p) (WithDetail ''before'' (policyDetail old_policy)
             (WithSubject ''wallet'' i (NewAuditEvent now ActorTelegramUser a ActionPolicyChanged)))))
             (WalletRepo_GetPolicy i))) s = (r, t)" by simp
      then show ?thesis
      proof (cases rule: attempt_cases)
        case (err e s2)
        with reads_answer(2) [OF assms(2) err(1)] show ?thesis by (auto simp: throw_def intro: accounted_still)
      next
        case (val q s2)
        then have s2: "s2 = s" by (blast dest: reads_answer(2) [OF assms(2)])
        have old: "policy_at s i = Some q" using GetPolicy_facts(2) [OF val(1)] by blast
        from val(2) [unfolded s2] show ?thesis
        proof (cases rule: attempt_cases)
          case (err e s3)
          have "isl (Inl e :: error + unit)" by simp
          note same = Update_answers(2) [OF assms(2) err(1) this]
          have "wallet_at s3 = wallet_at s" "policy_at s3 = policy_at s"
            using same UpdatePolicy_wallets [OF err(1)] by auto
          with err(2) quietD [OF quiet_audit [of s3]] show ?thesis
            by (auto simp: throw_def after_def intro!: accounted_still)
        next
          case (val x s3)
          then show ?thesis
            by (intro Limits_accounted [OF assms(2,3) assms(4) [OF old] old val(1), where U = U and ch = ch])
              (auto simp: after_def intro: GetPolicy_facts(1))
        qed
      qed
    qed
  qed
qed

lemma Disable_accounted:
  assumes "db_ok s" "answers s" "WalletService_Disable (pg_wallet_service U ch qu chainID defaults clock) u i a s = (r, t)"
  shows "accounted (Disabling u i a) s t"
proof -
  let ?svc = "pg_wallet_service U ch qu chainID defaults clock"
  from assms(3) show ?thesis
    unfolding WalletService_Disable_def pg_service_sels WalletRepo_sels
  proof (cases rule: attempt_cases)
    case (err e s1)
    with reads_answer(1) [OF assms(2) err(1)] show ?thesis by (auto simp: throw_def intro: accounted_still)
  next
    case (val w s1)
    then have s1: "s1 = s" by (blast dest: reads_answer(1) [OF assms(2)])
    show ?thesis
    proof (cases "Wallet_UserID w = u")
      case False
      with val(2) s1 show ?thesis by (auto simp: throw_def intro: accounted_still)
    next
      case True
      from val(2) [unfolded s1 True, simplified] show ?thesis
      proof (cases rule: attempt_cases)
        case (err e s2)
        with SetStatus_answers [OF assms(2) err(1)] show ?thesis by (auto simp: throw_def intro: accounted_still)
      next
        case (val x s2)
        note set = val(1)
        let ?mk = "\<lambda>now. WithSubject ''wallet'' i (NewAuditEvent now ActorTelegramUser a ActionWalletDisabled)"
        obtain y where rec: "AuditRepo_Record (?mk (clock s2)) s2 = (y, audit ?svc ?mk s2)" by (rule pg_audit)
        have t: "same_db (audit ?svc ?mk s2) t" using val(2) by (auto simp: after_def ok_def)
        have w: "writable (?mk (clock s2))"
          by (simp add: writable_def event_checked_def NewAuditEvent_def WithDetail_def WithSubject_def go_consts)
        have "untouched s s2 j \<or> accounts_for s (Disabling u i a) j (row_of_event (engine s) (?mk (clock s2)))" for j
        proof (cases "wallet_at s j")
          case None
          with SetStatus_none_at [OF set, of j] SetStatus_policies [OF set] show ?thesis by (simp add: untouched_def)
        next
          case (Some v)
          with SetStatus_effect [OF assms(1) set, of j v] SetStatus_policies [OF set]
          have "untouched s s2 j \<or> wallet_at s i = Some v" by (auto simp: untouched_def)
          with wallet_at_uuid [OF Some] wallet_at_uuid [of s i v] show ?thesis
            by (auto simp: accounts_for_def row_of_event_def WithSubject_def NewAuditEvent_def)
        qed
        moreover have "audit_logs s2 = audit_logs s" "engine s2 = engine s" using repo_trail(2) [OF assms(2) set] by auto
        moreover have "answers s2" using SetStatus_answers [OF assms(2) set] by blast
        ultimately show ?thesis using accounted_written [OF _ w _ _ rec t] by blast
      qed
    qed
  qed
qed

section \<open>The audit trail accounts for every change\<close>

fun recordable :: "'z pgdb_scheme \<Rightarrow> use_case \<Rightarrow> bool" where
  "recordable s (Limiting u i p a) \<longleftrightarrow> finite_limits p \<and> (\<forall>q. policy_at s i = Some q \<longrightarrow> finite_limits q)"
| "recordable s _ \<longleftrightarrow> True"

lemma done_with_state: "done_with m s = (r, t) \<Longrightarrow> \<exists>q. m s = (q, t)"
  unfolding done_with_def by (erule attempt_cases) (auto simp: throw_def ok_def)

lemma perform_accounted:
  assumes "db_ok s" "answers s" "recordable s c" "perform V (pg_wallet_service U ch qu chainID defaults clock) c s = (r, t)"
  shows "accounted c s t"
proof (cases c)
  case (Linking req)
  with assms show ?thesis by (auto dest!: done_with_state intro: Link_accounted)
next
  case (Verifying i)
  with assms show ?thesis by (auto dest!: done_with_state intro: Verify_accounted)
next
  case (Limiting u i p a)
  with assms show ?thesis by (auto dest!: done_with_state intro: Update_accounted)
next
  case (Disabling u i a)
  with assms show ?thesis by (auto intro: Disable_accounted)
next
  case (Listing u)
  with assms show ?thesis by (auto dest!: done_with_state pgs.List_effect(1) [OF assms(1)] intro: accounted_still)
next
  case (Showing u i)
  with assms show ?thesis by (auto dest!: done_with_state pgs.Get_effect(1) intro: accounted_still)
qed

text \<open>
  C6. Nobody changes a wallet or its limits without a trace. Whatever wallet use case runs against
  a database that answers, and however it ends, a wallet (or its limits) that differs
  afterwards is accounted for: the audit trail is the old one with exactly one row more, which
  has the action of that use case with outcome "ok", names the user the call was made for (or
  the worker) as the actor, and that wallet as its subject; the row of changed limits holds the
  old limits and the requested ones. Limits that are no numbers are excluded: their event cannot
  be written.
\<close>

theorem wallet_changes_are_audited:
  assumes "db_ok s" "answers s" "recordable s c"
    and "perform U (pg_wallet_service U ch qu chainID defaults clock) c s = (r, t)"
    and "\<not> untouched s t i"
  shows "\<exists>row. audit_logs t = audit_logs s @ [row] \<and> accounts_for s c i row"
  using perform_accounted [OF assms(1-4)] assms(5) by (auto simp: accounted_def)

definition sample_change :: use_case where
  "sample_change = Limiting ''alice'' ''w1'' (sample_policy\<lparr>Pol_TradingEnabled := True\<rparr>) ''7''"

definition sample_changed :: "(error + unit) \<times> pgdb" where
  "sample_changed = perform ascii_tables sample_service sample_change (sample_db WalletActive)"

lemma sample_recordable: "answers (sample_db WalletActive) \<and> recordable (sample_db WalletActive) sample_change"
proof -
  have "finite_limits q" if "policy_at (sample_db WalletActive) ''w1'' = Some q" for q
    using that by (auto simp: policy_at_def find_policy_def sample_db_def sample_policy_row_def empty_db_def plain_engine_def
        policy_of_row_def finite_limits_def)
  then show ?thesis
    by (simp add: sample_change_def answers_def sample_db_def empty_db_def finite_limits_def sample_policy_def zero_WalletPolicy_def)
qed

theorem wallet_changes_are_audited_witness:
  "\<exists>row. audit_logs (snd sample_changed) = [row] \<and> ar_action row = ''policy:changed'' \<and> ar_actor_id row = Some ''7''
     \<and> coalesce (ar_subject_id row) = ''w1'' \<and> detailed (sample_db WalletActive) sample_change (ar_detail row)"
proof -
  have run: "perform ascii_tables (pg_wallet_service ascii_tables (Some sample_probe) None 4663 sample_policy pg_clock)
      sample_change (sample_db WalletActive) = (fst sample_changed, snd sample_changed)"
    by (simp add: sample_changed_def sample_service_def)
  have "map_option Pol_TradingEnabled (policy_at (snd sample_changed) ''w1'') = Some True
      \<and> map_option Pol_TradingEnabled (policy_at (sample_db WalletActive) ''w1'') = Some False" by code_simp
  then have "\<not> untouched (sample_db WalletActive) (snd sample_changed) ''w1''" by (auto simp: untouched_def)
  from wallet_changes_are_audited [OF sample_states(2) conjunct1 [OF sample_recordable] conjunct2 [OF sample_recordable] run this]
  show ?thesis
    by (auto simp: accounts_for_def sample_change_def sample_db_def empty_db_def plain_engine_def go_consts coalesce_def
        split: option.splits)
qed

end
