(* ===== verification/FirstContact.thy ===== *)
theory FirstContact
  imports Runs
begin

text \<open>
  First contact under concurrency: \<open>EnsureTelegramUser\<close> of \<open>persistence/postgres/users.go\<close> statement
  by statement, at PostgreSQL's default isolation level. In \<open>UserRepo\<close> the transaction is one
  step; here the bot and the API may commit between its statements, so two first messages of a
  user can both find no account. The transaction sees the committed rows and its own; a commit of
  others that needs a key or a row it holds waits for its end.
\<close>

section \<open>An open transaction\<close>

text \<open>
  The committed database, what the others commit before each of the coming statements, and the
  rows the transaction has inserted or refreshed.
\<close>

record 'd open_tx =
  tx_db :: 'd
  tx_moves :: "('d \<Rightarrow> 'd) list"
  tx_users :: "User list"
  tx_tgs :: "tg_row list"
  tx_refresh :: "(TelegramUser \<times> time) option"

definition tx_begin :: "('d \<Rightarrow> 'd) list \<Rightarrow> 'd \<Rightarrow> 'd open_tx" where
  "tx_begin moves s = \<lparr>tx_db = s, tx_moves = moves, tx_users = [], tx_tgs = [], tx_refresh = None\<rparr>"

definition tx_view :: "'z pgdb_scheme open_tx \<Rightarrow> 'z pgdb_scheme" where
  "tx_view x = (tx_db x)\<lparr>users := users (tx_db x) @ tx_users x,
     telegram_users := (case tx_refresh x of None \<Rightarrow> telegram_users (tx_db x)
       | Some (tu, now) \<Rightarrow> refreshed tu now (telegram_users (tx_db x))) @ tx_tgs x\<rparr>"

text \<open>A commit to \<open>d\<close> that has to wait: it takes a key the transaction has inserted or changes the row it has refreshed.\<close>

definition clash :: "'z pgdb_scheme open_tx \<Rightarrow> 'z pgdb_scheme \<Rightarrow> bool" where
  "clash x d \<longleftrightarrow> User_ID ` set (users d) \<inter> User_ID ` set (tx_users x) \<noteq> {}
     \<or> tr_telegram_id ` set (telegram_users d) \<inter> tr_telegram_id ` set (tx_tgs x) \<noteq> {}
     \<or> (case tx_refresh x of None \<Rightarrow> False
        | Some (tu, now) \<Rightarrow> find_tg d (TU_TelegramID tu) \<noteq> find_tg (tx_db x) (TU_TelegramID tu))"

definition tx_others :: "'z pgdb_scheme open_tx \<Rightarrow> 'z pgdb_scheme open_tx" where
  "tx_others x = (case tx_moves x of [] \<Rightarrow> x
     | f # fs \<Rightarrow> (let d = f (tx_db x) in x\<lparr>tx_db := (if clash x d then tx_db x else d), tx_moves := fs\<rparr>))"

definition in_tx :: "('z pgdb_scheme, 'a) op \<Rightarrow> ('z pgdb_scheme open_tx, 'a) op" where
  "in_tx m x0 = (let x = tx_others x0; c = tx_db x in case m (tx_view x) of (r, v) \<Rightarrow>
     (r, x\<lparr>tx_db := c\<lparr>pg_faults := pg_faults v, pg_uuid_next := pg_uuid_next v\<rparr>,
           tx_users := drop (length (users c)) (users v),
           tx_tgs := drop (length (telegram_users c)) (telegram_users v)\<rparr>))"

definition in_refresh :: "TelegramUser \<Rightarrow> ('z pgdb_scheme open_tx, unit) op" where
  "in_refresh tu x0 = (case in_tx (stmt (refresh_tg tu)) x0 of (r, x) \<Rightarrow>
     (r, x\<lparr>tx_refresh := Some (tu, pg_clock (tx_db x))\<rparr>))"

section \<open>The method, statement by statement\<close>

definition open_load :: "TelegramUser \<Rightarrow> UserID \<Rightarrow> bool \<Rightarrow> ('z pgdb_scheme open_tx, User \<times> TelegramUser \<times> bool) op" where
  "open_load tu userID created =
     attempt (in_tx (query (select_user userID))) (\<lambda>err. throw (Wrap ''load user: '' err []))
       (\<lambda>user. attempt (scanTelegramUser (in_tx (query (select_tg (TU_TelegramID tu))))) throw
       (\<lambda>stored. ok (user, stored, created)))"

definition open_ensure :: "TelegramUser \<Rightarrow> ('z pgdb_scheme open_tx, User \<times> TelegramUser \<times> bool) op" where
  "open_ensure tu =
     attempt (in_tx (query (select_tg (TU_TelegramID tu))))
       (\<lambda>err. if errors_Is err (Foreign PgxErrNoRows) then
            attempt (in_tx (stmt insert_user)) (\<lambda>err. throw (Wrap ''create user: '' err []))
              (\<lambda>userID. attempt (in_tx (stmt (insert_tg tu userID))) (\<lambda>err. throw (Wrap ''link telegram user: '' err []))
              (\<lambda>_. open_load tu userID True))
          else throw (Wrap ''lookup telegram user: '' err []))
       (\<lambda>row. attempt (in_refresh tu) (\<lambda>err. throw (Wrap ''refresh telegram user: '' err []))
          (\<lambda>_. open_load tu (tr_user_id row) False))"

text \<open>A rollback leaves what the others have committed; a commit adds the transaction's rows.\<close>

definition tx_commit :: "'a \<Rightarrow> 'z pgdb_scheme open_tx \<Rightarrow> (error + 'a) \<times> 'z pgdb_scheme" where
  "tx_commit a x0 = (let x = tx_others x0 in case pg_faults (tx_db x) of
       [] \<Rightarrow> (Inr a, tx_view x)
     | f # fs \<Rightarrow> (case f of None \<Rightarrow> (Inr a, (tx_view x)\<lparr>pg_faults := fs\<rparr>)
         | Some (Lost_before err) \<Rightarrow> (Inl (Wrap ''commit: '' err []), (tx_db x)\<lparr>pg_faults := fs\<rparr>)
         | Some (Lost_after err) \<Rightarrow> (Inl (Wrap ''commit: '' err []), (tx_view x)\<lparr>pg_faults := fs\<rparr>)))"

definition EnsureTelegramUser_amid ::
    "TelegramUser \<Rightarrow> ('z pgdb_scheme \<Rightarrow> 'z pgdb_scheme) list \<Rightarrow> ('z pgdb_scheme, User \<times> TelegramUser \<times> bool) op" where
  "EnsureTelegramUser_amid tu moves =
     (if \<not> TelegramUserID_Valid (TU_TelegramID tu) then throw (New ''invalid telegram id'')
      else attempt (stmt (ok ())) (\<lambda>err. throw (Wrap ''begin: '' err []))
        (\<lambda>_ s0. case open_ensure tu (tx_begin moves s0) of (r, x) \<Rightarrow> (case r of
            Inl err \<Rightarrow> (Inl err, tx_db x)
          | Inr a \<Rightarrow> tx_commit a x)))"

section \<open>What the others may do\<close>

text \<open>
  They keep the constraints, the server and every account, and leave no account behind that no
  Telegram identity leads to.
\<close>

definition orphans :: "'z pgdb_scheme \<Rightarrow> string set" where
  "orphans s = User_ID ` set (users s) - tr_user_id ` set (telegram_users s)"

definition peers :: "'z pgdb_scheme \<Rightarrow> 'z pgdb_scheme \<Rightarrow> bool" where
  "peers c d \<longleftrightarrow> (db_ok c \<longrightarrow> db_ok d) \<and> engine d = engine c
     \<and> (\<forall>i u. account_of c i = Some u \<longrightarrow> account_of d i = Some u) \<and> orphans d \<subseteq> orphans c"

lemma peers_same: "same_db c d \<Longrightarrow> peers c d"
  using account_same [of c d] by (auto simp: peers_def db_ok_same) (auto simp: orphans_def same_db_def)

lemma peers_refl [simp]: "peers c c"
  by (simp add: peers_same)

lemma peers_trans: "peers b c \<Longrightarrow> peers c d \<Longrightarrow> peers b d"
  by (auto simp: peers_def)

lemma peers_created: "db_ok c \<Longrightarrow> created_identity tu c u row t \<Longrightarrow> peers c t"
  using created_db_ok [of c tu u row t] created_account(4) [of c tu u row t]
  by (auto simp: peers_def) (auto simp: created_identity_def same_db_def orphans_def)

lemma peers_refreshed: "db_ok c \<Longrightarrow> refreshed_identity tu c u row t \<Longrightarrow> peers c t"
  using refreshed_db_ok [of c tu u row t] refreshed_account(1) [of tu c u row t]
  by (auto simp: peers_def)
    (auto simp: refreshed_identity_def same_db_def orphans_def image_image [symmetric] set_map [symmetric] simp del: set_map)

section \<open>The invariant of the open transaction\<close>

definition open_ok :: "'z pgdb_scheme \<Rightarrow> 'z pgdb_scheme open_tx \<Rightarrow> bool" where
  "open_ok s x \<longleftrightarrow> db_ok (tx_db x) \<and> peers s (tx_db x) \<and> (\<forall>f \<in> set (tx_moves x). \<forall>c. db_ok c \<longrightarrow> peers c (f c))
     \<and> \<not> clash x (tx_db x)"

lemma clash_self: "clash x (tx_db x) \<longleftrightarrow> User_ID ` set (users (tx_db x)) \<inter> User_ID ` set (tx_users x) \<noteq> {}
    \<or> tr_telegram_id ` set (telegram_users (tx_db x)) \<inter> tr_telegram_id ` set (tx_tgs x) \<noteq> {}"
  by (auto simp: clash_def split: option.splits)

lemma tx_others_own [simp]:
  "tx_users (tx_others x) = tx_users x" "tx_tgs (tx_others x) = tx_tgs x" "tx_refresh (tx_others x) = tx_refresh x"
  by (simp_all add: tx_others_def Let_def split: list.split)

lemma open_ok_others:
  assumes "open_ok s x"
  shows "open_ok s (tx_others x)" "peers (tx_db x) (tx_db (tx_others x))"
    "tx_refresh x = Some (tu, now) \<Longrightarrow> find_tg (tx_db (tx_others x)) (TU_TelegramID tu) = find_tg (tx_db x) (TU_TelegramID tu)"
proof -
  have *: "peers (tx_db x) (f (tx_db x))" if "f \<in> set (tx_moves x)" for f using assms that by (simp add: open_ok_def)
  show p: "peers (tx_db x) (tx_db (tx_others x))" by (auto simp: tx_others_def Let_def * split: list.split)
  show "tx_refresh x = Some (tu, now) \<Longrightarrow> find_tg (tx_db (tx_others x)) (TU_TelegramID tu) = find_tg (tx_db x) (TU_TelegramID tu)"
    by (auto simp: tx_others_def Let_def clash_def split: list.split)
  have "set (tx_moves (tx_others x)) \<subseteq> set (tx_moves x)" "\<not> clash (tx_others x) (tx_db (tx_others x))"
    using assms by (auto simp: open_ok_def clash_self tx_others_own) (auto simp: tx_others_def Let_def clash_def split: list.splits if_splits)
  moreover have "db_ok (tx_db (tx_others x))" using assms p by (simp add: open_ok_def peers_def)
  ultimately show "open_ok s (tx_others x)" using assms peers_trans [OF _ p] unfolding open_ok_def by blast
qed

text \<open>Statements insert rows under keys that are new to the view; no row changes its keys.\<close>

definition inserts :: "('z pgdb_scheme, 'a) op \<Rightarrow> bool" where
  "inserts m \<longleftrightarrow> (\<forall>s r t. m s = (r, t) \<longrightarrow> (\<exists>us ids. users t = users s @ us
     \<and> User_ID ` set us \<inter> User_ID ` set (users s) = {}
     \<and> map tr_telegram_id (telegram_users t) = map tr_telegram_id (telegram_users s) @ ids
     \<and> set ids \<inter> tr_telegram_id ` set (telegram_users s) = {}))"

lemma inserts_stmt: "inserts m \<Longrightarrow> inserts (stmt m)"
  unfolding inserts_def by (auto elim!: stmt_cases) fastforce+

lemma inserts_statements:
  "inserts (query q)" "inserts (stmt insert_user)" "inserts (stmt (insert_tg tu k))" "inserts (stmt (refresh_tg tu))"
  unfolding query_def
  by (rule inserts_stmt, force simp: inserts_def insert_user_def insert_tg_def refresh_tg_def with_uuid_def Let_def
      split: if_splits option.splits)+

lemma tx_view_sels [simp]:
  "users (tx_view x) = users (tx_db x) @ tx_users x" "engine (tx_view x) = engine (tx_db x)"
  "map tr_telegram_id (telegram_users (tx_view x)) = map tr_telegram_id (telegram_users (tx_db x)) @ map tr_telegram_id (tx_tgs x)"
  "pg_faults (tx_view x) = pg_faults (tx_db x)" "pg_uuid_next (tx_view x) = pg_uuid_next (tx_db x)"
  by (auto simp: tx_view_def split: option.split prod.split)

lemma in_tx_cases:
  assumes "in_tx m x = (r, y)"
  obtains v where "m (tx_view (tx_others x)) = (r, v)" "same_db (tx_db (tx_others x)) (tx_db y)"
    "tx_moves y = tx_moves (tx_others x)" "tx_refresh y = tx_refresh x"
    "tx_users y = drop (length (users (tx_db (tx_others x)))) (users v)"
    "tx_tgs y = drop (length (telegram_users (tx_db (tx_others x)))) (telegram_users v)"
    "tx_db y = (tx_db (tx_others x))\<lparr>pg_faults := pg_faults v, pg_uuid_next := pg_uuid_next v\<rparr>"
  using assms by (auto simp: in_tx_def Let_def same_db_def split: prod.splits)

lemma keeps_in_tx: "inserts m \<Longrightarrow> keeps (open_ok s) (in_tx m)"
proof (rule keepsI)
  fix x r y
  assume m: "inserts m" and x: "open_ok s x" and "in_tx m x = (r, y)"
  let ?x = "tx_others x"
  from \<open>in_tx m x = (r, y)\<close> show "open_ok s y"
  proof (rule in_tx_cases)
    fix v
    assume v: "m (tx_view ?x) = (r, v)" and y: "same_db (tx_db ?x) (tx_db y)" "tx_moves y = tx_moves ?x"
      "tx_refresh y = tx_refresh x" "tx_users y = drop (length (users (tx_db ?x))) (users v)"
      "tx_tgs y = drop (length (telegram_users (tx_db ?x))) (telegram_users v)"
    from m v obtain us ids where new: "users v = users (tx_view ?x) @ us"
      "User_ID ` set us \<inter> User_ID ` set (users (tx_view ?x)) = {}"
      "map tr_telegram_id (telegram_users v) = map tr_telegram_id (telegram_users (tx_view ?x)) @ ids"
      "set ids \<inter> tr_telegram_id ` set (telegram_users (tx_view ?x)) = {}" unfolding inserts_def by blast
    have keys: "tr_telegram_id ` set (telegram_users (tx_view ?x)) = tr_telegram_id ` set (telegram_users (tx_db ?x)) \<union> tr_telegram_id ` set (tx_tgs x)"
      using arg_cong [OF tx_view_sels(3) [of ?x], of set] by (simp only: set_map set_append tx_others_own)
    have own: "tx_users y = tx_users x @ us" using y(4) new(1) by simp
    have "map tr_telegram_id (tx_tgs y) = map tr_telegram_id (tx_tgs x) @ ids" using y(5) arg_cong [OF new(3), of "drop (length (telegram_users (tx_db ?x)))"] by (simp add: drop_map)
    from arg_cong [OF this, of set] have own': "tr_telegram_id ` set (tx_tgs y) = tr_telegram_id ` set (tx_tgs x) \<union> set ids" by simp
    note ok = open_ok_others(1) [OF x]
    have "\<not> clash y (tx_db y)"
      using ok y(1) new(2,4) keys unfolding clash_self own own' open_ok_def same_db_def by auto
    with ok y(1,2) show "open_ok s y"
      using peers_trans [OF _ peers_same [OF y(1)]] db_ok_same [OF y(1)] by (auto simp: open_ok_def)
  qed
qed

lemma keeps_in_refresh: "keeps (open_ok s) (in_refresh tu)"
proof (rule keepsI)
  fix x r y
  assume "open_ok s x" "in_refresh tu x = (r, y)"
  then obtain z where z: "in_tx (stmt (refresh_tg tu)) x = (r, z)" "y = z\<lparr>tx_refresh := Some (tu, pg_clock (tx_db z))\<rparr>"
    by (auto simp: in_refresh_def split: prod.splits)
  have "open_ok s z" using keepsD [OF keeps_in_tx [OF inserts_statements(4)] \<open>open_ok s x\<close> z(1)] .
  then show "open_ok s y" by (auto simp: z(2) open_ok_def clash_def split: option.splits)
qed

lemma keeps_open_ensure: "keeps (open_ok s) (open_ensure tu)"
  unfolding open_ensure_def open_load_def scanTelegramUser_def
  by (intro keeps_rules keeps_in_tx keeps_in_refresh inserts_statements)

section \<open>What a transaction that reaches its commit holds\<close>

definition holds_created :: "TelegramUser \<Rightarrow> User \<Rightarrow> tg_row \<Rightarrow> 'z pgdb_scheme open_tx \<Rightarrow> bool" where
  "holds_created tu u row x \<longleftrightarrow> tx_users x = [u] \<and> tx_tgs x = [row] \<and> tx_refresh x = None \<and> User_Status u = UserActive
     \<and> pg_uuid_in (engine (tx_db x)) (User_ID u) = Some (User_ID u) \<and> tr_user_id row = User_ID u
     \<and> tr_telegram_id row = sint (TU_TelegramID tu) \<and> tg_row_checked row"

definition holds_refreshed :: "TelegramUser \<Rightarrow> User \<Rightarrow> tg_row \<Rightarrow> 'z pgdb_scheme open_tx \<Rightarrow> bool" where
  "holds_refreshed tu u row x \<longleftrightarrow> tx_users x = [] \<and> tx_tgs x = [] \<and> (\<exists>now r0. tx_refresh x = Some (tu, now)
     \<and> find_tg (tx_db x) (TU_TelegramID tu) = Some r0 \<and> row = refresh_row tu now r0 \<and> account_of (tx_db x) (TU_TelegramID tu) = Some u)"

lemma holds_others:
  assumes "open_ok s x"
  shows "holds_created tu u row x \<Longrightarrow> holds_created tu u row (tx_others x)"
    and "holds_refreshed tu u row x \<Longrightarrow> holds_refreshed tu u row (tx_others x)"
  using open_ok_others [OF assms] by (auto simp: holds_created_def holds_refreshed_def peers_def)

lemma created_view:
  assumes "open_ok s x" "holds_created tu u row x"
  shows "created_identity tu (tx_db x) u row (tx_view x)"
  using assms by (auto simp: holds_created_def open_ok_def clash_self created_identity_def tx_view_def)

lemma account_has_row:
  assumes "account_of s i = Some u"
  obtains r where "find_tg s i = Some r"
  using assms by (auto simp: account_of_def bind_eq_Some_conv)

lemma account_row:
  assumes "find_tg s i = Some r" "account_of s i = Some u"
  shows "user_with s (tr_user_id r) = Some u" "User_ID u = tr_user_id r"
  using assms user_with_mem [of s "tr_user_id r" u] by (auto simp: account_of_def)

lemma refreshed_view:
  assumes "holds_refreshed tu u row x"
  shows "refreshed_identity tu (tx_db x) u row (tx_view x)"
proof -
  from assms obtain now r0 where h: "tx_users x = []" "tx_tgs x = []" "tx_refresh x = Some (tu, now)"
    "find_tg (tx_db x) (TU_TelegramID tu) = Some r0" "row = refresh_row tu now r0" "account_of (tx_db x) (TU_TelegramID tu) = Some u"
    unfolding holds_refreshed_def by blast
  have "same_db ((tx_db x)\<lparr>telegram_users := refreshed tu now (telegram_users (tx_db x))\<rparr>) (tx_view x)"
    using h(1-3) by (simp add: tx_view_def same_db_def)
  with h account_row(1) [OF h(4,6)] show ?thesis unfolding refreshed_identity_def by blast
qed

text \<open>A read leaves the transaction as it was, but for what the others did before it.\<close>

lemma drop_view [simp]:
  "drop (length (telegram_users (tx_db x))) (telegram_users (tx_view x)) = tx_tgs x"
  by (auto simp: tx_view_def refreshed_def split: option.split)

lemma in_tx_query:
  assumes "in_tx (query q) x = (r, y)"
  shows "tx_users y = tx_users x" "tx_tgs y = tx_tgs x" "tx_refresh y = tx_refresh x"
    "same_db (tx_db (tx_others x)) (tx_db y)" "same_db (tx_view (tx_others x)) (tx_view y)"
    "r = Inr a \<Longrightarrow> \<exists>fs. q ((tx_view (tx_others x))\<lparr>pg_faults := fs\<rparr>) = Inr a"
proof -
  obtain v where v: "query q (tx_view (tx_others x)) = (r, v)" "same_db (tx_db (tx_others x)) (tx_db y)" "tx_refresh y = tx_refresh x"
    "tx_users y = drop (length (users (tx_db (tx_others x)))) (users v)"
    "tx_tgs y = drop (length (telegram_users (tx_db (tx_others x)))) (telegram_users v)"
    using assms by (rule in_tx_cases)
  have "same_db (tx_view (tx_others x)) v" using v(1) by (rule query_same)
  then have "users v = users (tx_view (tx_others x))" "telegram_users v = telegram_users (tx_view (tx_others x))"
    by (simp_all add: same_db_def)
  with v show own: "tx_users y = tx_users x" "tx_tgs y = tx_tgs x" "tx_refresh y = tx_refresh x" by simp_all
  show "same_db (tx_db (tx_others x)) (tx_db y)" by (rule v(2))
  then show "same_db (tx_view (tx_others x)) (tx_view y)"
    by (auto simp: same_db_def tx_view_def own split: option.splits)
  show "\<exists>fs. q ((tx_view (tx_others x))\<lparr>pg_faults := fs\<rparr>) = Inr a" if "r = Inr a"
    using v(1) that unfolding query_def by (auto elim!: stmt_Inr)
qed

lemma holds_query:
  assumes "open_ok s x" "in_tx (query q) x = (r, y)"
  shows "holds_created tu u row x \<Longrightarrow> holds_created tu u row y"
    and "holds_refreshed tu u row x \<Longrightarrow> holds_refreshed tu u row y"
  using holds_others [OF assms(1)] in_tx_query(1-4) [OF assms(2)] account_same [OF in_tx_query(4) [OF assms(2)]]
    find_tg_same(1) [OF in_tx_query(4) [OF assms(2)]]
  by (simp_all add: holds_created_def holds_refreshed_def) (simp add: same_db_def)

lemma open_load_Inr:
  assumes "open_ok s x" "open_load tu k created x = (Inr (u, tg, c), y)"
  obtains x1 x2 where "x1 = tx_others x" "open_ok s x1" "c = created"
    "\<exists>fs. select_user k ((tx_view x1)\<lparr>pg_faults := fs\<rparr>) = Inr u"
    "open_ok s x2" "tx_users x2 = tx_users x" "tx_tgs x2 = tx_tgs x" "tx_refresh x2 = tx_refresh x"
    "peers (tx_db x1) (tx_db x2)"
    "\<exists>row. find_tg (tx_view x2) (TU_TelegramID tu) = Some row \<and> tg = telegram_user_of_row row"
    "same_db (tx_db x2) (tx_db y)" "tx_users y = tx_users x" "tx_tgs y = tx_tgs x" "tx_refresh y = tx_refresh x"
proof -
  from assms(2) obtain z where 1: "in_tx (query (select_user k)) x = (Inr u, z)"
    and 2: "scanTelegramUser (in_tx (query (select_tg (TU_TelegramID tu)))) z = (Inr tg, y)" and c: "c = created"
    unfolding open_load_def by (auto elim!: attempt_cases)
  from 2 obtain row where 3: "in_tx (query (select_tg (TU_TelegramID tu))) z = (Inr row, y)" and tg: "tg = telegram_user_of_row row"
    unfolding scanTelegramUser_def by (auto elim!: attempt_cases split: if_splits)
  have z: "open_ok s z" using keepsD [OF keeps_in_tx [OF inserts_statements(1)] assms(1) 1] .
  note q1 = in_tx_query [OF 1] and q3 = in_tx_query [OF 3]
  have "find_tg (tx_view (tx_others z)) (TU_TelegramID tu) = Some row" using q3(6) [OF refl] by auto
  moreover have "peers (tx_db (tx_others x)) (tx_db (tx_others z))"
    using peers_trans [OF peers_same [OF q1(4)] open_ok_others(2) [OF z]] .
  ultimately show ?thesis
    using that [of "tx_others x" "tx_others z"] open_ok_others(1) [OF assms(1)] open_ok_others(1) [OF z] q1(1-3,6) q3(1-4) c tg
    by auto
qed

lemma tx_view_fresh: "tx_users x = [] \<Longrightarrow> tx_tgs x = [] \<Longrightarrow> tx_refresh x = None \<Longrightarrow> tx_view x = tx_db x"
  by (simp add: tx_view_def)

lemma open_create:
  assumes "open_ok s x" "tx_users x = []" "tx_tgs x = []" "tx_refresh x = None"
    and 1: "in_tx (stmt insert_user) x = (Inr k, x1)" and 2: "in_tx (stmt (insert_tg tu k)) x1 = (Inr z, x2)"
  obtains u row where "holds_created tu u row x2" "User_ID u = k"
proof -
  let ?c = "tx_db (tx_others x)" and ?d = "tx_db (tx_others x1)"
  have x1: "open_ok s x1" using keepsD [OF keeps_in_tx [OF inserts_statements(2)] assms(1) 1] .
  obtain v where v: "stmt insert_user ?c = (Inr k, v)" "same_db ?c (tx_db x1)" "tx_refresh x1 = None"
    "tx_users x1 = drop (length (users ?c)) (users v)" "tx_tgs x1 = drop (length (telegram_users ?c)) (telegram_users v)"
    using 1 assms(2-4) by (auto simp: tx_view_fresh elim!: in_tx_cases)
  from v(1) obtain fs where "insert_user (?c\<lparr>pg_faults := fs\<rparr>) = (Inr k, v)" by (rule stmt_Inr)
  then obtain u where u: "same_db (?c\<lparr>users := users ?c @ [u]\<rparr>) v" "User_ID u = k" "User_Status u = UserActive"
    "pg_uuid_in (engine ?c) k = Some k"
    using db_okD(1) [of ?c] open_ok_others(1) [OF assms(1)]
    by (elim insert_user_Inr) (auto simp: same_db_def open_ok_def)
  from v u(1) have own: "tx_users x1 = [u]" "tx_tgs x1 = []" by (simp_all add: same_db_def)
  have e: "engine ?d = engine ?c" using open_ok_others(2) [OF x1] v(2) by (simp add: peers_def same_db_def)
  obtain w where w: "stmt (insert_tg tu k) (tx_view (tx_others x1)) = (Inr z, w)" "same_db ?d (tx_db x2)" "tx_refresh x2 = None"
    "tx_users x2 = drop (length (users ?d)) (users w)" "tx_tgs x2 = drop (length (telegram_users ?d)) (telegram_users w)"
    using 2 v(3) by (auto elim!: in_tx_cases)
  from w(1) obtain fs' where ins: "insert_tg tu k ((tx_view (tx_others x1))\<lparr>pg_faults := fs'\<rparr>) = (Inr z, w)" by (rule stmt_Inr)
  obtain row where row: "same_db ((tx_view (tx_others x1))\<lparr>telegram_users := telegram_users (tx_view (tx_others x1)) @ [row]\<rparr>) w"
    "tr_user_id row = k" "tr_telegram_id row = sint (TU_TelegramID tu)" "tg_row_checked row"
    using u(4) e by (rule_tac insert_tg_Inr [OF ins]) (auto simp: same_db_def)
  have "telegram_users (tx_view (tx_others x1)) = telegram_users ?d" using own v(3) by (simp add: tx_view_def)
  with w row(1) own have "tx_users x2 = [u]" "tx_tgs x2 = [row]" by (auto simp: same_db_def)
  then have "holds_created tu u row x2"
    using w(2,3) u row e by (simp add: holds_created_def same_db_def)
  with u(2) that show ?thesis by blast
qed

lemma created_loaded:
  assumes "open_ok s x" "holds_created tu u0 row x" "open_load tu (User_ID u0) True x = (Inr (u, tg, c), y)"
  shows "c \<and> u = u0 \<and> tg = telegram_user_of_row row \<and> holds_created tu u row y"
  using assms(1,3)
proof (rule open_load_Inr)
  fix x1 x2
  assume x1: "x1 = tx_others x" "open_ok s x1" and c: "c = True"
    and u: "\<exists>fs. select_user (User_ID u0) ((tx_view x1)\<lparr>pg_faults := fs\<rparr>) = Inr u"
    and x2: "open_ok s x2" "tx_users x2 = tx_users x" "tx_tgs x2 = tx_tgs x" "tx_refresh x2 = tx_refresh x"
    and p: "peers (tx_db x1) (tx_db x2)"
    and tg: "\<exists>r. find_tg (tx_view x2) (TU_TelegramID tu) = Some r \<and> tg = telegram_user_of_row r"
    and y: "same_db (tx_db x2) (tx_db y)" "tx_users y = tx_users x" "tx_tgs y = tx_tgs x" "tx_refresh y = tx_refresh x"
  have h1: "holds_created tu u0 row x1" using holds_others(1) [OF assms(1,2)] x1(1) by simp
  then have h2: "holds_created tu u0 row x2" using x1(1) x2 p by (auto simp: holds_created_def peers_def)
  note v1 = created_view [OF x1(2) h1] and v2 = created_view [OF x2(1) h2]
  have "user_with (tx_view x1) (User_ID u0) = Some u0"
    using v1 by (auto simp: created_identity_def same_db_def user_with_def find_fresh)
  moreover have "pg_uuid_in (engine (tx_view x1)) (User_ID u0) = Some (User_ID u0)" using h1 by (simp add: holds_created_def)
  ultimately have "u = u0" using u select_user_Inr by fastforce
  moreover have "find_tg (tx_view x2) (TU_TelegramID tu) = Some row"
    using v2 by (auto simp: created_identity_def same_db_def find_tg_def find_fresh)
  ultimately show ?thesis using c tg h2 x2 y by (auto simp: holds_created_def same_db_def)
qed

lemma refreshed_loaded:
  assumes "open_ok s x" "holds_refreshed tu u0 row0 x" "open_load tu (User_ID u0) False x = (Inr (u, tg, c), y)"
  shows "\<not> c \<and> (\<exists>row. tg = telegram_user_of_row row \<and> holds_refreshed tu u row y)"
  using assms(1,3)
proof (rule open_load_Inr)
  fix x1 x2
  assume x1: "x1 = tx_others x" "open_ok s x1" and c: "c = False"
    and u: "\<exists>fs. select_user (User_ID u0) ((tx_view x1)\<lparr>pg_faults := fs\<rparr>) = Inr u"
    and x2: "open_ok s x2" "tx_users x2 = tx_users x" "tx_tgs x2 = tx_tgs x" "tx_refresh x2 = tx_refresh x"
    and p: "peers (tx_db x1) (tx_db x2)"
    and tg: "\<exists>r. find_tg (tx_view x2) (TU_TelegramID tu) = Some r \<and> tg = telegram_user_of_row r"
    and y: "same_db (tx_db x2) (tx_db y)" "tx_users y = tx_users x" "tx_tgs y = tx_tgs x" "tx_refresh y = tx_refresh x"
  have "holds_refreshed tu u0 row0 x1" using holds_others(2) [OF assms(1,2)] x1(1) by simp
  then obtain now r1 where h1: "tx_users x1 = []" "tx_tgs x1 = []" "tx_refresh x1 = Some (tu, now)"
    "find_tg (tx_db x1) (TU_TelegramID tu) = Some r1" "account_of (tx_db x1) (TU_TelegramID tu) = Some u0"
    unfolding holds_refreshed_def by blast
  note r1 = account_row [OF h1(4,5)]
  have "user_with (tx_view x1) (User_ID u0) = Some u0" using r1 h1(1) by (simp add: user_with_def)
  moreover have "pg_uuid_in (engine (tx_db x1)) (User_ID u0) = Some (User_ID u0)"
    using x1(2) user_with_mem [OF r1(1)] by (auto simp: open_ok_def db_ok_def)
  ultimately have "u = u0" using u select_user_Inr by fastforce
  have a2: "account_of (tx_db x2) (TU_TelegramID tu) = Some u0" using p h1(5) by (simp add: peers_def)
  then obtain r2 where r2: "find_tg (tx_db x2) (TU_TelegramID tu) = Some r2" by (rule account_has_row)
  have "find_tg (tx_view x2) (TU_TelegramID tu) = Some (refresh_row tu now r2)"
    using r2 find_tg_mem [OF r2] h1(1-3) x1(1) x2 by (simp add: tx_view_def find_tg_def find_refreshed)
  moreover have "find_tg (tx_db y) (TU_TelegramID tu) = Some r2" "account_of (tx_db y) (TU_TelegramID tu) = Some u"
    using r2 a2 \<open>u = u0\<close> find_tg_same(1) [OF y(1)] account_same [OF y(1)] by simp_all
  ultimately show ?thesis using c tg h1(1-3) x1(1) y by (auto simp: holds_refreshed_def)
qed

lemma db_ok_account:
  assumes "db_ok s" "find_tg s i = Some r"
  obtains u where "account_of s i = Some u" "User_ID u = tr_user_id r"
proof -
  have "tr_user_id r \<in> User_ID ` set (users s)" using assms find_tg_mem [OF assms(2)] by (auto simp: db_ok_def users_ok_def)
  then have "user_with s (tr_user_id r) \<noteq> None" by (auto simp: user_with_def find_None_iff)
  then obtain u where "user_with s (tr_user_id r) = Some u" by blast
  with that [of u] assms(2) user_with_mem show thesis by (fastforce simp: account_of_def)
qed

lemma open_refresh:
  assumes "open_ok s x" "tx_users x = []" "tx_tgs x = []" "account_of (tx_db x) (TU_TelegramID tu) = Some u"
    and "in_refresh tu x = (Inr z, y)"
  obtains row where "holds_refreshed tu u row y"
proof -
  let ?c = "tx_db (tx_others x)"
  obtain y0 where y0: "in_tx (stmt (refresh_tg tu)) x = (Inr z, y0)" "y = y0\<lparr>tx_refresh := Some (tu, pg_clock (tx_db y0))\<rparr>"
    using assms(5) by (auto simp: in_refresh_def split: prod.splits)
  obtain v where v: "stmt (refresh_tg tu) (tx_view (tx_others x)) = (Inr z, v)" "same_db ?c (tx_db y0)"
    "tx_users y0 = drop (length (users ?c)) (users v)" "tx_tgs y0 = drop (length (telegram_users ?c)) (telegram_users v)"
    using y0(1) by (rule in_tx_cases)
  from v(1) obtain fs where "refresh_tg tu ((tx_view (tx_others x))\<lparr>pg_faults := fs\<rparr>) = (Inr z, v)" by (rule stmt_Inr)
  then have "users v = users (tx_view (tx_others x))"
    "length (telegram_users v) = length (telegram_users (tx_view (tx_others x)))"
    by (auto simp: refresh_tg_def refreshed_def)
  moreover have "length (telegram_users (tx_view (tx_others x))) = length (telegram_users ?c)"
    using arg_cong [OF tx_view_sels(3) [of "tx_others x"], of length] assms(3) by (simp only: length_map length_append tx_others_own list.size)
  ultimately have own: "tx_users y0 = []" "tx_tgs y0 = []" using v(3,4) assms(2) by simp_all
  have a: "account_of ?c (TU_TelegramID tu) = Some u" using open_ok_others(2) [OF assms(1)] assms(4) by (simp add: peers_def)
  then obtain r where "find_tg ?c (TU_TelegramID tu) = Some r" by (rule account_has_row)
  with own a y0(2) find_tg_same(1) [OF v(2)] account_same [OF v(2)]
  have "holds_refreshed tu u (refresh_row tu (pg_clock (tx_db y0)) r) y" by (simp add: holds_refreshed_def)
  then show ?thesis by (rule that)
qed

lemma open_ensure_Inr:
  assumes "open_ok s x" "tx_users x = []" "tx_tgs x = []" "tx_refresh x = None" "open_ensure tu x = (Inr (u, tg, c), y)"
  shows "\<exists>row. tg = telegram_user_of_row row \<and> (if c then holds_created tu u row y else holds_refreshed tu u row y)"
  using assms(5) unfolding open_ensure_def
proof (cases rule: attempt_cases)
  case (err e x1)
  have x1: "open_ok s x1" using keepsD [OF keeps_in_tx [OF inserts_statements(1)] assms(1) err(1)] .
  note own = in_tx_query(1-3) [OF err(1), unfolded assms(2-4)]
  from err(2) obtain k x2 z x3 where 2: "in_tx (stmt insert_user) x1 = (Inr k, x2)"
    and 3: "in_tx (stmt (insert_tg tu k)) x2 = (Inr z, x3)" and 4: "open_load tu k True x3 = (Inr (u, tg, c), y)"
    by (auto elim!: attempt_cases split: if_splits)
  from x1 own 2 3 obtain u0 row where h: "holds_created tu u0 row x3" "User_ID u0 = k" by (rule open_create)
  have "open_ok s x3"
    using keepsD [OF keeps_in_tx [OF inserts_statements(3)] keepsD [OF keeps_in_tx [OF inserts_statements(2)] x1 2] 3] .
  from created_loaded [OF this h(1) 4 [folded h(2)]] show ?thesis by auto
next
  case (val r0 x1)
  have x1: "open_ok s x1" using keepsD [OF keeps_in_tx [OF inserts_statements(1)] assms(1) val(1)] .
  note own = in_tx_query(1-3) [OF val(1), unfolded assms(2-4)] and same = in_tx_query(4) [OF val(1)]
  have "find_tg (tx_db (tx_others x)) (TU_TelegramID tu) = Some r0"
    using in_tx_query(6) [OF val(1) refl] assms(2-4) by (auto simp: tx_view_fresh)
  then obtain u0 where u0: "account_of (tx_db x1) (TU_TelegramID tu) = Some u0" "User_ID u0 = tr_user_id r0"
    using open_ok_others(1) [OF assms(1)] account_same [OF same] by (auto simp: open_ok_def elim: db_ok_account)
  from val(2) obtain z x2 where 2: "in_refresh tu x1 = (Inr z, x2)" and 3: "open_load tu (tr_user_id r0) False x2 = (Inr (u, tg, c), y)"
    by (auto elim!: attempt_cases)
  from x1 own(1,2) u0(1) 2 obtain row where "holds_refreshed tu u0 row x2" by (rule open_refresh)
  from refreshed_loaded [OF keepsD [OF keeps_in_refresh x1 2] this 3 [folded u0(2)]] show ?thesis by auto
qed

section \<open>Atomicity\<close>

text \<open>
  The effect of the transaction is none, or the one of \<open>EnsureTelegramUser\<close> in one step at its
  commit, on the database the others have made by then.
\<close>

lemma tx_commit_cases:
  assumes "open_ok s x" "tx_commit a x = (r, t)"
  obtains (rolled_back) c e where "open_ok s (tx_others x)" "r = Inl e" "c = tx_db (tx_others x)" "same_db c t"
    | (committed) "open_ok s (tx_others x)" "r = Inr a \<or> isl r" "same_db (tx_view (tx_others x)) t"
  using assms(2) open_ok_others(1) [OF assms(1)] rolled_back committed
  by (auto simp: tx_commit_def Let_def split: list.splits option.splits fault.splits)

lemma committed_identity:
  assumes "open_ok s x" "if c then holds_created tu u row x else holds_refreshed tu u row x" "same_db (tx_view (tx_others x)) t"
  shows "if c then created_identity tu (tx_db (tx_others x)) u row t else refreshed_identity tu (tx_db (tx_others x)) u row t"
proof (cases c)
  case True
  with assms(2) have "created_identity tu (tx_db (tx_others x)) u row (tx_view (tx_others x))"
    by (auto intro: created_view open_ok_others(1) [OF assms(1)] holds_others(1) [OF assms(1)])
  with True assms(3) show ?thesis unfolding created_identity_def using same_db_trans by auto
next
  case False
  with assms(2) have "refreshed_identity tu (tx_db (tx_others x)) u row (tx_view (tx_others x))"
    by (auto intro: refreshed_view holds_others(2) [OF assms(1)])
  then obtain now r0 where "same_db ((tx_db (tx_others x))\<lparr>telegram_users := refreshed tu now (telegram_users (tx_db (tx_others x)))\<rparr>) (tx_view (tx_others x))"
    "find_tg (tx_db (tx_others x)) (TU_TelegramID tu) = Some r0" "row = refresh_row tu now r0" "user_with (tx_db (tx_others x)) (tr_user_id r0) = Some u"
    unfolding refreshed_identity_def by blast
  with False same_db_trans [OF _ assms(3)] show ?thesis unfolding refreshed_identity_def by auto
qed

lemma Ensure_amid_cases:
  assumes "db_ok s" "\<forall>f \<in> set moves. \<forall>c. db_ok c \<longrightarrow> peers c (f c)" "EnsureTelegramUser_amid tu moves s = (r, t)"
  obtains (none) c e where "db_ok c" "peers s c" "r = Inl e" "same_db c t"
    | (new) c u row where "db_ok c" "peers s c" "created_identity tu c u row t" "r = Inr (u, telegram_user_of_row row, True) \<or> isl r"
    | (old) c u row where "db_ok c" "peers s c" "refreshed_identity tu c u row t" "r = Inr (u, telegram_user_of_row row, False) \<or> isl r"
proof (cases "TelegramUserID_Valid (TU_TelegramID tu)")
  case False
  with assms none [of s] show ?thesis by (simp add: EnsureTelegramUser_amid_def)
next
  case True
  with assms(3) have "attempt (stmt (ok ())) (\<lambda>err. throw (Wrap ''begin: '' err []))
      (\<lambda>_ s0. case open_ensure tu (tx_begin moves s0) of (r, x) \<Rightarrow> (case r of Inl err \<Rightarrow> (Inl err, tx_db x) | Inr a \<Rightarrow> tx_commit a x)) s
    = (r, t)" by (simp add: EnsureTelegramUser_amid_def)
  then show ?thesis
  proof (cases rule: attempt_cases)
    case (err e s0)
    with stmt_ok_same [OF err(1)] assms(1) show ?thesis by (intro none [of s]) auto
  next
    case (val _ s0)
    have s0: "same_db s s0" using val(1) by (rule stmt_ok_same)
    have x0: "open_ok s (tx_begin moves s0)"
      using assms(1,2) peers_same [OF s0] db_ok_same [OF s0] by (simp add: open_ok_def tx_begin_def clash_def)
    obtain q x where q: "open_ensure tu (tx_begin moves s0) = (q, x)" by fastforce
    have x: "open_ok s x" using keepsD [OF keeps_open_ensure x0 q] .
    show ?thesis
    proof (cases q)
      case (Inl e)
      with val(2) q x none [of "tx_db x"] show ?thesis by (auto simp: open_ok_def)
    next
      case (Inr a)
      obtain u tg c where a: "a = (u, tg, c)" by (cases a)
      obtain row where tg: "tg = telegram_user_of_row row" and h: "if c then holds_created tu u row x else holds_refreshed tu u row x"
        using open_ensure_Inr [OF x0 _ _ _ q [unfolded Inr a]] by (auto simp: tx_begin_def)
      from val(2) q Inr have "tx_commit a x = (r, t)" by simp
      with x show ?thesis
      proof (cases rule: tx_commit_cases)
        case (rolled_back d e)
        with none [of d e] show ?thesis by (simp add: open_ok_def)
      next
        case committed
        have y: "db_ok (tx_db (tx_others x))" "peers s (tx_db (tx_others x))" using committed(1) by (simp_all add: open_ok_def)
        from committed_identity [OF x h committed(3)] committed(2) a tg new [OF y] old [OF y] show ?thesis by (cases c) auto
      qed
    qed
  qed
qed

section \<open>The statements are those of the repository\<close>

text \<open>
  With nobody else at work the statement-by-statement method is the method of \<open>UserRepo\<close>. The two
  run in lockstep: the view is the state of the transaction there.
\<close>

definition lockstep :: "'z pgdb_scheme \<Rightarrow> 'z pgdb_scheme open_tx \<Rightarrow> 'z pgdb_scheme \<Rightarrow> bool" where
  "lockstep s0 x v \<longleftrightarrow> tx_view x = v \<and> tx_moves x = []
     \<and> (\<exists>fs n. tx_db x = s0\<lparr>pg_faults := fs, pg_uuid_next := n\<rparr>)"

definition runs_alike :: "'z pgdb_scheme \<Rightarrow> ('z pgdb_scheme open_tx, 'a) op \<Rightarrow> ('z pgdb_scheme, 'a) op \<Rightarrow> bool" where
  "runs_alike s0 m n \<longleftrightarrow> (\<forall>x v r y. lockstep s0 x v \<longrightarrow> m x = (r, y) \<longrightarrow> (\<exists>w. n v = (r, w) \<and> lockstep s0 y w))"

lemma alikeD: "runs_alike s0 m n \<Longrightarrow> lockstep s0 x v \<Longrightarrow> m x = (r, y) \<Longrightarrow> \<exists>w. n v = (r, w) \<and> lockstep s0 y w"
  by (simp add: runs_alike_def)

named_theorems alike_rules \<open>operations that run in lockstep\<close>

lemma alike_basic [alike_rules]: "runs_alike s0 (throw e) (throw e)" "runs_alike s0 (ok a) (ok a)"
  by (simp_all add: runs_alike_def)

lemma alike_if [alike_rules]:
  "runs_alike s0 m n \<Longrightarrow> runs_alike s0 m' n' \<Longrightarrow> runs_alike s0 (if b then m else m') (if b then n else n')"
  by simp

lemma alike_attempt [alike_rules]:
  assumes "runs_alike s0 m n" "\<And>e. runs_alike s0 (h e) (h' e)" "\<And>a. runs_alike s0 (k a) (k' a)"
  shows "runs_alike s0 (attempt m h k) (attempt n h' k')"
  unfolding runs_alike_def
proof (intro allI impI)
  fix x v r y
  assume x: "lockstep s0 x v" and "attempt m h k x = (r, y)"
  from this(2) show "\<exists>w. attempt n h' k' v = (r, w) \<and> lockstep s0 y w"
  proof (cases rule: attempt_cases)
    case (err e x1)
    then obtain w where "n v = (Inl e, w)" "lockstep s0 x1 w" using alikeD [OF assms(1) x] by blast
    with alikeD [OF assms(2) _ err(2)] show ?thesis by (simp add: attempt_def)
  next
    case (val a x1)
    then obtain w where "n v = (Inr a, w)" "lockstep s0 x1 w" using alikeD [OF assms(1) x] by blast
    with alikeD [OF assms(3) _ val(2)] show ?thesis by (simp add: attempt_def)
  qed
qed

text \<open>A statement appends rows and changes nothing else but the faults and the generator.\<close>

definition extended :: "User list \<Rightarrow> tg_row list \<Rightarrow> fault option list \<Rightarrow> nat \<Rightarrow> 'z pgdb_scheme \<Rightarrow> 'z pgdb_scheme" where
  "extended us ts fs n s = s\<lparr>users := users s @ us, telegram_users := telegram_users s @ ts, pg_faults := fs, pg_uuid_next := n\<rparr>"

lemma extended_none: "extended [] [] fs (pg_uuid_next s) s = s\<lparr>pg_faults := fs\<rparr>" "extended [] [] (pg_faults s) (pg_uuid_next s) s = s"
  "extended us ts fs n (s\<lparr>pg_faults := gs\<rparr>) = extended us ts fs n s"
  by (simp_all add: extended_def)

definition appends :: "('z pgdb_scheme, 'a) op \<Rightarrow> bool" where
  "appends m \<longleftrightarrow> (\<forall>s r t. m s = (r, t) \<longrightarrow> (\<exists>us ts fs n. t = extended us ts fs n s))"

lemma appendsI: "(\<And>s r t. m s = (r, t) \<Longrightarrow> \<exists>us ts fs n. t = extended us ts fs n s) \<Longrightarrow> appends m"
  by (simp add: appends_def)

lemma appends_stmt:
  assumes "appends m"
  shows "appends (stmt m)"
  unfolding appends_def
proof (intro allI impI)
  fix s r t
  assume "stmt m s = (r, t)"
  then show "\<exists>us ts fs n. t = extended us ts fs n s"
  proof (cases rule: stmt_cases)
    case (lost e fs)
    then show ?thesis using extended_none(1) by metis
  qed (use assms extended_none(3) in \<open>metis appends_def\<close>)+
qed

lemma appends_query: "appends (query q)"
  unfolding query_def by (intro appends_stmt) (auto simp: appends_def intro!: exI extended_none(2) [symmetric])

lemma appends_insert_user: "appends (stmt insert_user)"
proof -
  have "\<exists>us. t = extended us [] (pg_faults s) (Suc (pg_uuid_next s)) s" if "insert_user s = (r, t)" for s t :: "'z pgdb_scheme" and r
    using that by (intro exI [of _ "if pg_gen_uuid (engine s) (pg_uuid_next s) \<in> User_ID ` set (users s) then []
        else [\<lparr>User_ID = pg_gen_uuid (engine s) (pg_uuid_next s), User_Status = ''active'', User_CreatedAt = pg_clock s,
          User_UpdatedAt = pg_clock s\<rparr>]"]) (auto simp: insert_user_def Let_def extended_def split: if_split_asm)
  then show ?thesis by (intro appends_stmt appendsI) blast
qed

lemma appends_insert_tg: "appends (stmt (insert_tg tu k))"
proof -
  have "t = s \<or> (\<exists>row. t = extended [] [row] (pg_faults s) (pg_uuid_next s) s)" if "insert_tg tu k s = (r, t)"
    for s t :: "'z pgdb_scheme" and r
    using that by (auto simp: insert_tg_def with_uuid_def Let_def extended_def split: option.splits if_split_asm)
  moreover have "\<exists>us ts fs n. s = extended us ts fs n s" for s :: "'z pgdb_scheme" using extended_none(2) [of s] by metis
  ultimately show ?thesis by (intro appends_stmt appendsI) blast
qed

lemmas appends_statements = appends_query appends_insert_user appends_insert_tg

lemma lockstep_others: "lockstep s0 x v \<Longrightarrow> tx_others x = x"
  by (simp add: lockstep_def tx_others_def)

lemma alike_in_tx:
  assumes "appends m"
  shows "runs_alike s0 (in_tx m) m"
  unfolding runs_alike_def
proof (intro allI impI)
  fix x v r y
  assume x: "lockstep s0 x v" and "in_tx m x = (r, y)"
  then obtain w where w: "m v = (r, w)" and y: "y = x\<lparr>tx_db := (tx_db x)\<lparr>pg_faults := pg_faults w, pg_uuid_next := pg_uuid_next w\<rparr>,
      tx_users := drop (length (users (tx_db x))) (users w), tx_tgs := drop (length (telegram_users (tx_db x))) (telegram_users w)\<rparr>"
    by (auto simp: in_tx_def Let_def lockstep_others [OF x] lockstep_def split: prod.splits)
  from assms w obtain us ts fs n where "w = extended us ts fs n (tx_view x)"
    using x unfolding appends_def lockstep_def by blast
  then have "lockstep s0 y w"
    using x y by (auto simp: lockstep_def extended_def tx_view_def refreshed_def split: option.splits)
  with w show "\<exists>w. m v = (r, w) \<and> lockstep s0 y w" by blast
qed

lemma alike_load: "runs_alike s0 (open_load tu k c) (load_identity tu k c)"
  unfolding open_load_def load_identity_def scanTelegramUser_def
  by (intro alike_rules alike_in_tx appends_statements)

text \<open>A refresh that fails is rolled back on both sides.\<close>

definition rolls_alike :: "'z pgdb_scheme \<Rightarrow> error + 'a \<Rightarrow> 'z pgdb_scheme open_tx \<Rightarrow> 'z pgdb_scheme \<Rightarrow> bool" where
  "rolls_alike s0 r y w \<longleftrightarrow> (isl r \<longrightarrow> tx_db y = restore s0 w) \<and> (\<not> isl r \<longrightarrow> lockstep s0 y w)"

lemma lockstep_rolls: "lockstep s0 y w \<Longrightarrow> rolls_alike s0 r y w"
  by (auto simp: rolls_alike_def lockstep_def restore_def tx_view_def)

lemma alike_refresh:
  assumes "lockstep s0 x v" "tx_users x = []" "tx_tgs x = []" "tx_refresh x = None" "in_refresh tu x = (r, y)"
  shows "\<exists>w. stmt (refresh_tg tu) v = (r, w) \<and> rolls_alike s0 r y w"
proof -
  have v: "tx_others x = x" "tx_view x = v" "tx_db x = v" "tx_moves x = []"
    using assms(1) lockstep_others [OF assms(1)] tx_view_fresh [OF assms(2-4)] by (auto simp: lockstep_def)
  obtain fs0 n0 where s0: "v = s0\<lparr>pg_faults := fs0, pg_uuid_next := n0\<rparr>" using assms(1) v(3) by (auto simp: lockstep_def)
  obtain q w where q: "stmt (refresh_tg tu) v = (q, w)" by fastforce
  have "in_refresh tu x = (q, x\<lparr>tx_db := v\<lparr>pg_faults := pg_faults w, pg_uuid_next := pg_uuid_next w\<rparr>,
      tx_users := drop (length (users v)) (users w), tx_tgs := drop (length (telegram_users v)) (telegram_users w),
      tx_refresh := Some (tu, pg_clock v)\<rparr>)" by (simp add: in_refresh_def in_tx_def Let_def v q)
  with assms(5) q have w: "stmt (refresh_tg tu) v = (r, w)" and y: "y = x\<lparr>tx_db := v\<lparr>pg_faults := pg_faults w, pg_uuid_next := pg_uuid_next w\<rparr>,
      tx_users := drop (length (users v)) (users w), tx_tgs := drop (length (telegram_users v)) (telegram_users w),
      tx_refresh := Some (tu, pg_clock v)\<rparr>" by simp_all
  have "rolls_alike s0 r y w"
    using w
  proof (cases rule: stmt_cases)
    case (lost e fs)
    then show ?thesis by (simp add: y s0 rolls_alike_def restore_def)
  next
    case (silent e fs r')
    then show ?thesis by (auto simp: y s0 rolls_alike_def restore_def refresh_tg_def)
  next
    case (run fs)
    then have "tx_view y = w" using assms(2,3) by (auto simp: y tx_view_def refresh_tg_def refreshed_def)
    then have "lockstep s0 y w" using v(4) by (auto simp: lockstep_def y s0)
    then show ?thesis by (rule lockstep_rolls)
  qed
  with w show ?thesis by blast
qed

lemma alike_tx_commit:
  assumes "lockstep s0 x v"
  shows "tx_commit a x = (case pg_faults v of [] \<Rightarrow> (Inr a, v)
    | f # fs \<Rightarrow> (let s' = v\<lparr>pg_faults := fs\<rparr> in case f of None \<Rightarrow> (Inr a, s')
        | Some (Lost_before err) \<Rightarrow> (Inl (Wrap ''commit: '' err []), restore s0 s')
        | Some (Lost_after err) \<Rightarrow> (Inl (Wrap ''commit: '' err []), s')))"
proof -
  have v: "tx_others x = x" "tx_view x = v" "pg_faults (tx_db x) = pg_faults v" using assms lockstep_others [OF assms] by (auto simp: lockstep_def)
  have "(tx_db x)\<lparr>pg_faults := fs\<rparr> = restore s0 (v\<lparr>pg_faults := fs\<rparr>)" for fs
    using lockstep_rolls [OF assms, of "Inl undefined"] by (auto simp: rolls_alike_def restore_def)
  with v show ?thesis by (auto simp: tx_commit_def Let_def split: list.split option.split fault.split)
qed

lemma alike_create:
  "runs_alike s0
     (if errors_Is e (Foreign PgxErrNoRows) then
        attempt (in_tx (stmt insert_user)) (\<lambda>err. throw (Wrap ''create user: '' err []))
          (\<lambda>userID. attempt (in_tx (stmt (insert_tg tu userID))) (\<lambda>err. throw (Wrap ''link telegram user: '' err []))
          (\<lambda>_. open_load tu userID True))
      else throw (Wrap ''lookup telegram user: '' e []))
     (if errors_Is e (Foreign PgxErrNoRows) then
        attempt (stmt insert_user) (\<lambda>err. throw (Wrap ''create user: '' err []))
          (\<lambda>userID. attempt (stmt (insert_tg tu userID)) (\<lambda>err. throw (Wrap ''link telegram user: '' err []))
          (\<lambda>_. load_identity tu userID True))
      else throw (Wrap ''lookup telegram user: '' e []))"
  by (intro alike_rules alike_in_tx alike_load appends_statements)

lemma open_ensure_alike:
  assumes "open_ensure tu (tx_begin [] s0) = (r, y)"
  obtains w where "ensure_tx tu s0 = (r, w)" "rolls_alike s0 r y w"
proof -
  let ?x = "tx_begin [] s0"
  have x: "lockstep s0 ?x s0" by (auto simp: lockstep_def tx_begin_def tx_view_def intro!: exI [of _ "pg_faults s0"] exI [of _ "pg_uuid_next s0"])
  have "\<exists>w. ensure_tx tu s0 = (r, w) \<and> rolls_alike s0 r y w"
    using assms unfolding open_ensure_def
  proof (cases rule: attempt_cases)
    case (err e x1)
    then obtain v where v: "query (select_tg (TU_TelegramID tu)) s0 = (Inl e, v)" "lockstep s0 x1 v"
      using alikeD [OF alike_in_tx [OF appends_query] x] by blast
    from alikeD [OF alike_create v(2) err(2)] v(1) show ?thesis by (auto simp: ensure_tx_def attempt_def intro: lockstep_rolls)
  next
    case (val row x1)
    then obtain v where v: "query (select_tg (TU_TelegramID tu)) s0 = (Inr row, v)" "lockstep s0 x1 v"
      using alikeD [OF alike_in_tx [OF appends_query] x] by blast
    have own: "tx_users x1 = []" "tx_tgs x1 = []" "tx_refresh x1 = None" using in_tx_query(1-3) [OF val(1)] by (simp_all add: tx_begin_def)
    from val(2) show ?thesis
    proof (cases rule: attempt_cases)
      case (err e x2)
      from alike_refresh [OF v(2) own err(1)] v(1) err(2) show ?thesis by (auto simp: ensure_tx_def attempt_def rolls_alike_def)
    next
      case (val z x2)
      from alike_refresh [OF v(2) own val(1)] obtain w where w: "stmt (refresh_tg tu) v = (Inr z, w)" "lockstep s0 x2 w"
        by (auto simp: rolls_alike_def)
      from alikeD [OF alike_load w(2) val(2)] v(1) w(1) show ?thesis by (auto simp: ensure_tx_def attempt_def intro: lockstep_rolls)
    qed
  qed
  then show thesis using that by blast
qed

lemma Ensure_alone: "EnsureTelegramUser_amid tu [] s = UserRepo_EnsureTelegramUser tu s"
proof -
  have "(case open_ensure tu (tx_begin [] s0) of (r, x) \<Rightarrow> (case r of Inl err \<Rightarrow> (Inl err, tx_db x) | Inr a \<Rightarrow> tx_commit a x))
    = (case ensure_tx tu s0 of (r, s) \<Rightarrow> (case r of
           Inl err \<Rightarrow> (Inl err, restore s0 s)
         | Inr a \<Rightarrow> (case pg_faults s of
             [] \<Rightarrow> (Inr a, s)
           | f # fs \<Rightarrow> (let s' = s\<lparr>pg_faults := fs\<rparr> in
               case f of None \<Rightarrow> (Inr a, s')
               | Some (Lost_before err) \<Rightarrow> (Inl (Wrap ''commit: '' err []), restore s0 s')
               | Some (Lost_after err) \<Rightarrow> (Inl (Wrap ''commit: '' err []), s')))))" for s0 :: "'a pgdb_scheme"
  proof -
    obtain r y where run: "open_ensure tu (tx_begin [] s0) = (r, y)" by fastforce
    then obtain w where w: "ensure_tx tu s0 = (r, w)" "rolls_alike s0 r y w" by (rule open_ensure_alike)
    show ?thesis
    proof (cases r)
      case (Inl e)
      with run w show ?thesis by (simp add: rolls_alike_def)
    next
      case (Inr a)
      with run w show ?thesis by (simp add: rolls_alike_def alike_tx_commit)
    qed
  qed
  then show ?thesis by (simp only: EnsureTelegramUser_amid_def UserRepo_EnsureTelegramUser_def transaction_def)
qed

section \<open>First contact under concurrency\<close>

text \<open>
  C7. First contact is safe under concurrency. Whatever the other processes commit between the
  statements of \<open>EnsureTelegramUser\<close>, another first contact of the same user included, as long as
  they keep the constraints and the accounts: the constraints and every account are kept, no
  account is left without a Telegram identity, whether the call succeeds, fails or loses its
  answer; a call that succeeds returns the one account of the caller, which is new only if there
  was none when it began. So the call is again one that others may make meanwhile.
\<close>

theorem first_contact_survives_concurrency:
  assumes "db_ok s" "\<forall>f \<in> set moves. \<forall>c. db_ok c \<longrightarrow> peers c (f c)" "EnsureTelegramUser_amid tu moves s = (r, t)"
  shows "db_ok t \<and> peers s t
    \<and> (\<forall>u tg created. r = Inr (u, tg, created) \<longrightarrow> account_of t (TU_TelegramID tu) = Some u
         \<and> TU_TelegramID tg = TU_TelegramID tu \<and> TU_UserID tg = User_ID u
         \<and> (created \<longrightarrow> account_of s (TU_TelegramID tu) = None \<and> User_Status u = UserActive))"
proof -
  have s: "account_of s (TU_TelegramID tu) = None" if "peers s c" "account_of c (TU_TelegramID tu) = None" for c
    using that by (cases "account_of s (TU_TelegramID tu)") (auto simp: peers_def)
  from assms show ?thesis
  proof (cases rule: Ensure_amid_cases)
    case (none c e)
    then show ?thesis using peers_trans [OF none(2) peers_same] db_ok_sameI by blast
  next
    case (new c u row)
    with peers_trans [OF new(2) peers_created] created_account(1,2) [OF new(1,3)] created_db_ok [OF new(1,3)] s [OF new(2)]
    show ?thesis by (auto simp: created_identity_def telegram_user_of_row_def)
  next
    case (old c u row)
    with peers_trans [OF old(2) peers_refreshed] refreshed_account [OF old(3)] refreshed_db_ok [OF old(1,3)]
    show ?thesis by (auto simp: telegram_user_of_row_def)
  qed
qed

section \<open>Two first messages\<close>

lemma Ensure_peers: "db_ok c \<Longrightarrow> peers c (snd (UserRepo_EnsureTelegramUser tu c))"
proof -
  assume c: "db_ok c"
  obtain r t where run: "UserRepo_EnsureTelegramUser tu c = (r, t)" by fastforce
  from c run show ?thesis
    by (cases rule: Ensure_cases) (auto simp: run intro: peers_same peers_created [OF c] peers_refreshed [OF c])
qed

definition sample_contact :: TelegramUser where
  "sample_contact = \<lparr>TU_TelegramID = 7, TU_UserID = [], TU_Username = ''alice'', TU_FirstName = ''Alice'', TU_LastName = [],
     TU_LanguageCode = ''en'', TU_ChatID = 7, TU_CreatedAt = 0, TU_UpdatedAt = 0, TU_LastSeenAt = 0\<rparr>"

definition sample_rival :: "pgdb \<Rightarrow> pgdb" where
  "sample_rival c = snd (UserRepo_EnsureTelegramUser sample_contact c)"

text \<open>
  Two first messages of one user: both find no account, the other is committed first. The
  comment of \<open>EnsureTelegramUser\<close> calls it idempotent, but this call fails on the unique index and
  the message is answered with an error; one account is left, and the next message finds it.
\<close>

definition sample_second :: "(error + User \<times> TelegramUser \<times> bool) \<times> pgdb" where
  "sample_second = EnsureTelegramUser_amid sample_contact [\<lambda>c. c, sample_rival] (empty_db ())"

theorem first_contacts_collide:
  "case sample_second of (r, t) \<Rightarrow> isl r \<and> as_pg_code (projl r) = Some ''23505'' \<and> length (users t) = 1
     \<and> length (telegram_users t) = 1
     \<and> (case UserRepo_EnsureTelegramUser sample_contact t of (r', t') \<Rightarrow> map_sum id (\<lambda>(u, tg, created). created) r' = Inr False)"
  by code_simp

text \<open>When the other comes after the insert, it waits, and this call creates the account.\<close>

definition sample_first :: "(error + User \<times> TelegramUser \<times> bool) \<times> pgdb" where
  "sample_first = EnsureTelegramUser_amid sample_contact [\<lambda>c. c, \<lambda>c. c, \<lambda>c. c, sample_rival] (empty_db ())"

theorem first_contact_survives_concurrency_witness:
  "case sample_first of (r, t) \<Rightarrow> db_ok t \<and> orphans t = {}
     \<and> (\<exists>u tg. r = Inr (u, tg, True) \<and> account_of t 7 = Some u \<and> TU_UserID tg = User_ID u \<and> User_Status u = UserActive)"
proof -
  have moves: "\<forall>f \<in> set [\<lambda>c. c, \<lambda>c. c, \<lambda>c. c, sample_rival]. \<forall>c. db_ok c \<longrightarrow> peers c (f c)" by (simp add: sample_rival_def Ensure_peers)
  have run: "EnsureTelegramUser_amid sample_contact [\<lambda>c. c, \<lambda>c. c, \<lambda>c. c, sample_rival] (empty_db ()) = (fst sample_first, snd sample_first)"
    by (simp add: sample_first_def)
  note facts = first_contact_survives_concurrency [OF empty_db_ok moves run]
  have "map_sum id (\<lambda>(u, tg, created). created) (fst sample_first) = Inr True" by code_simp
  then obtain u tg where r: "fst sample_first = Inr (u, tg, True)" by (cases "fst sample_first") auto
  have "orphans (empty_db ()) = {}" "TU_TelegramID sample_contact = 7" by (simp_all add: orphans_def empty_db_def sample_contact_def)
  with facts r show ?thesis by (auto simp: peers_def case_prod_beta)
qed

end
