(* ===== verification/Spec2Isabelle.thy ===== *)
theory Spec2Isabelle
  imports Liveness ProcessRuns Accountability FirstContact
begin

text \<open>
  \<^bold>\<open>A model of the hoodalpha backend.\<close> The program is the control plane of a trading bot on
  Robinhood Chain: three Go processes over one PostgreSQL database. Its promises are about
  access (a closed allowlist), custody (no private key is ever taken in), money limits (trading
  is off until the owner turns it on) and surviving restarts, duplicates and outages.

  \<^bold>\<open>Parts and how they interact.\<close>
  \<^item> The \<^emph>\<open>bot\<close> (\<open>cmd/bot\<close>, \<open>internal/telegram\<close>) receives Telegram messages; the router
    parses, authorizes, throttles, runs a command and records it.
  \<^item> The \<^emph>\<open>API\<close> (\<open>cmd/api\<close>, \<open>internal/httpapi\<close>) serves the Mini App behind signed init data
    (\<open>internal/telegram/initdata\<close>), the health endpoints, and follows the chain's heads.
  \<^item> The \<^emph>\<open>worker\<close> (\<open>cmd/worker\<close>, \<open>internal/queue\<close>) verifies linked wallets on the chain, records
    the chain's head and sends notifications.
  \<^item> They share the services of \<open>internal/application\<close> (onboarding, wallets, Mini App
    authentication, chain sync, health), the repositories of \<open>internal/persistence\<close>, the chain
    client of \<open>internal/chain\<close> and the types of \<open>internal/domain\<close>. A linked wallet is queued by
    the bot or the API and verified by the worker; everything else meets in the database.

  \<^bold>\<open>How the code is represented.\<close> A call that can fail is an operation
  \<open>('s, 'a) op = 's \<Rightarrow> (error + 'a) \<times> 's\<close> (\<open>Prelude\<close>), composed by \<open>attempt\<close> and \<open>after\<close> the way the
  code chains calls and early returns; errors are values with \<open>errors.Is\<close> and their texts.
  Structs are records, interfaces are records of operations, services are polymorphic in the
  state. 64-bit integers are words where the code can overflow; floats are reals with NaN and
  the infinities; strings are bytes. The database is the record \<open>pgdb\<close> with its tables and
  constraints, one statement or transaction at a time; \<open>pg_faults\<close> is the list of network
  faults to come (a statement lost before it runs, or after it ran and before its answer). The
  record extension \<open>'z\<close> is the world outside the tables, where Redis, Asynq, the node and
  Telegram live; calls to them go through \<open>outside\<close>.

  \<^bold>\<open>Theories.\<close>
  \<^item> \<open>Prelude\<close>, \<open>GoStrings\<close>: operations, errors, \<open>keeps\<close> and the rules of its collection; the
    functions of \<open>strings\<close>, \<open>strconv\<close> and \<open>fmt\<close> that the code uses, with their round trips.
  \<^item> \<open>DomainChain\<close>, \<open>DomainUser\<close>, \<open>DomainWallet\<close>, \<open>DomainAudit\<close>, \<open>DomainHealth\<close>:
    \<open>internal/domain\<close>. Addresses, amounts, the allowlist, the status machine, policy limits,
    aggregation of health.
  \<^item> \<open>Ports\<close>: the interfaces of \<open>application/ports.go\<close> as records, and what the services rely on
    as locales, interpreted on the repositories below.
  \<^item> \<open>Postgres\<close> (schema, statements, transactions, the invariant \<open>db_ok\<close>), \<open>WalletRepo\<close>,
    \<open>UserRepo\<close>, \<open>LogRepos\<close>, \<open>AuditQuery\<close>: \<open>persistence/postgres\<close>, every method with its SQL. Each
    operation keeps \<open>db_ok\<close> whatever fails; effects are stated on \<open>wallet_at\<close>, \<open>policy_at\<close>,
    \<open>account_of\<close> and \<open>height\<close>.
  \<^item> \<open>RedisGuard\<close>: the replay guard and the rate limiter.
  \<^item> \<open>WalletService\<close>, \<open>Onboarding\<close>, \<open>MiniAppAuth\<close>, \<open>ChainSync\<close>, \<open>HealthChecker\<close>:
    \<open>internal/application\<close>. The lemmas of the services are proved in the locales and reach the
    code through the interpretations on the repositories.
  \<^item> \<open>Retry\<close>, \<open>ChainClient\<close>, \<open>Subscriber\<close>: \<open>internal/chain\<close>. The subscriber is a step relation over
    what it observes, with an invariant of its reachable states.
  \<^item> \<open>InitData\<close>, \<open>Router\<close>, \<open>TelegramCommands\<close>, \<open>TelegramBot\<close>: \<open>internal/telegram\<close>.
  \<^item> \<open>QueueTasks\<close>: \<open>internal/queue\<close> and its handlers. \<open>HttpApi\<close>: \<open>internal/httpapi\<close>.
  \<^item> \<open>Config\<close>, \<open>Bootstrap\<close>: loading the environment; opening and closing dependencies; the
    \<open>migrate\<close> command. The drivers act on the world outside the tables, the migrations of goose
    on the whole database.
  \<^item> \<open>Frames\<close>, \<open>System\<close>: what each service leaves alone; the services wired from a configuration,
    and the steps of the running system (\<open>sys_step\<close>, \<open>sys_run\<close>): a message, a request, a
    task, a head, a health check, or a move of the world.
  \<^item> \<open>Runs\<close>, \<open>Liveness\<close>: the invariants and histories of all runs; verification completes.
  \<^item> \<open>Interleaving\<close>: the use cases of the wallet service with the other processes at work between
    their statements, by rely and guarantee.
  \<^item> \<open>Accountability\<close>: the use cases against a database that answers, and the audit row each
    change of a wallet leaves.
  \<^item> \<open>FirstContact\<close>: \<open>EnsureTelegramUser\<close> statement by statement, with commits of others in between;
    alone it is the method of \<open>UserRepo\<close>, and its effect is that of one step at its commit.
  \<^item> \<open>Processes\<close>, \<open>ProcessRuns\<close>: the \<open>run\<close> functions of the main packages; each changes the tables
    only by serving, with the handlers wired from its configuration, and closes what it opened;
    over libraries that run handlers one at a time it is a run of the system.

  \<^bold>\<open>What the theorems show.\<close> Of the whole system: from an empty database, in every
  interleaving and under every fault, the database invariant holds, accounts and wallets belong
  to allowlisted users, a wallet is active only after a verification and may trade only after a
  policy request of its owner, nothing moves it to another owner, and the audit trail and the
  recorded heads only grow. Between the statements of a wallet use case others may run, and its
  checks still hold when it writes. When the database answers, every change of a wallet or its
  limits leaves exactly one audit row that names the action, the actor and the wallet. Concurrent
  first messages of a user never give two accounts, nor one that nobody can reach. Starting and
  stopping a process changes no table. Of the parts: the access
  gates (\<open>Authorize\<close>, \<open>Authenticate\<close>, \<open>Verify\<close> of init data, \<open>Dispatch\<close>, the Mini App's routes),
  ownership of every change, secrets that leave no trace, monotone chain progress as a
  refinement of a maximum, exact acceptance of configurations, allowlists and policies, the
  chain a client is bound to and the form of what it returns, round trips of addresses, amounts,
  data-check strings and audit events, termination, bounds and policy of retries, and the
  resources of a process. Theorems that end in \<open>_witness\<close> apply a property at concrete
  inputs.

  \<^bold>\<open>Parameters and what is asked of them.\<close> HMAC, Ed25519, base64 and JSON (\<open>primitives\<close>,
  \<open>decoders\<close>), number and time formatting, \<open>ParseFloat\<close> and \<open>ParseDuration\<close>, Unicode tables, the
  PostgreSQL engine's input functions (\<open>engine_ok\<close>), the Redis commands (\<open>setnx_documented\<close>,
  \<open>incr_documented\<close>), the drivers (\<open>tracks\<close>, \<open>libs_track\<close>), goose (\<open>migrations_track\<close>,
  \<open>migrations_read\<close>), go-ethereum's rendering of hashes (\<open>renders_hex\<close>) and the loops of the
  libraries are arguments; the predicates in parentheses state their documented behaviour, and
  witnesses instantiate them. Of the node, of Telegram and of Asynq's queue nothing is asked
  beyond their types, except where a theorem names an answer, and that none of their errors is
  one of the program's own (\<open>unmarked_probe\<close>, \<open>unmarked_faults\<close>). The properties of processes ask
  nothing of the loops; only \<open>serial_processes_refine_system\<close> does, by \<open>serial_loops\<close>: the
  handlers run one at a time, each to its end. That is an assumption on the schedule, which the
  real libraries do not promise, and no numbered property rests on it.

  \<^bold>\<open>Loops and bounds.\<close> Loops are recursive functions that terminate; the retry loop's measure is
  the number of attempts left, so no fuel is used. The loops that serve for ever are parameters or,
  for the subscriber, steps. The schedules of the health probes are arguments, and the theorems
  hold for every permutation.

  \<^bold>\<open>Not modelled.\<close> Log output; the partitions, roles and non-unique indexes of the schema;
  interleaving between the statements of a handler outside the wallet service and first contact (in the steps of
  the system a handler runs to its end, while faults can cut it short anywhere); deadlines other than as errors of the call they bound; the
  parameter-count limit of \<open>url.ParseQuery\<close>; refusals of PostgreSQL to store text that is not UTF-8
  other than as faults. The chi middleware of \<open>httpapi/server.go\<close> (request IDs, recovery from
  panics, the 15-second timeout) is not in \<open>httpapi_New\<close>: a panic is an error of the
  operation, a timeout an error of the call it cuts short. The identity that the middleware puts into the request context is passed
  as an argument. Rows with equal sort keys come in the order of the table.
\<close>

end
